(* ===== verification/Base.thy ===== *)
theory Base
  imports Main "HOL-Library.AList" "HOL-Library.List_Lexorder" "HOL-Library.Char_ord"
begin

text \<open>
  Prelude of the Aether-Vault development: Python dictionaries, strings, HTTP outcomes and
  the generic lemmas the component theories share.

  A Python \<open>dict\<close> is an association list in insertion order. \<open>AList.update\<close> is
  \<open>d[k] = v\<close> (in place when the key is present, appended otherwise), \<open>AList.delete\<close>
  is \<open>d.pop(k, None)\<close>, \<open>map_of\<close> is \<open>d.get(k)\<close>. Well-formedness is
  distinctness of the keys. A Python \<open>str\<close> is a \<open>string\<close>; \<open>sorted\<close> on strings is
  the lexicographic order of the code points (\<open>List_Lexorder\<close>, \<open>Char_ord\<close>).
\<close>

type_synonym hash = string
type_synonym ('k, 'v) dict = "('k \<times> 'v) list"

named_theorems dict_simps \<open>lookup after an update of a Python dictionary\<close>
named_theorems wf_intros \<open>operations preserve well-formedness\<close>

section \<open>Dictionaries\<close>

abbreviation dget :: "('k, 'v) dict \<Rightarrow> 'k \<Rightarrow> 'v option" where
  "dget d k \<equiv> map_of d k"

definition dget_or :: "('k, 'v) dict \<Rightarrow> 'k \<Rightarrow> 'v \<Rightarrow> 'v" where
  "dget_or d k v = (case map_of d k of None \<Rightarrow> v | Some x \<Rightarrow> x)"

abbreviation dset :: "('k, 'v) dict \<Rightarrow> 'k \<Rightarrow> 'v \<Rightarrow> ('k, 'v) dict" where
  "dset d k v \<equiv> AList.update k v d"

abbreviation ddel :: "('k, 'v) dict \<Rightarrow> 'k \<Rightarrow> ('k, 'v) dict" where
  "ddel d k \<equiv> AList.delete k d"

definition dkeys :: "('k, 'v) dict \<Rightarrow> 'k list" where
  "dkeys d = map fst d"

definition has_key :: "('k, 'v) dict \<Rightarrow> 'k \<Rightarrow> bool" where
  "has_key d k \<longleftrightarrow> List.member (map fst d) k"

definition dict_wf :: "('k, 'v) dict \<Rightarrow> bool" where
  "dict_wf d \<longleftrightarrow> distinct (map fst d)"

lemma has_key_iff [simp]: "has_key d k \<longleftrightarrow> k \<in> fst ` set d"
  by (simp add: has_key_def)

lemma map_of_eq_None_key: "map_of d k = None \<longleftrightarrow> k \<notin> fst ` set d"
  by (rule map_of_eq_None_iff)

lemma map_of_Some_key: "map_of d k = Some v \<Longrightarrow> k \<in> fst ` set d"
  by (metis map_of_eq_None_iff option.distinct(1))

lemma has_key_dget: "has_key d k \<longleftrightarrow> (\<exists>v. dget d k = Some v)"
  by (metis has_key_iff map_of_eq_None_iff not_None_eq)

lemma dget_dset [dict_simps, simp]:
  "dget (dset d k v) k' = (if k' = k then Some v else dget d k')"
  by (simp add: update_conv)

lemma dget_ddel [dict_simps, simp]:
  "dget (ddel d k) k' = (if k' = k then None else dget d k')"
  by (simp add: delete_conv)

lemma dget_or_dset [dict_simps, simp]:
  "dget_or (dset d k v) k' x = (if k' = k then v else dget_or d k' x)"
  by (simp add: dget_or_def)

lemma dget_or_Nil [simp]: "dget_or [] k x = x"
  by (simp add: dget_or_def)

lemma dget_or_Some [simp]: "dget d k = Some v \<Longrightarrow> dget_or d k x = v"
  by (simp add: dget_or_def)

lemma keys_dset [simp]: "fst ` set (dset d k v) = insert k (fst ` set d)"
  by (simp add: dom_map_of_conv_image_fst [symmetric] update_conv')

lemma keys_ddel [simp]: "fst ` set (ddel d k) = fst ` set d - {k}"
  by (auto simp: dom_map_of_conv_image_fst [symmetric] delete_conv' split: if_splits)

lemma dict_wf_Nil [simp, wf_intros]: "dict_wf []"
  by (simp add: dict_wf_def)

lemma dict_wf_dset [simp, wf_intros]: "dict_wf d \<Longrightarrow> dict_wf (dset d k v)"
  by (simp add: dict_wf_def distinct_update)

lemma dict_wf_ddel [simp, wf_intros]: "dict_wf d \<Longrightarrow> dict_wf (ddel d k)"
  by (simp add: dict_wf_def distinct_delete)

lemma dict_wf_filter [simp, wf_intros]: "dict_wf d \<Longrightarrow> dict_wf (filter P d)"
  by (simp add: dict_wf_def distinct_map_filter)

lemma dict_wf_map_snd [simp, wf_intros]: "dict_wf (map (\<lambda>(k, v). (k, f k v)) d) = dict_wf d"
  by (simp add: dict_wf_def comp_def case_prod_unfold)

lemma dict_wf_get: "dict_wf d \<Longrightarrow> (k, v) \<in> set d \<longleftrightarrow> dget d k = Some v"
  by (auto simp: dict_wf_def)

lemma dget_filter_all: "(\<And>v. Q (k, v)) \<Longrightarrow> dget (filter Q d) k = dget d k"
  by (induction d) auto

lemma dget_map_snd: "dget (map (\<lambda>(k, v). (k, f k v)) d) k = map_option (f k) (dget d k)"
  by (induction d) auto

section \<open>Strings\<close>

definition startswith :: "string \<Rightarrow> string \<Rightarrow> bool" where
  "startswith s p \<longleftrightarrow> take (length p) s = p"

definition endswith :: "string \<Rightarrow> string \<Rightarrow> bool" where
  "endswith s p \<longleftrightarrow> length p \<le> length s \<and> drop (length s - length p) s = p"

text \<open>\<open>s.split(sep)\<close> with a one-character separator: always at least one part.\<close>

fun split_on :: "char \<Rightarrow> string \<Rightarrow> string list" where
  "split_on c [] = [[]]"
| "split_on c (x # xs) =
     (if x = c then [] # split_on c xs
      else (case split_on c xs of [] \<Rightarrow> [[x]] | p # ps \<Rightarrow> (x # p) # ps))"

text \<open>\<open>s.partition(sep)\<close>: text before, whether the separator occurs, text after.\<close>

fun partition_on :: "char \<Rightarrow> string \<Rightarrow> string \<times> bool \<times> string" where
  "partition_on c [] = ([], False, [])"
| "partition_on c (x # xs) =
     (if x = c then ([], True, xs)
      else (case partition_on c xs of (a, b, r) \<Rightarrow> (x # a, b, r)))"

text \<open>The characters below 256 that \<open>str.strip\<close> and \<open>str.split\<close> treat as whitespace.\<close>

definition is_space :: "char \<Rightarrow> bool" where
  "is_space c \<longleftrightarrow> c \<in> {CHR '' '', CHR 0x09, CHR 0x0A, CHR 0x0B, CHR 0x0C, CHR 0x0D,
                      CHR 0x1C, CHR 0x1D, CHR 0x1E, CHR 0x1F, CHR 0x85, CHR 0xA0}"

definition strip :: "string \<Rightarrow> string" where
  "strip s = rev (dropWhile is_space (rev (dropWhile is_space s)))"

definition lower_char :: "char \<Rightarrow> char" where
  "lower_char c =
     (let n = of_char c :: nat in if 65 \<le> n \<and> n \<le> 90 then char_of (n + 32) else c)"

definition lower :: "string \<Rightarrow> string" where
  "lower s = map lower_char s"

definition is_digit :: "char \<Rightarrow> bool" where
  "is_digit c \<longleftrightarrow> (let n = of_char c :: nat in 48 \<le> n \<and> n \<le> 57)"

definition is_hex :: "char \<Rightarrow> bool" where
  "is_hex c \<longleftrightarrow> (let n = of_char c :: nat in (48 \<le> n \<and> n \<le> 57) \<or> (97 \<le> n \<and> n \<le> 102))"

text \<open>The guard \<open>re.match(r"^[a-f0-9]{64}$", h)\<close>; \<open>$\<close> also matches before one final newline.\<close>

definition is_sha256_hex :: "string \<Rightarrow> bool" where
  "is_sha256_hex h \<longleftrightarrow>
     (length h = 64 \<and> list_all is_hex h)
   \<or> (length h = 65 \<and> list_all is_hex (butlast h) \<and> last h = CHR 0x0A)"

lemma split_on_nonempty [simp]: "split_on c s \<noteq> []"
  by (induction s) (auto split: list.splits)

lemma split_on_no_sep: "c \<notin> set s \<Longrightarrow> split_on c s = [s]"
  by (induction s) auto

lemma split_on_parts: "p \<in> set (split_on c s) \<Longrightarrow> c \<notin> set p"
  by (induction s arbitrary: p) (auto split: if_splits list.splits)

lemma startswith_append [simp]: "startswith (p @ s) p"
  by (simp add: startswith_def)

section \<open>HTTP outcomes of the registry handlers\<close>

text \<open>
  \<open>Reply\<close> is a returned response with its status code and body; \<open>Raise\<close> is an
  \<open>HTTPException\<close> with its status code and detail.
\<close>

datatype 'a http = Reply nat 'a | Raise nat string

fun http_status :: "'a http \<Rightarrow> nat" where
  "http_status (Reply n _) = n"
| "http_status (Raise n _) = n"

section \<open>Lists\<close>

lemma sorted_list_of_set_unique:
  "sorted xs \<Longrightarrow> distinct xs \<Longrightarrow> set xs = A \<Longrightarrow> xs = sorted_list_of_set A"
  by (metis sorted_list_of_set.idem_if_sorted_distinct)

end
