(* ===== verification/Repo.thy ===== *)
theory Repo
  imports Base
begin

text \<open>
  The data of a repository: tree entries, commits and the commit store under
  \<open>.av/commits\<close> (one JSON file per commit hash), with the interface through which the
  history algorithms read it.
\<close>

section \<open>Tree entries\<close>

text \<open>
  A flat commit tree maps a path to \<open>{hash, size, type, layers, chunks}\<close>; an index entry
  carries the same layer and chunk lists.
\<close>

record layer =
  l_name :: string
  l_hash :: hash
  l_size :: int

record chunk =
  ch_hash :: hash
  ch_size :: int
  ch_offset :: int

record entry =
  e_hash :: hash
  e_size :: int
  e_type :: string
  e_layers :: "layer list"
  e_chunks :: "chunk list"

type_synonym path = string
type_synonym tree = "(path, entry) dict"

section \<open>Commits\<close>

record commit =
  c_hash :: hash
  c_parents :: "hash list"
  c_author :: string
  c_timestamp :: string
  c_message :: string
  c_tree :: tree
  c_tags :: "string list"
  c_project_id :: string
  c_project_name :: string

type_synonym commit_store = "(hash, commit) dict"

text \<open>\<open>load_local_commit\<close>: the parsed commit file, or \<open>None\<close> when there is no such file.\<close>

definition load_local_commit :: "commit_store \<Rightarrow> hash \<Rightarrow> commit option" where
  "load_local_commit st h = dget st h"

text \<open>
  \<open>write_fetched_commit\<close>: the file name is the \<open>hash\<close> field of the payload; an existing
  file of that name is replaced.
\<close>

definition write_fetched_commit :: "commit_store \<Rightarrow> commit \<Rightarrow> commit_store" where
  "write_fetched_commit st c = dset st (c_hash c) c"

text \<open>\<open>commit.get("parents") or []\<close> of whatever the loader returns.\<close>

definition parents_of :: "commit_store \<Rightarrow> hash \<Rightarrow> hash list" where
  "parents_of st h = (case load_local_commit st h of None \<Rightarrow> [] | Some c \<Rightarrow> c_parents c)"

lemma load_write [dict_simps]:
  "load_local_commit (write_fetched_commit st c) h =
     (if h = c_hash c then Some c else load_local_commit st h)"
  by (simp add: load_local_commit_def write_fetched_commit_def)

lemma parents_outside_store: "h \<notin> fst ` set st \<Longrightarrow> parents_of st h = []"
  by (simp add: parents_of_def load_local_commit_def map_of_eq_None_key [symmetric])

section \<open>The parent graph\<close>

text \<open>
  The interface the history walks rely on: a parent function that is non-empty on finitely
  many nodes only. \<open>steps n x y\<close>: \<open>y\<close> is reached from \<open>x\<close> by at most \<open>n\<close> parent edges.
\<close>

locale parent_graph =
  fixes parents :: "'a \<Rightarrow> 'a list"
    and nodes :: "'a set"
  assumes finite_nodes: "finite nodes"
    and no_parents_outside: "x \<notin> nodes \<Longrightarrow> parents x = []"
begin

definition edge :: "'a \<Rightarrow> 'a \<Rightarrow> bool" where
  "edge x y \<longleftrightarrow> y \<in> set (parents x)"

definition anc :: "'a \<Rightarrow> 'a \<Rightarrow> bool" where
  "anc x y \<longleftrightarrow> edge\<^sup>*\<^sup>* x y"

fun within :: "nat \<Rightarrow> 'a \<Rightarrow> 'a \<Rightarrow> bool" where
  "within 0 x y \<longleftrightarrow> y = x"
| "within (Suc n) x y \<longleftrightarrow> within n x y \<or> (\<exists>z. within n x z \<and> edge z y)"

definition closed_under_parents :: "'a set \<Rightarrow> bool" where
  "closed_under_parents A \<longleftrightarrow> (\<forall>x \<in> A. set (parents x) \<subseteq> A)"

lemma anc_refl [simp]: "anc x x"
  by (simp add: anc_def)

lemma anc_step: "anc x y \<Longrightarrow> z \<in> set (parents y) \<Longrightarrow> anc x z"
  by (auto simp: anc_def edge_def intro: rtranclp.rtrancl_into_rtrancl)

lemma anc_converse_step: "z \<in> set (parents x) \<Longrightarrow> anc z y \<Longrightarrow> anc x y"
  by (auto simp: anc_def edge_def intro: converse_rtranclp_into_rtranclp)

lemma anc_trans: "anc x y \<Longrightarrow> anc y z \<Longrightarrow> anc x z"
  by (auto simp: anc_def intro: rtranclp_trans)

lemma closed_anc:
  assumes "closed_under_parents A" and "x \<in> A" and "anc x y"
  shows "y \<in> A"
  using assms(3) unfolding anc_def
  by (induction rule: rtranclp_induct)
    (use assms(1,2) in \<open>auto simp: closed_under_parents_def edge_def\<close>)

lemma within_anc: "within n x y \<Longrightarrow> anc x y"
  by (induction n arbitrary: y) (auto simp: edge_def intro: anc_step)

lemma anc_within: "anc x y \<Longrightarrow> \<exists>n. within n x y"
  unfolding anc_def
proof (induction rule: rtranclp_induct)
  case base
  have "within 0 x x" by simp
  then show ?case by blast
next
  case (step y z)
  then obtain n where "within n x y" by blast
  with step have "within (Suc n) x z" by auto
  then show ?case by blast
qed

lemma within_mono: "m \<le> n \<Longrightarrow> within m x y \<Longrightarrow> within n x y"
  by (induction n) (auto simp: le_Suc_eq)

text \<open>
  Why a worklist walk with a visited set stops: visiting a known node leaves fewer unvisited
  known nodes; visiting an unknown one leaves their number and adds nothing to the worklist.
\<close>

lemma visit_decreases:
  assumes "w \<notin> seen"
  shows "card (nodes - insert w seen) < card (nodes - seen)
    \<or> card (nodes - insert w seen) = card (nodes - seen) \<and> parents w = []"
proof (cases "w \<in> nodes")
  case True
  with assms have "nodes - insert w seen \<subset> nodes - seen" by auto
  then show ?thesis using finite_nodes by (simp add: psubset_card_mono)
next
  case False
  then have "nodes - insert w seen = nodes - seen" by auto
  then show ?thesis using no_parents_outside [OF False] by simp
qed

end

text \<open>The local commit store is such a graph: only stored commits have parents.\<close>

interpretation store: parent_graph "parents_of st" "fst ` set st" for st
  by unfold_locales (auto intro: parents_outside_store)

lemmas history_simps = store.closed_under_parents_def store.edge_def

end
