(* ===== verification/MergeBase.thy ===== *)
theory MergeBase
  imports Repo
begin

text \<open>
  Ancestry over the commit graph: \<open>merge.py::find_merge_base\<close>, \<open>sync.py::is_ancestor\<close> and
  \<open>core.py::_ref_contains\<close>. A Python list used as a stack is kept with its end first, so
  \<open>stack.extend(ps)\<close> is \<open>rev ps @ stack\<close> and \<open>stack.pop()\<close> takes the head; a \<open>deque\<close> is
  kept in its own order. The loader is the local commit store.
\<close>

section \<open>find\_merge\_base\<close>

text \<open>First phase: every ancestor of "ours", by a stack walk over all parents.\<close>

function collect_ancestors :: "commit_store \<Rightarrow> hash set \<Rightarrow> hash list \<Rightarrow> hash set" where
  "collect_ancestors st seen [] = seen"
| "collect_ancestors st seen (h # stack) =
     (if h \<in> seen then collect_ancestors st seen stack
      else collect_ancestors st (insert h seen) (rev (parents_of st h) @ stack))"
  by pat_completeness auto
termination
  by (relation "measures [\<lambda>(st, seen, work). card (fst ` set st - seen), \<lambda>(st, seen, work). length work]")
    (auto dest: store.visit_decreases)

text \<open>Second phase: breadth-first from "theirs" until a node of the first set is met.\<close>

function bfs_base :: "commit_store \<Rightarrow> hash set \<Rightarrow> hash set \<Rightarrow> hash list \<Rightarrow> hash option" where
  "bfs_base st ours visited [] = None"
| "bfs_base st ours visited (h # queue) =
     (if h \<in> visited then bfs_base st ours visited queue
      else if h \<in> ours then Some h
      else bfs_base st ours (insert h visited) (queue @ parents_of st h))"
  by pat_completeness auto
termination
  by (relation "measures [\<lambda>(st, ours, seen, work). card (fst ` set st - seen),
                          \<lambda>(st, ours, seen, work). length work]")
    (auto dest: store.visit_decreases)

definition find_merge_base :: "commit_store \<Rightarrow> hash \<Rightarrow> hash \<Rightarrow> hash option" where
  "find_merge_base st ours_hash theirs_hash =
     bfs_base st (collect_ancestors st {} [ours_hash]) {} [theirs_hash]"

section \<open>is\_ancestor and \_ref\_contains\<close>

function is_ancestor_loop :: "commit_store \<Rightarrow> hash \<Rightarrow> hash set \<Rightarrow> hash list \<Rightarrow> bool" where
  "is_ancestor_loop st a visited [] = False"
| "is_ancestor_loop st a visited (current # queue) =
     (if current \<in> visited then is_ancestor_loop st a visited queue
      else if a \<in> set (parents_of st current) then True
      else is_ancestor_loop st a (insert current visited) (rev (parents_of st current) @ queue))"
  by pat_completeness auto
termination
  by (relation "measures [\<lambda>(st, a, seen, work). card (fst ` set st - seen),
                          \<lambda>(st, a, seen, work). length work]")
    (auto dest: store.visit_decreases)

definition is_ancestor :: "commit_store \<Rightarrow> hash \<Rightarrow> hash \<Rightarrow> bool" where
  "is_ancestor st ancestor_hash descendant_hash =
     (if ancestor_hash = descendant_hash then True
      else is_ancestor_loop st ancestor_hash {} [descendant_hash])"

function ref_contains_loop :: "commit_store \<Rightarrow> hash \<Rightarrow> hash set \<Rightarrow> hash list \<Rightarrow> bool" where
  "ref_contains_loop st c seen [] = False"
| "ref_contains_loop st c seen (current # stack) =
     (if current = c then True
      else if current \<in> seen then ref_contains_loop st c seen stack
      else ref_contains_loop st c (insert current seen) (rev (parents_of st current) @ stack))"
  by pat_completeness auto
termination
  by (relation "measures [\<lambda>(st, a, seen, work). card (fst ` set st - seen),
                          \<lambda>(st, a, seen, work). length work]")
    (auto dest: store.visit_decreases)

definition ref_contains :: "commit_store \<Rightarrow> hash option \<Rightarrow> hash \<Rightarrow> bool" where
  "ref_contains st ref_hash c =
     ref_contains_loop st c {}
       (case ref_hash of None \<Rightarrow> [] | Some r \<Rightarrow> if r = [] then [] else [r])"

section \<open>The walks compute the ancestor relation\<close>

lemma collect_ancestors_sound:
  assumes "\<forall>x \<in> seen \<union> set work. store.anc st o' x" and "x \<in> collect_ancestors st seen work"
  shows "store.anc st o' x"
  using assms
  by (induction st seen work rule: collect_ancestors.induct)
    (auto split: if_splits dest: store.anc_step)

lemma collect_ancestors_closed:
  assumes "\<forall>x \<in> seen. set (parents_of st x) \<subseteq> seen \<union> set work"
  shows "store.closed_under_parents st (collect_ancestors st seen work)
    \<and> seen \<union> set work \<subseteq> collect_ancestors st seen work"
  using assms
proof (induction st seen work rule: collect_ancestors.induct)
  case (1 st seen)
  then show ?case by (auto simp: store.closed_under_parents_def)
next
  case (2 st seen h stack)
  show ?case
  proof (cases "h \<in> seen")
    case True
    with 2 show ?thesis by auto
  next
    case False
    have "\<forall>x \<in> insert h seen.
        set (parents_of st x) \<subseteq> insert h seen \<union> set (rev (parents_of st h) @ stack)"
      using "2.prems" by auto
    from "2.IH"(2) [OF False this] False show ?thesis by auto
  qed
qed

lemma collect_ancestors_eq:
  "collect_ancestors st {} [h] = {x. store.anc st h x}"
proof -
  have "store.closed_under_parents st (collect_ancestors st {} [h])"
    and h: "h \<in> collect_ancestors st {} [h]"
    using collect_ancestors_closed [of "{}" st "[h]"] by auto
  then have "store.anc st h x \<Longrightarrow> x \<in> collect_ancestors st {} [h]" for x
    by (blast intro: store.closed_anc)
  moreover have "x \<in> collect_ancestors st {} [h] \<Longrightarrow> store.anc st h x" for x
    by (rule collect_ancestors_sound [of "{}" "[h]"]) auto
  ultimately show ?thesis by blast
qed

text \<open>
  The breadth-first invariant at depth \<open>d\<close>: the queue is a rest \<open>qa\<close> of layer \<open>d\<close> followed
  by the part \<open>qb\<close> of layer \<open>d + 1\<close> found so far, and every earlier layer is visited.
\<close>

definition bfs_inv ::
  "commit_store \<Rightarrow> hash \<Rightarrow> hash set \<Rightarrow> hash set \<Rightarrow> nat \<Rightarrow> hash list \<Rightarrow> hash list \<Rightarrow> bool" where
  "bfs_inv st t ours visited d qa qb \<longleftrightarrow>
     visited \<inter> ours = {}
   \<and> (\<forall>x \<in> set qa. store.within st d t x)
   \<and> (\<forall>x \<in> set qb. store.within st (Suc d) t x)
   \<and> {x. store.within st d t x} \<subseteq> visited \<union> set qa
   \<and> (\<forall>m < d. {x. store.within st m t x} \<subseteq> visited)
   \<and> (\<forall>x \<in> visited. store.within st d t x \<and> set (parents_of st x) \<subseteq> visited \<union> set qa \<union> set qb)"

lemma bfs_inv_init: "bfs_inv st t ours {} 0 [t] []"
  by (auto simp: bfs_inv_def)

lemma bfs_inv_next_layer:
  assumes "bfs_inv st t ours visited d [] qb"
  shows "bfs_inv st t ours visited (Suc d) qb []"
proof -
  from assms have "store.within st (Suc d) t x \<Longrightarrow> x \<in> visited \<union> set qb" for x
    by (auto simp: bfs_inv_def store.edge_def)
  moreover have "m < Suc d \<Longrightarrow> store.within st m t x \<Longrightarrow> x \<in> visited" for m x
    using assms by (auto simp: bfs_inv_def less_Suc_eq)
  ultimately show ?thesis using assms by (auto simp: bfs_inv_def)
qed

lemma bfs_inv_skip:
  "h \<in> visited \<Longrightarrow> bfs_inv st t ours visited d (h # qa) qb \<Longrightarrow> bfs_inv st t ours visited d qa qb"
  by (auto simp: bfs_inv_def)

lemma bfs_inv_visit:
  "h \<notin> ours \<Longrightarrow> bfs_inv st t ours visited d (h # qa) qb
   \<Longrightarrow> bfs_inv st t ours (insert h visited) d qa (qb @ parents_of st h)"
  unfolding bfs_inv_def by (auto simp: store.edge_def)

definition nearest_in :: "commit_store \<Rightarrow> hash \<Rightarrow> hash set \<Rightarrow> hash \<Rightarrow> bool" where
  "nearest_in st t ours b \<longleftrightarrow> b \<in> ours \<and> store.anc st t b
     \<and> (\<forall>m. \<forall>a \<in> ours. store.within st m t a \<longrightarrow> store.within st m t b)"

lemma bfs_inv_hit:
  assumes "bfs_inv st t ours visited d (h # qa) qb" and "h \<in> ours"
  shows "nearest_in st t ours h"
proof -
  from assms have h: "store.within st d t h" by (simp add: bfs_inv_def)
  have "store.within st m t h" if "a \<in> ours" and "store.within st m t a" for m a
  proof (cases "m < d")
    case True
    with assms that show ?thesis by (fastforce simp: bfs_inv_def)
  next
    case False
    then show ?thesis using h by (auto intro: store.within_mono [of d])
  qed
  with h assms(2) show ?thesis by (auto simp: nearest_in_def intro: store.within_anc)
qed

lemma bfs_base_correct:
  assumes "\<exists>d qa qb. queue = qa @ qb \<and> bfs_inv st t ours visited d qa qb"
  shows "case bfs_base st ours visited queue of
      None \<Rightarrow> \<forall>x. store.anc st t x \<longrightarrow> x \<notin> ours
    | Some b \<Rightarrow> nearest_in st t ours b"
  using assms
proof (induction st ours visited queue rule: bfs_base.induct)
  case (1 st ours visited)
  then obtain d where inv: "bfs_inv st t ours visited d [] []" by auto
  then have "store.closed_under_parents st visited"
    by (auto simp: bfs_inv_def store.closed_under_parents_def)
  moreover from inv have "t \<in> visited"
    using store.within_mono [of 0 d] by (auto simp: bfs_inv_def)
  ultimately have "store.anc st t x \<Longrightarrow> x \<in> visited" for x
    by (blast intro: store.closed_anc)
  with inv show ?case by (auto simp: bfs_inv_def)
next
  case (2 st ours visited h queue)
  obtain d qa qb where q: "queue = qa @ qb" and inv: "bfs_inv st t ours visited d (h # qa) qb"
  proof -
    from "2.prems" obtain d qa qb where "h # queue = qa @ qb"
      and i: "bfs_inv st t ours visited d qa qb" by blast
    then show thesis
      using that [of "tl qa" qb d] that [of queue "[]" "Suc d"]
      by (cases qa) (auto dest!: bfs_inv_next_layer)
  qed
  consider "h \<in> visited" | "h \<notin> visited" "h \<in> ours" | "h \<notin> visited" "h \<notin> ours" by blast
  then show ?case
  proof cases
    case 1
    with "2.IH"(1) q bfs_inv_skip [OF 1 inv] show ?thesis by auto
  next
    case 2
    with bfs_inv_hit [OF inv] show ?thesis by simp
  next
    case 3
    with bfs_inv_visit [OF 3(2) inv] q
    have "\<exists>d qa' qb'. queue @ parents_of st h = qa' @ qb'
        \<and> bfs_inv st t ours (insert h visited) d qa' qb'"
      by (metis append_assoc)
    from "2.IH"(2) [OF 3 this] 3 show ?thesis by simp
  qed
qed

lemma is_ancestor_loop_correct:
  assumes "a \<notin> visited \<union> set work" and "\<forall>x \<in> visited \<union> set work. store.anc st d x"
    and "d \<in> visited \<union> set work"
    and "\<forall>x \<in> visited. set (parents_of st x) \<subseteq> visited \<union> set work"
  shows "is_ancestor_loop st a visited work \<longleftrightarrow> store.anc st d a"
  using assms
proof (induction st a visited work rule: is_ancestor_loop.induct)
  case (1 st a visited)
  then have "store.closed_under_parents st visited"
    by (auto simp: store.closed_under_parents_def)
  with 1 show ?case by (auto dest: store.closed_anc)
next
  case (2 st a visited current queue)
  show ?case
  proof (cases "current \<in> visited \<or> a \<in> set (parents_of st current)")
    case True
    with 2 show ?thesis by (auto intro: store.anc_step)
  next
    case False
    then show ?thesis
      using "2.IH"(2) "2.prems" by (auto dest: store.anc_step)
  qed
qed

declare collect_ancestors.simps [simp del] bfs_base.simps [simp del] is_ancestor_loop.simps [simp del]

lemma is_ancestor_iff: "is_ancestor st a d \<longleftrightarrow> store.anc st d a"
  by (auto simp: is_ancestor_def is_ancestor_loop_correct [of a "{}" "[d]" st d])

lemma ref_contains_loop_correct:
  assumes "a \<notin> seen" and "\<forall>x \<in> seen \<union> set work. store.anc st d x"
    and "d \<in> seen \<union> set work"
    and "\<forall>x \<in> seen. set (parents_of st x) \<subseteq> seen \<union> set work"
  shows "ref_contains_loop st a seen work \<longleftrightarrow> store.anc st d a"
  using assms
proof (induction st a seen work rule: ref_contains_loop.induct)
  case (1 st a seen)
  then have "store.closed_under_parents st seen"
    by (auto simp: store.closed_under_parents_def)
  with 1 show ?case by (auto dest: store.closed_anc)
next
  case (2 st a seen current stack)
  show ?case
  proof (cases "current = a \<or> current \<in> seen")
    case True
    with 2 show ?thesis by auto
  next
    case False
    then show ?thesis
      using "2.IH"(2) "2.prems" by (auto dest: store.anc_step)
  qed
qed

declare ref_contains_loop.simps [simp del]

lemma ref_contains_loop_start:
  "ref_contains_loop st a {} [d] \<longleftrightarrow> store.anc st d a"
  by (rule ref_contains_loop_correct) auto

lemma ref_contains_iff:
  "ref_contains st (Some r) a \<longleftrightarrow> r \<noteq> [] \<and> store.anc st r a"
  by (simp add: ref_contains_def ref_contains_loop_start)
    (simp add: ref_contains_loop.simps)

section \<open>Properties\<close>

text \<open>
  C9. \<open>find_merge_base\<close> returns a nearest common ancestor: the commit it returns is an
  ancestor of both tips (every parent edge is followed), and no common ancestor is closer to
  "theirs": whatever common ancestor is reached within \<open>m\<close> parent steps from "theirs", the
  returned one is too.
\<close>

theorem find_merge_base_nearest:
  assumes "find_merge_base st o' t = Some b"
  shows "store.anc st o' b \<and> store.anc st t b
    \<and> (\<forall>m a. store.anc st o' a \<and> store.within st m t a \<longrightarrow> store.within st m t b)"
proof -
  have "\<exists>d qa qb. [t] = qa @ qb \<and> bfs_inv st t {x. store.anc st o' x} {} d qa qb"
    using bfs_inv_init by (metis append_Nil2)
  from bfs_base_correct [OF this] assms show ?thesis
    by (auto simp: find_merge_base_def collect_ancestors_eq nearest_in_def)
qed

text \<open>A sample history: \<open>r <- x <- y\<close> and \<open>r <- z\<close>, the tips being \<open>y\<close> and \<open>z\<close>.\<close>

definition sample_commit :: "hash \<Rightarrow> hash list \<Rightarrow> commit" where
  "sample_commit h ps = \<lparr>c_hash = h, c_parents = ps, c_author = ''anonymous'', c_timestamp = [],
     c_message = [], c_tree = [], c_tags = [], c_project_id = ''p'', c_project_name = ''p''\<rparr>"

definition sample_store :: commit_store where
  "sample_store = [(''r'', sample_commit ''r'' []), (''x'', sample_commit ''x'' [''r'']),
     (''y'', sample_commit ''y'' [''x'']), (''z'', sample_commit ''z'' [''r''])]"

lemma sample_parents:
  "parents_of sample_store h = (if h = ''x'' then [''r''] else if h = ''y'' then [''x'']
     else if h = ''z'' then [''r''] else [])"
  by (simp add: parents_of_def load_local_commit_def sample_store_def sample_commit_def)

theorem find_merge_base_nearest_witness:
  "store.anc sample_store ''y'' ''r'' \<and> store.anc sample_store ''z'' ''r''"
proof -
  have "find_merge_base sample_store ''y'' ''z'' = Some ''r''"
    by (simp add: find_merge_base_def collect_ancestors.simps bfs_base.simps sample_parents)
  from find_merge_base_nearest [OF this] show ?thesis by blast
qed

text \<open>
  C19. \<open>find_merge_base\<close> returns \<open>None\<close> exactly when the two histories share no commit, so
  the two-phase walk (which always stops, cycles and missing commits included) never misses a
  common ancestor.
\<close>

theorem find_merge_base_None_iff:
  "find_merge_base st o' t = None \<longleftrightarrow> (\<nexists>a. store.anc st o' a \<and> store.anc st t a)"
proof -
  have "\<exists>d qa qb. [t] = qa @ qb \<and> bfs_inv st t {x. store.anc st o' x} {} d qa qb"
    using bfs_inv_init by (metis append_Nil2)
  from bfs_base_correct [OF this] show ?thesis
    by (auto simp: find_merge_base_def collect_ancestors_eq nearest_in_def split: option.splits)
qed

text \<open>
  C18. The two ancestry tests of the client agree: \<open>_ref_contains\<close> (used when a compare-and-swap
  is lost) and \<open>is_ancestor\<close> (used before a fast-forward) both decide reachability over parent
  edges, for every non-empty ref hash, although one tests a node when it is popped and the
  other when its child is expanded.
\<close>

theorem ref_contains_is_ancestor:
  "ref_contains st (Some (x # r)) c = is_ancestor st c (x # r)
   \<and> (is_ancestor st c (x # r) \<longleftrightarrow> store.anc st (x # r) c)"
  by (simp add: ref_contains_iff is_ancestor_iff)

end
