(* ===== verification/TreeMerge.thy ===== *)
theory TreeMerge
  imports Repo
begin

text \<open>
  Tree-level merging: \<open>merge.py::three_way_tree_merge\<close>, \<open>tree_is_flat\<close>, \<open>summarize_changes\<close>
  and the conflict resolution of the \<open>av merge\<close> command (\<open>cmd_sync.py\<close>). A tree is a Python
  dictionary; the loop runs over \<open>set(base) | set(ours) | set(theirs)\<close>, whose order Python
  does not fix, so the loop takes the enumeration as an argument and the theorems hold for
  every enumeration of that set.
\<close>

section \<open>three\_way\_tree\_merge\<close>

text \<open>The winner of one path, or a conflict. \<open>None\<close> is "absent on this side".\<close>

datatype 'e verdict = Take "'e option" | Conflict

definition path_verdict :: "'e option \<Rightarrow> 'e option \<Rightarrow> 'e option \<Rightarrow> 'e verdict" where
  "path_verdict b o' t =
     (if o' = t then Take o'
      else if b = o' then Take t
      else if b = t then Take o'
      else Conflict)"

fun merge_loop ::
  "(path, 'e) dict \<Rightarrow> (path, 'e) dict \<Rightarrow> (path, 'e) dict \<Rightarrow> path list
   \<Rightarrow> (path, 'e) dict \<Rightarrow> path list \<Rightarrow> (path, 'e) dict \<times> path list" where
  "merge_loop base ours theirs [] merged conflicts = (merged, conflicts)"
| "merge_loop base ours theirs (p # ps) merged conflicts =
     (case path_verdict (dget base p) (dget ours p) (dget theirs p) of
        Conflict \<Rightarrow> merge_loop base ours theirs ps merged (conflicts @ [p])
      | Take None \<Rightarrow> merge_loop base ours theirs ps merged conflicts
      | Take (Some w) \<Rightarrow> merge_loop base ours theirs ps (dset merged p w) conflicts)"

definition three_way_tree_merge ::
  "path list \<Rightarrow> (path, 'e) dict \<Rightarrow> (path, 'e) dict \<Rightarrow> (path, 'e) dict
   \<Rightarrow> (path, 'e) dict \<times> path list" where
  "three_way_tree_merge ps base ours theirs =
     (case merge_loop base ours theirs ps [] [] of (merged, conflicts) \<Rightarrow> (merged, sort conflicts))"

text \<open>An order in which Python may run through the set of all paths.\<close>

definition enumerates ::
  "path list \<Rightarrow> (path, 'e) dict \<Rightarrow> (path, 'e) dict \<Rightarrow> (path, 'e) dict \<Rightarrow> bool" where
  "enumerates ps base ours theirs \<longleftrightarrow>
     distinct ps \<and> set ps = set (dkeys base) \<union> set (dkeys ours) \<union> set (dkeys theirs)"

definition tree_is_flat :: "(path, 'e) dict \<Rightarrow> bool" where
  "tree_is_flat t \<longleftrightarrow> \<not> (has_key t ''code'' \<or> has_key t ''artifacts'')"

definition summarize_changes :: "(path, 'e) dict \<Rightarrow> (path, 'e) dict \<Rightarrow> nat \<times> nat \<times> nat" where
  "summarize_changes before after =
     (length [p \<leftarrow> remdups (dkeys after). \<not> has_key before p],
      length [p \<leftarrow> remdups (dkeys before). \<not> has_key after p],
      length [p \<leftarrow> remdups (dkeys before). has_key after p \<and> dget before p \<noteq> dget after p])"

text \<open>
  \<open>av merge --ours/--theirs\<close>: every conflicting path takes the policy side's entry, or
  disappears when that side deleted it.
\<close>

fun apply_policy :: "(path, 'e) dict \<Rightarrow> path list \<Rightarrow> (path, 'e) dict \<Rightarrow> (path, 'e) dict" where
  "apply_policy side [] merged = merged"
| "apply_policy side (p # ps) merged =
     apply_policy side ps (case dget side p of None \<Rightarrow> ddel merged p | Some e \<Rightarrow> dset merged p e)"

section \<open>What the loop computes\<close>

definition is_conflict :: "'e option \<Rightarrow> 'e option \<Rightarrow> 'e option \<Rightarrow> bool" where
  "is_conflict b o' t \<longleftrightarrow> o' \<noteq> t \<and> b \<noteq> o' \<and> b \<noteq> t"

definition merged_entry :: "'e option \<Rightarrow> 'e option \<Rightarrow> 'e option \<Rightarrow> 'e option" where
  "merged_entry b o' t = (case path_verdict b o' t of Take w \<Rightarrow> w | Conflict \<Rightarrow> None)"

lemma verdict_Conflict_iff: "path_verdict b o' t = Conflict \<longleftrightarrow> is_conflict b o' t"
  by (auto simp: path_verdict_def is_conflict_def)

lemma merged_entry_Take: "path_verdict b o' t = Take w \<Longrightarrow> merged_entry b o' t = w"
  by (simp add: merged_entry_def)

lemma merged_entry_Conflict: "path_verdict b o' t = Conflict \<Longrightarrow> merged_entry b o' t = None"
  by (simp add: merged_entry_def)

lemma merged_entry_absent [simp]: "merged_entry None None None = None"
  by (simp add: merged_entry_def path_verdict_def)

lemma merge_loop_entry:
  assumes "distinct ps" and "set ps \<inter> fst ` set merged = {}"
  shows "dget (fst (merge_loop base ours theirs ps merged conflicts)) p =
    (if p \<in> set ps then merged_entry (dget base p) (dget ours p) (dget theirs p)
     else dget merged p)"
  using assms
proof (induction ps arbitrary: merged conflicts)
  case Nil
  then show ?case by simp
next
  case (Cons q ps)
  from Cons.prems have q: "q \<notin> set ps" "dget merged q = None"
    and ps: "distinct ps" "set ps \<inter> fst ` set merged = {}"
    by (auto simp: map_of_eq_None_key)
  show ?case
  proof (cases "path_verdict (dget base q) (dget ours q) (dget theirs q)")
    case Conflict
    with Cons.IH [OF ps] q merged_entry_Conflict [OF Conflict] show ?thesis by simp
  next
    case (Take w)
    from q ps have "set ps \<inter> fst ` set (dset merged q e) = {}" for e by auto
    with Take Cons.IH [OF ps(1)] ps(2) q merged_entry_Take [OF Take] show ?thesis
      by (cases w) simp_all
  qed
qed

lemma merge_loop_conflicts:
  "snd (merge_loop base ours theirs ps merged conflicts) =
     conflicts @ [q \<leftarrow> ps. is_conflict (dget base q) (dget ours q) (dget theirs q)]"
proof (induction ps arbitrary: merged conflicts)
  case Nil
  then show ?case by simp
next
  case (Cons q ps)
  then show ?case
    by (cases "path_verdict (dget base q) (dget ours q) (dget theirs q)")
      (auto simp flip: verdict_Conflict_iff split: option.split)
qed

lemma enumerates_absent:
  "enumerates ps base ours theirs \<Longrightarrow> p \<notin> set ps
   \<Longrightarrow> dget base p = None \<and> dget ours p = None \<and> dget theirs p = None"
  by (auto simp: enumerates_def dkeys_def map_of_eq_None_key)

lemma fst_three_way:
  "fst (three_way_tree_merge ps base ours theirs) = fst (merge_loop base ours theirs ps [] [])"
  by (simp add: three_way_tree_merge_def split: prod.split)

lemma snd_three_way:
  "snd (three_way_tree_merge ps base ours theirs) =
     sort [q \<leftarrow> ps. is_conflict (dget base q) (dget ours q) (dget theirs q)]"
  using merge_loop_conflicts [of base ours theirs ps "[]" "[]"]
  by (cases "merge_loop base ours theirs ps [] []") (simp add: three_way_tree_merge_def)

lemma three_way_lookup:
  assumes "enumerates ps base ours theirs"
  shows "dget (fst (three_way_tree_merge ps base ours theirs)) p =
    merged_entry (dget base p) (dget ours p) (dget theirs p)"
proof -
  from assms have "distinct ps" by (simp add: enumerates_def)
  from merge_loop_entry [OF this, of "[]" base ours theirs "[]" p]
    enumerates_absent [OF assms, of p] show ?thesis
    by (simp add: fst_three_way split: if_splits)
qed

lemma three_way_conflict_iff:
  assumes "enumerates ps base ours theirs"
  shows "p \<in> set (snd (three_way_tree_merge ps base ours theirs)) \<longleftrightarrow>
    is_conflict (dget base p) (dget ours p) (dget theirs p)"
proof (cases "p \<in> set ps")
  case True
  then show ?thesis by (simp add: snd_three_way)
next
  case False
  from enumerates_absent [OF assms False] False show ?thesis
    by (simp add: snd_three_way is_conflict_def)
qed

lemma three_way_conflicts_sorted:
  assumes "enumerates ps base ours theirs"
  shows "sorted (snd (three_way_tree_merge ps base ours theirs))
    \<and> distinct (snd (three_way_tree_merge ps base ours theirs))"
  using assms by (simp add: snd_three_way enumerates_def)

lemma apply_policy_lookup:
  "dget (apply_policy side ps merged) p = (if p \<in> set ps then dget side p else dget merged p)"
  by (induction side ps merged rule: apply_policy.induct) (auto split: option.splits)

section \<open>A sample merge\<close>

text \<open>
  \<open>base = {a: 1, b: 1, c: 1}\<close>; ours edits \<open>a\<close> and \<open>c\<close>, theirs deletes \<open>b\<close>, edits \<open>c\<close>
  differently and adds \<open>d\<close>.
\<close>

definition sample_base :: "(path, nat) dict" where
  "sample_base = [(''a'', 1), (''b'', 1), (''c'', 1)]"

definition sample_ours :: "(path, nat) dict" where
  "sample_ours = [(''a'', 2), (''b'', 1), (''c'', 2)]"

definition sample_theirs :: "(path, nat) dict" where
  "sample_theirs = [(''a'', 1), (''c'', 3), (''d'', 4)]"

lemmas sample_defs = sample_base_def sample_ours_def sample_theirs_def

lemma sample_enumerates:
  "enumerates [''d'', ''a'', ''c'', ''b''] sample_base sample_ours sample_theirs"
  "enumerates [''a'', ''b'', ''c'', ''d''] sample_base sample_theirs sample_ours"
  by (auto simp: enumerates_def sample_defs dkeys_def)

lemma sample_merge:
  "three_way_tree_merge [''d'', ''a'', ''c'', ''b''] sample_base sample_ours sample_theirs =
     ([(''d'', 4), (''a'', 2)], [''c''])"
  by (simp add: three_way_tree_merge_def sample_defs path_verdict_def)

section \<open>Properties\<close>

text \<open>
  C10. The merge is decided path by path and never loses a change silently: a path both sides
  agree on keeps their value; a path only one side changed (edited, added or deleted) takes
  that side's value; a path both sides changed to different values is absent from the merged
  tree and is listed, once and in sorted order, among the conflicts, whatever order Python
  iterates the set of paths in.
\<close>

theorem three_way_tree_merge_spec:
  assumes "enumerates ps base ours theirs"
    and "three_way_tree_merge ps base ours theirs = (merged, conflicts)"
  shows "(dget ours p = dget theirs p \<longrightarrow> dget merged p = dget ours p)
    \<and> (dget base p = dget ours p \<longrightarrow> dget merged p = dget theirs p)
    \<and> (dget base p = dget theirs p \<longrightarrow> dget merged p = dget ours p)
    \<and> (p \<in> set conflicts \<longleftrightarrow> dget ours p \<noteq> dget theirs p
         \<and> dget base p \<noteq> dget ours p \<and> dget base p \<noteq> dget theirs p)
    \<and> (p \<in> set conflicts \<longrightarrow> dget merged p = None)
    \<and> sorted conflicts \<and> distinct conflicts"
proof -
  from three_way_lookup [OF assms(1), of p] assms(2)
  have "dget merged p = merged_entry (dget base p) (dget ours p) (dget theirs p)" by simp
  moreover from three_way_conflict_iff [OF assms(1), of p] assms(2)
  have "p \<in> set conflicts \<longleftrightarrow> is_conflict (dget base p) (dget ours p) (dget theirs p)" by simp
  moreover from three_way_conflicts_sorted [OF assms(1)] assms(2)
  have "sorted conflicts \<and> distinct conflicts" by simp
  ultimately show ?thesis
    by (auto simp: merged_entry_def path_verdict_def is_conflict_def)
qed

theorem three_way_tree_merge_spec_witness:
  "dget [(''d'', 4), (''a'', 2)] ''a'' = Some (2::nat) \<and> ''c'' \<in> set [''c'']
    \<and> dget [(''d'', 4), (''a'', 2::nat)] ''c'' = None"
  using three_way_tree_merge_spec [OF sample_enumerates(1) sample_merge, of "''c''"]
  by simp

text \<open>
  Merging is symmetric up to naming: swapping "ours" and "theirs" changes neither the
  merged tree nor the conflict list, so it does not matter on which branch the merge is run
  until a conflict policy is chosen.
\<close>

theorem three_way_tree_merge_symmetric:
  assumes "enumerates ps base ours theirs" and "enumerates qs base theirs ours"
  shows "dget (fst (three_way_tree_merge ps base ours theirs)) p =
           dget (fst (three_way_tree_merge qs base theirs ours)) p
    \<and> snd (three_way_tree_merge ps base ours theirs) =
           snd (three_way_tree_merge qs base theirs ours)"
proof
  show "dget (fst (three_way_tree_merge ps base ours theirs)) p =
      dget (fst (three_way_tree_merge qs base theirs ours)) p"
    by (simp add: three_way_lookup [OF assms(1)] three_way_lookup [OF assms(2)]
        merged_entry_def path_verdict_def)
  let ?c = "snd (three_way_tree_merge ps base ours theirs)"
  let ?c' = "snd (three_way_tree_merge qs base theirs ours)"
  have "set ?c = set ?c'"
    by (auto simp: three_way_conflict_iff [OF assms(1)] three_way_conflict_iff [OF assms(2)]
        is_conflict_def)
  then show "?c = ?c'"
    using three_way_conflicts_sorted [OF assms(1)] three_way_conflicts_sorted [OF assms(2)]
    by (metis sorted_list_of_set_unique)
qed

theorem three_way_tree_merge_symmetric_witness:
  "snd (three_way_tree_merge [''a'', ''b'', ''c'', ''d''] sample_base sample_theirs sample_ours)
     = [''c'']"
  using three_way_tree_merge_symmetric [OF sample_enumerates, of "''a''"] sample_merge by simp

text \<open>
  With \<open>--ours\<close> the resolved tree of \<open>av merge\<close> has our entry at every path we changed and
  the target's entry at every path only the target changed: nothing the policy side changed
  is lost, and every path outside the conflicts keeps its three-way result.
\<close>

theorem apply_policy_ours:
  assumes "enumerates ps base ours theirs"
    and "three_way_tree_merge ps base ours theirs = (merged, conflicts)"
  shows "dget (apply_policy ours conflicts merged) p =
    (if dget base p = dget ours p then dget theirs p else dget ours p)"
proof -
  from three_way_conflict_iff [OF assms(1), of p] assms(2)
  have "p \<in> set conflicts \<longleftrightarrow> is_conflict (dget base p) (dget ours p) (dget theirs p)" by simp
  with three_way_lookup [OF assms(1), of p] assms(2) show ?thesis
    by (auto simp: apply_policy_lookup merged_entry_def path_verdict_def is_conflict_def)
qed

theorem apply_policy_ours_witness:
  "dget (apply_policy sample_ours [''c''] [(''d'', 4), (''a'', 2)]) ''c'' = Some 2"
  using apply_policy_ours [OF sample_enumerates(1) sample_merge, of "''c''"]
  by (simp add: sample_defs)

end
