(* ===== verification/GcMark.thy ===== *)
theory GcMark
  imports Repo
begin

text \<open>
  Registry garbage collection: the mark phase \<open>gc_mark.py\<close> and the sweep of
  \<open>server.py::run_garbage_collection\<close>. Tree rows, commits, object rows, shard files and the
  Bloom filters are the state; the mark phase is the worklist walk of the source over the rows
  grouped by tenant and tree hash.
\<close>

section \<open>Rows\<close>

type_synonym tenant = string

text \<open>An element of a row's \<open>layers\<close> or \<open>chunks\<close> JSON list: a dict with a \<open>hash\<close>, or anything else.\<close>

datatype json_part = PartHash hash | OtherPart

record tree_row =
  tr_tenant :: tenant
  tr_tree_hash :: hash
  tr_child :: "hash option"
  tr_object :: "hash option"
  tr_layers :: "json_part list"
  tr_chunks :: "json_part list"

type_synonym tree_map = "(hash, tree_row list) dict"

text \<open>Python truth of an optional string.\<close>

definition truthy :: "string option \<Rightarrow> bool" where
  "truthy x \<longleftrightarrow> (case x of None \<Rightarrow> False | Some s \<Rightarrow> s \<noteq> [])"

section \<open>The mark phase\<close>

fun add_parts :: "json_part list \<Rightarrow> hash set \<Rightarrow> hash set" where
  "add_parts [] alive = alive"
| "add_parts (PartHash h # ps) alive = add_parts ps (insert h alive)"
| "add_parts (OtherPart # ps) alive = add_parts ps alive"

text \<open>The inner loop over the rows of one tree: push the children, mark the hashes.\<close>

fun mark_entries ::
  "tree_row list \<Rightarrow> hash option list \<Rightarrow> hash set \<Rightarrow> hash option list \<times> hash set" where
  "mark_entries [] stack alive = (stack, alive)"
| "mark_entries (e # es) stack alive =
     (let stack' = (if truthy (tr_child e) then tr_child e # stack else stack);
          alive1 = (if truthy (tr_object e) then insert (the (tr_object e)) alive else alive);
          alive2 = add_parts (tr_layers e) alive1;
          alive3 = add_parts (tr_chunks e) alive2
      in mark_entries es stack' alive3)"

definition rows_of :: "tree_map \<Rightarrow> hash \<Rightarrow> tree_row list" where
  "rows_of m th = dget_or m th []"

definition child_hashes :: "tree_map \<Rightarrow> hash \<Rightarrow> hash list" where
  "child_hashes m th =
     map (\<lambda>e. the (tr_child e)) (filter (\<lambda>e. truthy (tr_child e)) (rows_of m th))"

lemma child_hashes_outside: "th \<notin> fst ` set m \<Longrightarrow> child_hashes m th = []"
  by (simp add: child_hashes_def rows_of_def dget_or_def map_of_eq_None_key [symmetric])

text \<open>The tree rows form the graph the worklist walk is about.\<close>

interpretation trees: parent_graph "child_hashes m" "fst ` set m" for m
  by unfold_locales (auto intro: child_hashes_outside)

lemma mark_entries_stack:
  "fst (mark_entries es stack alive) =
     rev (map tr_child (filter (\<lambda>e. truthy (tr_child e)) es)) @ stack"
  by (induction es arbitrary: stack alive) (auto simp: Let_def)

lemma mark_entries_length:
  "length (fst (mark_entries (rows_of m th) stack alive)) = length (child_hashes m th) + length stack"
  by (simp add: mark_entries_stack child_hashes_def)

function mark_from_root ::
  "tree_map \<Rightarrow> hash option list \<Rightarrow> hash set \<Rightarrow> hash set \<Rightarrow> hash set \<times> hash set" where
  "mark_from_root m [] visited alive = (visited, alive)"
| "mark_from_root m (None # stack) visited alive = mark_from_root m stack visited alive"
| "mark_from_root m (Some th # stack) visited alive =
     (if th = [] \<or> th \<in> visited then mark_from_root m stack visited alive
      else case mark_entries (rows_of m th) stack alive of
             (stack', alive') \<Rightarrow> mark_from_root m stack' (insert th visited) alive')"
  by pat_completeness auto
termination
proof (relation "measures [\<lambda>(m, stack, seen, alive). card (fst ` set m - seen),
                           \<lambda>(m, stack, seen, alive). length stack]", goal_cases)
  case (4 m th stack visited alive stack' alive')
  then have "length stack' = length (child_hashes m th) + length stack"
    using mark_entries_length [of m th stack alive] by (metis fst_conv)
  with 4 show ?case by (auto dest: trees.visit_decreases [of th visited m])
qed auto

text \<open>\<open>trees_by_tenant\<close>: the rows grouped by tenant, then by tree hash, in stream order.\<close>

fun group_rows :: "tree_row list \<Rightarrow> (tenant, tree_map) dict \<Rightarrow> (tenant, tree_map) dict" where
  "group_rows [] acc = acc"
| "group_rows (r # rs) acc =
     (let tm = dget_or acc (tr_tenant r) [];
          tm' = dset tm (tr_tree_hash r) (rows_of tm (tr_tree_hash r) @ [r])
      in group_rows rs (dset acc (tr_tenant r) tm'))"

text \<open>The loop over the commits' roots; each tenant keeps its own visited and alive sets.\<close>

fun mark_roots ::
  "(tenant, tree_map) dict \<Rightarrow> (tenant \<times> hash option) list
   \<Rightarrow> (tenant, hash set \<times> hash set) dict \<Rightarrow> (tenant, hash set \<times> hash set) dict" where
  "mark_roots tbt [] acc = acc"
| "mark_roots tbt ((t, root) # roots) acc =
     (case dget_or acc t ({}, {}) of (visited, alive) \<Rightarrow>
        mark_roots tbt roots
          (dset acc t (mark_from_root (dget_or tbt t []) [root] visited alive)))"

definition mark_alive ::
  "tree_row list \<Rightarrow> (tenant \<times> hash option) list
   \<Rightarrow> (tenant, hash set) dict \<times> (tenant, hash set) dict \<times> hash set" where
  "mark_alive tree_rows roots =
     (let tbt = group_rows tree_rows [];
          marks = mark_roots tbt roots []
      in (map (\<lambda>(t, va). (t, snd va)) marks, map (\<lambda>(t, va). (t, fst va)) marks,
          \<Union> ((\<lambda>tm. fst ` set (snd tm)) ` set tbt)))"

section \<open>What marking computes\<close>

definition part_hashes :: "json_part list \<Rightarrow> hash set" where
  "part_hashes ps = {h. PartHash h \<in> set ps}"

definition row_hashes :: "tree_row \<Rightarrow> hash set" where
  "row_hashes e = {h. tr_object e = Some h \<and> h \<noteq> []}
     \<union> part_hashes (tr_layers e) \<union> part_hashes (tr_chunks e)"

definition tree_hashes :: "tree_map \<Rightarrow> hash \<Rightarrow> hash set" where
  "tree_hashes m th = \<Union> (row_hashes ` set (rows_of m th))"

definition reachable_trees :: "tree_map \<Rightarrow> hash option \<Rightarrow> hash set" where
  "reachable_trees m root =
     {th. \<exists>r. root = Some r \<and> r \<noteq> [] \<and> trees.anc m r th}"

lemma add_parts_eq: "add_parts ps alive = alive \<union> part_hashes ps"
  by (induction ps alive rule: add_parts.induct) (auto simp: part_hashes_def)

lemma mark_entries_alive:
  "snd (mark_entries es stack alive) = alive \<union> \<Union> (row_hashes ` set es)"
proof (induction es arbitrary: stack alive)
  case (Cons e es)
  have "(if truthy (tr_object e) then insert (the (tr_object e)) alive else alive)
      = alive \<union> {h. tr_object e = Some h \<and> h \<noteq> []}"
    by (auto simp: truthy_def split: option.splits)
  with Cons show ?case by (simp add: Let_def add_parts_eq row_hashes_def Un_ac)
qed simp

lemma mark_entries_eq:
  "mark_entries (rows_of m th) stack alive =
     (rev (map Some (child_hashes m th)) @ stack, alive \<union> tree_hashes m th)"
proof (rule prod_eqI)
  show "fst (mark_entries (rows_of m th) stack alive) =
      fst (rev (map Some (child_hashes m th)) @ stack, alive \<union> tree_hashes m th)"
    by (auto simp: mark_entries_stack child_hashes_def truthy_def split: option.splits)
qed (simp add: mark_entries_alive tree_hashes_def)

definition pending :: "hash option list \<Rightarrow> hash set" where
  "pending stack = {h. Some h \<in> set stack \<and> h \<noteq> []}"

lemma pending_simps [simp]:
  "pending [] = {}" "pending (None # s) = pending s"
  "pending (Some h # s) = (if h = [] then pending s else insert h (pending s))"
  by (auto simp: pending_def)

lemma child_hashes_iff:
  "c \<in> set (child_hashes m th) \<longleftrightarrow> c \<noteq> [] \<and> (\<exists>e \<in> set (rows_of m th). tr_child e = Some c)"
  by (force simp: child_hashes_def truthy_def split: option.splits)

lemma pending_children:
  "pending (rev (map Some (child_hashes m th)) @ stack) = set (child_hashes m th) \<union> pending stack"
  by (auto simp: pending_def child_hashes_iff)

text \<open>
  One walk: the result visits exactly the old visited trees and everything reachable from the
  worklist, and marks exactly the hashes of the visited trees.
\<close>

lemma mark_from_root_visited:
  assumes "\<forall>x \<in> visited. set (child_hashes m x) \<subseteq> visited \<union> pending stack"
  shows "trees.closed_under_parents m (fst (mark_from_root m stack visited alive))
    \<and> visited \<union> pending stack \<subseteq> fst (mark_from_root m stack visited alive)"
  using assms
proof (induction m stack visited alive rule: mark_from_root.induct)
  case (3 m th stack visited alive)
  show ?case
  proof (cases "th = [] \<or> th \<in> visited")
    case True
    then have "visited \<union> pending (Some th # stack) = visited \<union> pending stack" by auto
    with "3.prems" have "\<forall>x \<in> visited. set (child_hashes m x) \<subseteq> visited \<union> pending stack"
      by simp
    from "3.IH"(1) [OF True this] True show ?thesis by auto
  next
    case False
    have "\<forall>x \<in> insert th visited. set (child_hashes m x) \<subseteq> insert th visited
        \<union> pending (rev (map Some (child_hashes m th)) @ stack)"
      using "3.prems" False by (auto simp: pending_children)
    from "3.IH"(2) [OF False mark_entries_eq [symmetric] this] False show ?thesis
      by (auto simp: mark_entries_eq pending_children)
  qed
qed (auto simp: trees.closed_under_parents_def)

lemma mark_from_root_sound:
  "x \<in> fst (mark_from_root m stack visited alive)
   \<Longrightarrow> x \<in> visited \<or> (\<exists>r \<in> pending stack. trees.anc m r x)"
proof (induction m stack visited alive rule: mark_from_root.induct)
  case (3 m th stack visited alive)
  show ?case
  proof (cases "th = [] \<or> th \<in> visited")
    case True
    with 3 show ?thesis by auto
  next
    case False
    with "3.prems" have "x \<in> fst (mark_from_root m (rev (map Some (child_hashes m th)) @ stack)
        (insert th visited) (alive \<union> tree_hashes m th))"
      by (simp add: mark_entries_eq)
    from "3.IH"(2) [OF False mark_entries_eq [symmetric] this] False show ?thesis
      by (auto simp: pending_children intro: trees.anc_converse_step)
  qed
qed auto

lemma mark_from_root_alive:
  "alive = \<Union> (tree_hashes m ` visited)
   \<Longrightarrow> snd (mark_from_root m stack visited alive)
       = \<Union> (tree_hashes m ` fst (mark_from_root m stack visited alive))"
proof (induction m stack visited alive rule: mark_from_root.induct)
  case (3 m th stack visited alive)
  then show ?case
    by (cases "th = [] \<or> th \<in> visited")
      (auto simp: mark_entries_eq intro!: "3.IH"(2) [OF _ mark_entries_eq [symmetric]])
qed auto

lemma mark_from_root_eq:
  assumes "trees.closed_under_parents m visited" and "alive = \<Union> (tree_hashes m ` visited)"
  shows "mark_from_root m [root] visited alive =
    (visited \<union> reachable_trees m root, \<Union> (tree_hashes m ` (visited \<union> reachable_trees m root)))
    \<and> trees.closed_under_parents m (visited \<union> reachable_trees m root)"
proof -
  let ?r = "mark_from_root m [root] visited alive"
  have pre: "\<forall>x \<in> visited. set (child_hashes m x) \<subseteq> visited \<union> pending [root]"
    using assms(1) by (auto simp: trees.closed_under_parents_def)
  note mark_from_root_visited [OF pre, of alive]
  moreover have "pending [root] = {r. root = Some r \<and> r \<noteq> []}"
    by (cases root) auto
  ultimately have "fst ?r = visited \<union> reachable_trees m root"
    by (auto simp: reachable_trees_def dest: mark_from_root_sound trees.closed_anc)
  with mark_from_root_alive [OF assms(2), of "[root]"] mark_from_root_visited [OF pre, of alive]
  show ?thesis by (metis prod.collapse)
qed

text \<open>The rows of one tenant: what the tenant's map holds for a tree hash.\<close>

definition tenant_rows :: "tree_row list \<Rightarrow> tenant \<Rightarrow> hash \<Rightarrow> tree_row list" where
  "tenant_rows rs t th = filter (\<lambda>r. tr_tenant r = t \<and> tr_tree_hash r = th) rs"

definition tenant_map :: "tree_row list \<Rightarrow> tenant \<Rightarrow> tree_map" where
  "tenant_map rs t = dget_or (group_rows rs []) t []"

lemma rows_of_dset: "rows_of (dset m th rs) th' = (if th' = th then rs else rows_of m th')"
  by (simp add: rows_of_def dget_or_def)

lemma group_rows_rows:
  "rows_of (dget_or (group_rows rs acc) t []) th = rows_of (dget_or acc t []) th @ tenant_rows rs t th"
proof (induction rs arbitrary: acc)
  case (Cons r rs)
  show ?case
    by (simp add: Cons.IH Let_def tenant_rows_def)
      (auto simp: dget_or_def rows_of_dset)
qed (simp add: tenant_rows_def)

lemma rows_of_tenant_map [simp]: "rows_of (tenant_map rs t) th = tenant_rows rs t th"
  by (simp add: tenant_map_def group_rows_rows) (simp add: dget_or_def rows_of_def)

definition marks_ok :: "(tenant \<Rightarrow> tree_map) \<Rightarrow> tenant \<Rightarrow> (tenant \<times> hash option) list
    \<Rightarrow> hash set \<times> hash set \<Rightarrow> bool" where
  "marks_ok tm t roots va \<longleftrightarrow>
     fst va = \<Union> {reachable_trees (tm t) r | r. (t, r) \<in> set roots}
   \<and> snd va = \<Union> (tree_hashes (tm t) ` fst va)
   \<and> trees.closed_under_parents (tm t) (fst va)"

lemma marks_ok_other: "w \<noteq> u \<Longrightarrow> marks_ok tm w (done @ [(u, r)]) va = marks_ok tm w done va"
  by (simp add: marks_ok_def)

lemma mark_roots_ok:
  assumes "\<forall>t. marks_ok (\<lambda>t. dget_or tbt t []) t done (dget_or acc t ({}, {}))"
  shows "marks_ok (\<lambda>t. dget_or tbt t []) t (done @ roots)
           (dget_or (mark_roots tbt roots acc) t ({}, {}))"
  using assms
proof (induction roots arbitrary: acc "done")
  case (Cons tr roots)
  obtain u root where tr: "tr = (u, root)" by (cases tr)
  let ?m = "\<lambda>t. dget_or tbt t []"
  obtain v a where va: "dget_or acc u ({}, {}) = (v, a)" by fastforce
  let ?va' = "mark_from_root (?m u) [root] v a"
  have u: "marks_ok ?m u done (v, a)" using Cons.prems va by metis
  have "marks_ok ?m w (done @ [(u, root)]) (dget_or (dset acc u ?va') w ({}, {}))" for w
  proof (cases "w = u")
    case True
    from u have "trees.closed_under_parents (?m u) v" "a = \<Union> (tree_hashes (?m u) ` v)"
      unfolding marks_ok_def fst_conv snd_conv by blast+
    note eq = mark_from_root_eq [OF this, of root]
    have "?va' = (v \<union> reachable_trees (?m u) root,
        \<Union> (tree_hashes (?m u) ` (v \<union> reachable_trees (?m u) root)))"
      and "trees.closed_under_parents (?m u) (v \<union> reachable_trees (?m u) root)"
      using eq by blast+
    with True u show ?thesis
      by (auto simp: marks_ok_def)
  next
    case False
    with Cons.prems [rule_format, of w] show ?thesis
      by (simp add: marks_ok_other)
  qed
  from Cons.IH [of "done @ [(u, root)]"] this show ?case
    by (simp add: tr va)
qed simp

lemma marks_ok_init: "marks_ok tm t [] ({}, {})"
  by (simp add: marks_ok_def trees.closed_under_parents_def)

section \<open>Live hashes\<close>

text \<open>
  The specification: a hash is live for a tenant when a row of a tree reachable from the root
  of one of the tenant's commits mentions it.
\<close>

definition live_trees :: "tree_row list \<Rightarrow> (tenant \<times> hash option) list \<Rightarrow> tenant \<Rightarrow> hash set" where
  "live_trees rs roots t =
     {th. \<exists>r. (t, r) \<in> set roots \<and> th \<in> reachable_trees (tenant_map rs t) r}"

definition live_hashes :: "tree_row list \<Rightarrow> (tenant \<times> hash option) list \<Rightarrow> tenant \<Rightarrow> hash set" where
  "live_hashes rs roots t =
     {h. \<exists>th \<in> live_trees rs roots t. \<exists>e \<in> set (tenant_rows rs t th). h \<in> row_hashes e}"

lemma mark_roots_live:
  "dget_or (mark_roots (group_rows rs []) roots []) t ({}, {}) =
     (live_trees rs roots t, live_hashes rs roots t)"
proof -
  have "marks_ok (\<lambda>t. dget_or (group_rows rs []) t []) t [] (dget_or [] t ({}, {}))" for t
    by (simp add: dget_or_def marks_ok_init)
  from mark_roots_ok [OF allI, OF this, of t roots]
  have "marks_ok (tenant_map rs) t roots (dget_or (mark_roots (group_rows rs []) roots []) t ({}, {}))"
    by (simp add: tenant_map_def [abs_def])
  then show ?thesis
    by (intro prod_eqI) (auto simp: marks_ok_def live_trees_def live_hashes_def tree_hashes_def)
qed

lemma dget_or_map_snd:
  "dget_or (map (\<lambda>(k, v). (k, f v)) d) k (f x) = f (dget_or d k x)"
  by (simp add: dget_or_def dget_map_snd [of "\<lambda>_. f"] split: option.split)

lemma mark_alive_alive:
  "dget_or (fst (mark_alive rs roots)) t {} = live_hashes rs roots t"
  using dget_or_map_snd [of snd "mark_roots (group_rows rs []) roots []" t "({}, {})"]
  by (simp add: mark_alive_def Let_def mark_roots_live)

lemma mark_alive_visited:
  "dget_or (fst (snd (mark_alive rs roots))) t {} = live_trees rs roots t"
  using dget_or_map_snd [of fst "mark_roots (group_rows rs []) roots []" t "({}, {})"]
  by (simp add: mark_alive_def Let_def mark_roots_live)

text \<open>
  C17. The mark phase computes reachability: for every tenant, the alive set is exactly the set
  of object, layer and chunk hashes mentioned by a row of a tree reachable from the root of one
  of that tenant's commits, and the visited set is exactly the set of those trees; cycles,
  missing trees and shared subtrees included.
\<close>

theorem mark_alive_exact:
  "dget_or (fst (mark_alive rs roots)) t {} = live_hashes rs roots t
   \<and> dget_or (fst (snd (mark_alive rs roots))) t {} = live_trees rs roots t"
  by (simp add: mark_alive_alive mark_alive_visited)

end
