(* ===== verification/RedisCache.thy ===== *)
theory RedisCache
  imports Base
begin

text \<open>
  The Bloom-filter cache \<open>redis_cache.py::RedisCache\<close>. The RedisBloom module is not part of
  the repository: a filter is a value of an arbitrary type with three operations (reserve, add,
  test), of which the code relies on the documented absence of false negatives only
  (\<open>no_false_negatives\<close>). A command may fail; \<open>up i\<close> says whether the i-th Redis command of
  a method call succeeds.
\<close>

section \<open>The filter service\<close>

record 'f bloom_ops =
  bf_reserve :: 'f
  bf_add :: "'f \<Rightarrow> hash \<Rightarrow> 'f"
  bf_test :: "'f \<Rightarrow> hash \<Rightarrow> bool"

definition no_false_negatives :: "'f bloom_ops \<Rightarrow> bool" where
  "no_false_negatives ops \<longleftrightarrow>
     (\<forall>f h. bf_test ops (bf_add ops f h) h)
   \<and> (\<forall>f h x. bf_test ops f x \<longrightarrow> bf_test ops (bf_add ops f h) x)"

record 'f cache =
  bloom_available :: bool
  filters :: "(string, 'f) dict"

definition FILTER_NAME :: string where
  "FILTER_NAME = ''av:hash_filter''"

definition filter_name :: "string option \<Rightarrow> string" where
  "filter_name tenant = (case tenant of None \<Rightarrow> FILTER_NAME | Some t \<Rightarrow> FILTER_NAME @ '':'' @ t)"

text \<open>\<open>BF.MADD\<close> creates a missing filter; \<open>BF.EXISTS\<close> on a missing filter answers 0.\<close>

definition cmd_madd :: "'f bloom_ops \<Rightarrow> string \<Rightarrow> hash list \<Rightarrow> 'f cache \<Rightarrow> 'f cache" where
  "cmd_madd ops name hs c =
     c\<lparr>filters := dset (filters c) name
         (foldl (bf_add ops) (dget_or (filters c) name (bf_reserve ops)) hs)\<rparr>"

definition cmd_exists :: "'f bloom_ops \<Rightarrow> string \<Rightarrow> hash \<Rightarrow> 'f cache \<Rightarrow> bool" where
  "cmd_exists ops name h c =
     (case dget (filters c) name of None \<Rightarrow> False | Some f \<Rightarrow> bf_test ops f h)"

section \<open>The methods\<close>

text \<open>\<open>init_filter\<close>: command 0 is \<open>EXISTS\<close>, command 1 is \<open>BF.RESERVE\<close>.\<close>

definition init_filter ::
  "'f bloom_ops \<Rightarrow> (nat \<Rightarrow> bool) \<Rightarrow> string option \<Rightarrow> 'f cache \<Rightarrow> 'f cache" where
  "init_filter ops up tenant c =
     (if \<not> up 0 then c\<lparr>bloom_available := False\<rparr>
      else if has_key (filters c) (filter_name tenant) then c
      else if \<not> up 1 then c\<lparr>bloom_available := False\<rparr>
      else c\<lparr>filters := dset (filters c) (filter_name tenant) (bf_reserve ops)\<rparr>)"

definition add_hash ::
  "'f bloom_ops \<Rightarrow> (nat \<Rightarrow> bool) \<Rightarrow> hash \<Rightarrow> string option \<Rightarrow> 'f cache \<Rightarrow> 'f cache" where
  "add_hash ops up h tenant c =
     (if \<not> bloom_available c \<or> \<not> up 0 then c
      else cmd_madd ops (filter_name tenant) [h] c)"

definition check_hash_exists ::
  "'f bloom_ops \<Rightarrow> (nat \<Rightarrow> bool) \<Rightarrow> hash \<Rightarrow> string option \<Rightarrow> 'f cache \<Rightarrow> bool" where
  "check_hash_exists ops up h tenant c =
     (if \<not> bloom_available c then True
      else if tenant \<noteq> None \<and> \<not> up 0 then True
      else if tenant \<noteq> None \<and> cmd_exists ops (filter_name tenant) h c then True
      else if \<not> up 1 then True
      else cmd_exists ops FILTER_NAME h c)"

text \<open>Slices \<open>xs[i : i + n]\<close> for \<open>i\<close> in \<open>range(0, len(xs), n)\<close>.\<close>

function chunks_of :: "nat \<Rightarrow> 'a list \<Rightarrow> 'a list list" where
  "chunks_of n xs =
     (if n = 0 \<or> xs = [] then [] else take n xs # chunks_of n (drop n xs))"
  by pat_completeness auto
termination
  by (relation "measure (\<lambda>(n, xs). length xs)") auto

declare chunks_of.simps [simp del]

text \<open>The loop of \<open>add_hashes\<close>: a failing command ends it, the chunks before stay added.\<close>

fun add_chunks ::
  "'f bloom_ops \<Rightarrow> (nat \<Rightarrow> bool) \<Rightarrow> nat \<Rightarrow> string \<Rightarrow> hash list list \<Rightarrow> 'f cache \<Rightarrow> 'f cache" where
  "add_chunks ops up i name [] c = c"
| "add_chunks ops up i name (ch # chs) c =
     (if \<not> up i then c else add_chunks ops up (Suc i) name chs (cmd_madd ops name ch c))"

definition add_hashes ::
  "'f bloom_ops \<Rightarrow> (nat \<Rightarrow> bool) \<Rightarrow> hash list \<Rightarrow> string option \<Rightarrow> 'f cache \<Rightarrow> 'f cache" where
  "add_hashes ops up hs tenant c =
     (if hs = [] \<or> \<not> bloom_available c then c
      else add_chunks ops up 0 (filter_name tenant) (chunks_of 1000 hs) c)"

text \<open>
  The loop of \<open>check_hashes_exist\<close>; \<open>None\<close> is the exception of a failing command. Commands
  are numbered \<open>2 i\<close> (tenant filter) and \<open>2 i + 1\<close> (global filter) for chunk \<open>i\<close>.
\<close>

fun check_chunks ::
  "'f bloom_ops \<Rightarrow> (nat \<Rightarrow> bool) \<Rightarrow> nat \<Rightarrow> string option \<Rightarrow> hash list list \<Rightarrow> 'f cache
   \<Rightarrow> (hash, bool) dict \<Rightarrow> (hash, bool) dict option" where
  "check_chunks ops up i tenant [] c result = Some result"
| "check_chunks ops up i tenant (ch # chs) c result =
     (if tenant \<noteq> None \<and> \<not> up (2 * i) then None
      else
        let hit = (\<lambda>h. tenant \<noteq> None \<and> cmd_exists ops (filter_name tenant) h c);
            result1 = foldl (\<lambda>r h. dset r h True) result (filter hit ch);
            remaining = filter (\<lambda>h. \<not> hit h) ch
        in if remaining \<noteq> [] \<and> \<not> up (2 * i + 1) then None
           else check_chunks ops up (Suc i) tenant chs c
                  (foldl (\<lambda>r h. dset r h True) result1
                     (filter (\<lambda>h. cmd_exists ops FILTER_NAME h c) remaining)))"

definition check_hashes_exist ::
  "'f bloom_ops \<Rightarrow> (nat \<Rightarrow> bool) \<Rightarrow> hash list \<Rightarrow> string option \<Rightarrow> 'f cache \<Rightarrow> (hash, bool) dict" where
  "check_hashes_exist ops up hs tenant c =
     (if hs = [] then []
      else if \<not> bloom_available c then foldl (\<lambda>r h. dset r h True) [] hs
      else case check_chunks ops up 0 tenant (chunks_of 1000 hs) c
                  (foldl (\<lambda>r h. dset r h False) [] hs) of
             None \<Rightarrow> foldl (\<lambda>r h. dset r h True) [] hs
           | Some r \<Rightarrow> r)"

definition reset_filter :: "(nat \<Rightarrow> bool) \<Rightarrow> string option \<Rightarrow> 'f cache \<Rightarrow> 'f cache" where
  "reset_filter up tenant c =
     (if \<not> up 0 then c else c\<lparr>filters := ddel (filters c) (filter_name tenant)\<rparr>)"

section \<open>Chunking\<close>

lemma chunks_of_Nil [simp]: "chunks_of n [] = []"
  by (simp add: chunks_of.simps)

lemma concat_chunks_of [simp]: "0 < n \<Longrightarrow> concat (chunks_of n xs) = xs"
  by (induction n xs rule: chunks_of.induct) (subst chunks_of.simps, simp)

lemma chunks_of_eq_Nil [simp]: "0 < n \<Longrightarrow> chunks_of n xs = [] \<longleftrightarrow> xs = []"
  by (subst chunks_of.simps) simp

lemma chunks_of_length: "xs \<in> set (chunks_of n ys) \<Longrightarrow> length xs \<le> n"
  by (induction n ys rule: chunks_of.induct) (subst (asm) chunks_of.simps, auto split: if_splits)

lemma dget_foldl_dset:
  "dget (foldl (\<lambda>r h. dset r h v) d hs) x = (if x \<in> set hs then Some v else dget d x)"
  by (induction hs arbitrary: d) auto

section \<open>No false negatives\<close>

text \<open>What the cache promises for a hash and a tenant scope.\<close>

definition may_exist :: "'f bloom_ops \<Rightarrow> string option \<Rightarrow> 'f cache \<Rightarrow> hash \<Rightarrow> bool" where
  "may_exist ops tenant c h \<longleftrightarrow>
     \<not> bloom_available c
   \<or> (tenant \<noteq> None \<and> cmd_exists ops (filter_name tenant) h c)
   \<or> cmd_exists ops FILTER_NAME h c"

lemma foldl_bf_add_test:
  assumes "no_false_negatives ops"
  shows "bf_test ops f x \<or> x \<in> set hs \<Longrightarrow> bf_test ops (foldl (bf_add ops) f hs) x"
  using assms by (induction hs arbitrary: f) (auto simp: no_false_negatives_def)

lemma cmd_exists_madd:
  assumes "no_false_negatives ops"
    and "cmd_exists ops name x c \<or> (name = name' \<and> x \<in> set hs)"
  shows "cmd_exists ops name x (cmd_madd ops name' hs c)"
  using assms(2)
  by (auto simp: cmd_exists_def cmd_madd_def dget_or_def
        intro: foldl_bf_add_test [OF assms(1)] split: option.splits)

lemma bloom_available_madd [simp]: "bloom_available (cmd_madd ops name hs c) = bloom_available c"
  by (simp add: cmd_madd_def)

lemma bloom_available_add_chunks [simp]:
  "bloom_available (add_chunks ops up i name chs c) = bloom_available c"
  by (induction chs arbitrary: i c) auto

lemma add_chunks_exists:
  assumes "no_false_negatives ops"
    and "cmd_exists ops name x c \<or> (name = name' \<and> x \<in> set (concat chs) \<and> (\<forall>i. up i))"
  shows "cmd_exists ops name x (add_chunks ops up i name' chs c)"
  using assms(2)
  by (induction chs arbitrary: i c) (auto intro: cmd_exists_madd [OF assms(1)])

lemma add_hashes_may_exist:
  assumes "no_false_negatives ops" and "\<forall>i. up i" and "h \<in> set hs"
  shows "may_exist ops tenant (add_hashes ops up hs tenant c) h"
    and "may_exist ops tenant (add_hashes ops up hs None c) h"
  using assms
  by (auto simp: may_exist_def add_hashes_def filter_name_def
        intro!: add_chunks_exists split: option.splits)

lemma add_hashes_mono:
  assumes "no_false_negatives ops" and "may_exist ops tenant c h"
  shows "may_exist ops tenant (add_hashes ops up hs t' c) h"
  using assms by (auto simp: may_exist_def add_hashes_def intro: add_chunks_exists)

lemma add_hash_eq: "add_hash ops up h tenant c = add_hashes ops up [h] tenant c"
  by (simp add: add_hash_def add_hashes_def chunks_of.simps [of _ "[h]"] numeral_eq_Suc)

lemma init_filter_mono:
  assumes "may_exist ops tenant c h"
  shows "may_exist ops tenant (init_filter ops up t' c) h"
  using assms
  by (auto simp: may_exist_def init_filter_def cmd_exists_def split: option.splits
      dest: map_of_Some_key)

lemma check_hash_exists_may:
  "check_hash_exists ops up h tenant c \<longleftrightarrow>
     may_exist ops tenant c h \<or> (tenant \<noteq> None \<and> \<not> up 0)
     \<or> \<not> up 1"
  by (auto simp: check_hash_exists_def may_exist_def)

lemma dget_check_chunks:
  assumes "check_chunks ops up i tenant chs c r = Some r'" and "bloom_available c"
  shows "dget r' h = (if h \<in> set (concat chs) \<and> may_exist ops tenant c h then Some True else dget r h)"
  using assms
proof (induction chs arbitrary: i r)
  case (Cons ch chs)
  let ?hit = "\<lambda>h. tenant \<noteq> None \<and> cmd_exists ops (filter_name tenant) h c"
  let ?r1 = "foldl (\<lambda>r h. dset r h True) r (filter ?hit ch)"
  let ?r2 = "foldl (\<lambda>r h. dset r h True) ?r1
      (filter (\<lambda>h. cmd_exists ops FILTER_NAME h c) (filter (\<lambda>h. \<not> ?hit h) ch))"
  from Cons.prems have "check_chunks ops up (Suc i) tenant chs c ?r2 = Some r'"
    by (simp add: Let_def split: if_splits)
  from Cons.IH [OF this Cons.prems(2)] Cons.prems(2) show ?case
    by (auto simp: dget_foldl_dset may_exist_def)
qed simp

lemma check_chunks_Some:
  assumes "\<forall>i. up i"
  shows "\<exists>r'. check_chunks ops up i tenant chs c r = Some r'"
  using assms by (induction chs arbitrary: i r) (auto simp: Let_def)

lemma check_hashes_exist_dget:
  assumes "h \<in> set hs"
  shows "dget (check_hashes_exist ops up hs tenant c) h = Some (may_exist ops tenant c h)
     \<or> dget (check_hashes_exist ops up hs tenant c) h = Some True"
    and "(\<forall>i. up i) \<Longrightarrow>
      dget (check_hashes_exist ops up hs tenant c) h = Some (may_exist ops tenant c h)"
proof -
  let ?f = "foldl (\<lambda>r h. dset r h False) [] hs"
  have ne: "hs \<noteq> []" using assms by auto
  have unavailable: "\<not> bloom_available c \<Longrightarrow>
      dget (check_hashes_exist ops up hs tenant c) h = Some (may_exist ops tenant c h)"
    using assms ne by (simp add: check_hashes_exist_def dget_foldl_dset may_exist_def)
  have some: "dget (check_hashes_exist ops up hs tenant c) h = Some (may_exist ops tenant c h)"
    if "bloom_available c" "check_chunks ops up 0 tenant (chunks_of 1000 hs) c ?f = Some r'" for r'
    using dget_check_chunks [OF that(2,1), of h] that assms ne
    by (simp add: check_hashes_exist_def dget_foldl_dset)
  have none: "dget (check_hashes_exist ops up hs tenant c) h = Some True"
    if "bloom_available c" "check_chunks ops up 0 tenant (chunks_of 1000 hs) c ?f = None"
    using that assms ne by (simp add: check_hashes_exist_def dget_foldl_dset)
  show "dget (check_hashes_exist ops up hs tenant c) h = Some (may_exist ops tenant c h)
     \<or> dget (check_hashes_exist ops up hs tenant c) h = Some True"
    using unavailable some none by (cases "bloom_available c") (auto dest: option.exhaust_sel)
  show "dget (check_hashes_exist ops up hs tenant c) h = Some (may_exist ops tenant c h)"
    if "\<forall>i. up i"
    using unavailable some check_chunks_Some [OF that] by (cases "bloom_available c") blast+
qed

text \<open>
  The batch check never turns a stored hash into "definitely not stored": for every hash of
  the request the batch answer is the single-hash answer when Redis serves every command, with
  the tenant filter first and the global filter for its misses, and \<open>True\<close> at least whenever
  the single check says \<open>True\<close> when commands fail at any point.
\<close>

theorem check_hashes_exist_agrees:
  assumes "h \<in> set hs"
  shows "(check_hash_exists ops (\<lambda>_. True) h tenant c
            \<longrightarrow> dget (check_hashes_exist ops up hs tenant c) h = Some True)
    \<and> dget (check_hashes_exist ops (\<lambda>_. True) hs tenant c) h
        = Some (check_hash_exists ops (\<lambda>_. True) h tenant c)"
  using check_hashes_exist_dget(1) [OF assms, of ops up tenant c]
    check_hashes_exist_dget(2) [OF assms, of "\<lambda>_. True" ops tenant c]
  by (auto simp: check_hash_exists_may)

definition exact_ops :: "hash set bloom_ops" where
  "exact_ops = \<lparr>bf_reserve = {}, bf_add = (\<lambda>f h. insert h f), bf_test = (\<lambda>f h. h \<in> f)\<rparr>"

definition sample_cache :: "hash set cache" where
  "sample_cache = add_hashes exact_ops (\<lambda>_. True) [''aa'', ''bb''] None
     \<lparr>bloom_available = True, filters = []\<rparr>"

lemma check_hashes_exist_agrees_witness:
  "dget (check_hashes_exist exact_ops (\<lambda>_. True) [''bb'', ''cc''] (Some ''t'') sample_cache) ''bb''
     = Some (check_hash_exists exact_ops (\<lambda>_. True) ''bb'' (Some ''t'') sample_cache)"
  using check_hashes_exist_agrees
    [of "''bb''" "[''bb'', ''cc'']" exact_ops "Some ''t''" sample_cache "\<lambda>_. True"] by simp

lemma no_false_negatives_exact: "no_false_negatives exact_ops"
  by (simp add: no_false_negatives_def exact_ops_def)

section \<open>Histories of the cache\<close>

text \<open>Everything the server does with the cache after an upload; the first argument says which of the
  call's Redis commands are served.\<close>

datatype cache_op =
    InitFilter "nat \<Rightarrow> bool" "string option"
  | AddHash "nat \<Rightarrow> bool" hash "string option"
  | AddHashes "nat \<Rightarrow> bool" "hash list" "string option"
  | ResetFilter "nat \<Rightarrow> bool" "string option"

fun do_op :: "'f bloom_ops \<Rightarrow> cache_op \<Rightarrow> 'f cache \<Rightarrow> 'f cache" where
  "do_op ops (InitFilter up t) c = init_filter ops up t c"
| "do_op ops (AddHash up h t) c = add_hash ops up h t c"
| "do_op ops (AddHashes up hs t) c = add_hashes ops up hs t c"
| "do_op ops (ResetFilter up t) c = reset_filter up t c"

text \<open>The filter of this scope is deleted.\<close>

fun drops_filter :: "string option \<Rightarrow> cache_op \<Rightarrow> bool" where
  "drops_filter scope (ResetFilter up t) \<longleftrightarrow> up 0 \<and> filter_name t = filter_name scope"
| "drops_filter scope _ \<longleftrightarrow> False"

text \<open>What the cache keeps for a hash in the filter of one scope.\<close>

definition recorded :: "'f bloom_ops \<Rightarrow> string option \<Rightarrow> 'f cache \<Rightarrow> hash \<Rightarrow> bool" where
  "recorded ops scope c h \<longleftrightarrow> \<not> bloom_available c \<or> cmd_exists ops (filter_name scope) h c"

lemma recorded_may_exist:
  "recorded ops scope c h \<Longrightarrow> scope = tenant \<or> scope = None \<Longrightarrow> may_exist ops tenant c h"
  by (cases scope) (auto simp: recorded_def may_exist_def filter_name_def)

lemma add_hashes_recorded:
  assumes "no_false_negatives ops" and "recorded ops scope c h \<or> h \<in> set hs \<and> t = scope \<and> (\<forall>i. up i)"
  shows "recorded ops scope (add_hashes ops up hs t c) h"
  using assms(2)
  by (auto simp: recorded_def add_hashes_def intro!: add_chunks_exists[OF assms(1)])

lemma do_op_recorded:
  assumes "no_false_negatives ops" and "\<not> drops_filter scope p" and "recorded ops scope c h"
  shows "recorded ops scope (do_op ops p c) h"
proof (cases p)
  case (InitFilter up t)
  then show ?thesis using assms(3)
    by (auto simp: recorded_def init_filter_def cmd_exists_def split: option.splits dest: map_of_Some_key)
next
  case (ResetFilter up t)
  then show ?thesis using assms(2,3)
    by (auto simp: recorded_def reset_filter_def cmd_exists_def split: option.splits)
qed (use assms add_hashes_recorded[OF assms(1)] in \<open>auto simp: add_hash_eq\<close>)

lemma history_recorded:
  assumes "no_false_negatives ops" and "list_all (\<lambda>p. \<not> drops_filter scope p) ps" and "recorded ops scope c h"
  shows "recorded ops scope (fold (do_op ops) ps c) h"
  using assms(2,3) by (induction ps arbitrary: c) (simp_all add: do_op_recorded[OF assms(1)])

text \<open>
  C22. A hash that was added is not reported as "definitely not stored" while its filter lives: after
  \<open>add_hashes\<close> (all chunks served) under the tenant's scope or globally, and after any further sequence
  of additions, filter initialisations and resets that do not delete the filter of that scope, whatever
  Redis commands fail on the way, the single check and the batch check answer \<open>True\<close>. A reset of that
  filter, as the garbage collection makes, ends the promise (\<open>reset_filter_forgets\<close>).
\<close>

theorem added_hash_may_exist:
  assumes "no_false_negatives ops" and "h \<in> set hs" and "scope = tenant \<or> scope = None"
    and "list_all (\<lambda>p. \<not> drops_filter scope p) ps"
  shows "check_hash_exists ops up h tenant (fold (do_op ops) ps (add_hashes ops (\<lambda>_. True) hs scope c))
    \<and> (h \<in> set asked \<longrightarrow> dget (check_hashes_exist ops up' asked tenant
          (fold (do_op ops) ps (add_hashes ops (\<lambda>_. True) hs scope c))) h = Some True)"
proof -
  let ?c = "fold (do_op ops) ps (add_hashes ops (\<lambda>_. True) hs scope c)"
  have "recorded ops scope (add_hashes ops (\<lambda>_. True) hs scope c) h"
    by (rule add_hashes_recorded[OF assms(1)]) (simp add: assms(2))
  then have "recorded ops scope ?c h" by (rule history_recorded[OF assms(1,4)])
  then have "may_exist ops tenant ?c h" using assms(3) by (rule recorded_may_exist)
  then show ?thesis
    using check_hashes_exist_dget(1)[of h asked ops up' tenant ?c] by (auto simp: check_hash_exists_may)
qed

text \<open>Another hash fails to be added, another tenant's filter is reset, the filters are initialised again.\<close>

lemma added_hash_may_exist_witness:
  "check_hash_exists exact_ops (\<lambda>_. True) ''aa'' (Some ''t'')
     (fold (do_op exact_ops) [AddHashes (\<lambda>_. False) [''x''] None, ResetFilter (\<lambda>_. True) (Some ''u''),
          InitFilter (\<lambda>_. True) (Some ''t''), ResetFilter (\<lambda>_. False) (Some ''t'')]
        (add_hashes exact_ops (\<lambda>_. True) [''aa''] (Some ''t'') \<lparr>bloom_available = True, filters = []\<rparr>))"
  by (rule added_hash_may_exist[THEN conjunct1])
     (simp_all add: no_false_negatives_exact filter_name_def FILTER_NAME_def)

lemma reset_filter_forgets:
  "\<not> check_hash_exists exact_ops (\<lambda>_. True) ''aa'' None
     (fold (do_op exact_ops) [ResetFilter (\<lambda>_. True) None, InitFilter (\<lambda>_. True) None]
        (add_hashes exact_ops (\<lambda>_. True) [''aa''] None \<lparr>bloom_available = True, filters = []\<rparr>))"
  by code_simp

end
