(* ===== verification/ObjectStore.thy ===== *)
theory ObjectStore
  imports RedisCache
begin

text \<open>
  The registry's object store: \<open>storage.py::CASStorage\<close> (sharded object files, flat or per
  tenant), the \<open>objects\<close> table, and the handlers of \<open>server.py\<close> that upload, download, probe
  and batch-check objects, with the Bloom filter in front. SHA-256 is an argument.
\<close>

section \<open>Files\<close>

type_synonym bytes = string

text \<open>\<open>objects_dir/xx/rest\<close> and \<open>objects_dir/tenant/xx/rest\<close>.\<close>

datatype obj_path = Flat string string | Scoped string string string

record obj_file =
  of_data :: bytes
  of_mtime :: int

type_synonym obj_files = "(obj_path, obj_file) dict"

definition object_path :: "hash \<Rightarrow> string option \<Rightarrow> obj_path" where
  "object_path h tenant =
     (case tenant of None \<Rightarrow> Flat (take 2 h) (drop 2 h)
                   | Some t \<Rightarrow> Scoped t (take 2 h) (drop 2 h))"

text \<open>A request body: the chunks that arrive, and whether the stream then raises.\<close>

datatype stream_error = TooLarge | Disconnected

record body =
  b_chunks :: "bytes list"
  b_error :: "stream_error option"

text \<open>\<open>_limited_stream\<close>: the chunks yielded before the running total passes the cap.\<close>

fun limited_stream :: "nat \<Rightarrow> nat \<Rightarrow> bytes list \<Rightarrow> stream_error option \<Rightarrow> body" where
  "limited_stream max_bytes seen [] err = \<lparr>b_chunks = [], b_error = err\<rparr>"
| "limited_stream max_bytes seen (ch # chs) err =
     (let seen' = seen + length ch
      in if max_bytes < seen' then \<lparr>b_chunks = [], b_error = Some TooLarge\<rparr>
         else let r = limited_stream max_bytes seen' chs err
              in r\<lparr>b_chunks := ch # b_chunks r\<rparr>)"

definition BUFFER_CAP :: nat where
  "BUFFER_CAP = 4 * 1024 * 1024"

text \<open>The buffered writer of \<open>store_object\<close>: flush when the buffer reaches the cap, and at the end.\<close>

fun buffered_write :: "nat \<Rightarrow> bytes list \<Rightarrow> bytes \<Rightarrow> bytes \<Rightarrow> bytes" where
  "buffered_write cap [] buf written = (if buf = [] then written else written @ buf)"
| "buffered_write cap (ch # chs) buf written =
     (let buf' = buf @ ch
      in if cap \<le> length buf' then buffered_write cap chs [] (written @ buf')
         else buffered_write cap chs buf' written)"

datatype store_error = HashMismatch hash hash | StreamError stream_error

text \<open>
  \<open>store_object\<close>: an existing target is returned without reading the body; the temporary file
  is renamed into place after the hash check, and removed on any error.
\<close>

definition store_object ::
  "(bytes \<Rightarrow> hash) \<Rightarrow> int \<Rightarrow> hash \<Rightarrow> body \<Rightarrow> string option \<Rightarrow> obj_files
   \<Rightarrow> obj_files \<times> (store_error + obj_path)" where
  "store_object sha now h b tenant files =
     (let target = object_path h tenant
      in if has_key files target then (files, Inr target)
         else case b_error b of
             Some e \<Rightarrow> (files, Inl (StreamError e))
           | None \<Rightarrow>
               (let data = buffered_write BUFFER_CAP (b_chunks b) [] [];
                    actual = sha data
                in if actual \<noteq> h then (files, Inl (HashMismatch h actual))
                   else (dset files target \<lparr>of_data = data, of_mtime = now\<rparr>, Inr target)))"

definition get_object_path :: "hash \<Rightarrow> string option \<Rightarrow> obj_files \<Rightarrow> obj_path option" where
  "get_object_path h tenant files =
     (if tenant \<noteq> None \<and> has_key files (object_path h tenant) then Some (object_path h tenant)
      else if has_key files (object_path h None) then Some (object_path h None)
      else None)"

definition object_exists :: "hash \<Rightarrow> string option \<Rightarrow> obj_files \<Rightarrow> bool" where
  "object_exists h tenant files \<longleftrightarrow> get_object_path h tenant files \<noteq> None"

definition get_object_size :: "hash \<Rightarrow> string option \<Rightarrow> obj_files \<Rightarrow> nat option" where
  "get_object_size h tenant files =
     (case get_object_path h tenant files of
        None \<Rightarrow> None
      | Some p \<Rightarrow> map_option (\<lambda>f. length (of_data f)) (dget files p))"

section \<open>The registry's object state\<close>

record object_row =
  or_tenant :: string
  or_hash :: hash
  or_size :: nat
  or_created :: "int option"

record 'f objects =
  ob_files :: obj_files
  ob_rows :: "object_row list"
  ob_cache :: "'f cache"

text \<open>
  What a request brings: the session's tenant (the default of the row's \<open>tenant_id\<close>), the tenant
  CAS storage is scoped to (\<open>_cas_tenant_id\<close>: \<open>None\<close> in shared mode), the clock, the upload cap
  (0: unlimited), the declared length, and which external calls succeed.
\<close>

record request =
  rq_tenant :: string
  rq_cas_tenant :: "string option"
  rq_now :: int
  rq_max_upload :: nat
  rq_length :: "nat option"
  rq_db_ok :: bool
  rq_up :: "nat \<Rightarrow> nat \<Rightarrow> bool"

definition cas_tenant_id :: "bool \<Rightarrow> string option \<Rightarrow> string \<Rightarrow> string option" where
  "cas_tenant_id isolated principal_tenant default_tenant =
     (if \<not> isolated then None
      else Some (case principal_tenant of
          None \<Rightarrow> default_tenant | Some t \<Rightarrow> if t = [] then default_tenant else t))"

text \<open>\<open>select(DBObject)\<close> for a hash, scoped to the CAS tenant when there is one.\<close>

definition rows_for :: "object_row list \<Rightarrow> hash \<Rightarrow> string option \<Rightarrow> object_row list" where
  "rows_for rows h tenant =
     filter (\<lambda>r. or_hash r = h \<and> (tenant = None \<or> tenant = Some (or_tenant r))) rows"

text \<open>\<open>upload_object\<close> after the duplicate check and the declared-length check.\<close>

definition upload_store ::
  "'f bloom_ops \<Rightarrow> (bytes \<Rightarrow> hash) \<Rightarrow> request \<Rightarrow> hash \<Rightarrow> body \<Rightarrow> 'f objects
   \<Rightarrow> 'f objects \<times> string http" where
  "upload_store ops sha rq h b s =
     (case store_object sha (rq_now rq) h b (rq_cas_tenant rq) (ob_files s) of
        (files', Inl (StreamError TooLarge)) \<Rightarrow> (s, Raise 413 ''too large'')
      | (files', Inl (StreamError Disconnected)) \<Rightarrow> (s, Raise 500 ''stream error'')
      | (files', Inl (HashMismatch e a)) \<Rightarrow> (s, Raise 400 ''Hash mismatch'')
      | (files', Inr p) \<Rightarrow>
          (let s1 = s\<lparr>ob_files := files'\<rparr>;
               row = \<lparr>or_tenant = rq_tenant rq, or_hash = h,
                      or_size = (case dget files' p of None \<Rightarrow> 0 | Some f \<Rightarrow> length (of_data f)),
                      or_created = Some (rq_now rq)\<rparr>
           in if list_ex (\<lambda>r. or_tenant r = rq_tenant rq \<and> or_hash r = h) (ob_rows s)
              then (s1\<lparr>ob_cache := add_hash ops (rq_up rq 1) h (rq_cas_tenant rq) (ob_cache s)\<rparr>,
                    Reply 409 ''Object already exists'')
              else if \<not> rq_db_ok rq then (s1, Raise 500 ''database error'')
              else (s1\<lparr>ob_rows := ob_rows s @ [row],
                       ob_cache := add_hash ops (rq_up rq 1) h (rq_cas_tenant rq) (ob_cache s)\<rparr>,
                    Reply 201 [])))"

definition upload_object ::
  "'f bloom_ops \<Rightarrow> (bytes \<Rightarrow> hash) \<Rightarrow> request \<Rightarrow> hash \<Rightarrow> body \<Rightarrow> 'f objects
   \<Rightarrow> 'f objects \<times> string http" where
  "upload_object ops sha rq h b s =
     (if \<not> is_sha256_hex h then (s, Raise 400 ''Invalid hash format'')
      else if check_hash_exists ops (rq_up rq 0) h (rq_cas_tenant rq) (ob_cache s)
              \<and> rows_for (ob_rows s) h (rq_cas_tenant rq) \<noteq> []
      then (s, case rows_for (ob_rows s) h (rq_cas_tenant rq) of
                 [r] \<Rightarrow> Reply 409 ''Object already exists''
               | _ \<Rightarrow> Raise 500 ''MultipleResultsFound'')
      else if 0 < rq_max_upload rq then
        (if (case rq_length rq of None \<Rightarrow> False | Some n \<Rightarrow> rq_max_upload rq < n)
         then (s, Raise 413 ''too large'')
         else upload_store ops sha rq h
                (limited_stream (rq_max_upload rq) 0 (b_chunks b) (b_error b)) s)
      else upload_store ops sha rq h b s)"

definition download_object :: "request \<Rightarrow> hash \<Rightarrow> 'f objects \<Rightarrow> bytes http" where
  "download_object rq h s =
     (if \<not> is_sha256_hex h then Raise 400 ''Invalid hash format''
      else case get_object_path h (rq_cas_tenant rq) (ob_files s) of
          None \<Rightarrow> Raise 404 ''Object not found''
        | Some p \<Rightarrow> (case dget (ob_files s) p of
              None \<Rightarrow> Raise 404 ''Object not found''
            | Some f \<Rightarrow> Reply 200 (of_data f)))"

definition head_object :: "'f bloom_ops \<Rightarrow> request \<Rightarrow> hash \<Rightarrow> 'f objects \<Rightarrow> nat option http" where
  "head_object ops rq h s =
     (if \<not> is_sha256_hex h then Raise 400 ''Invalid hash format''
      else if check_hash_exists ops (rq_up rq 0) h (rq_cas_tenant rq) (ob_cache s) then
        (case rows_for (ob_rows s) h (rq_cas_tenant rq) of
           [] \<Rightarrow> Reply 404 None
         | [r] \<Rightarrow> Reply 200 (Some (or_size r))
         | _ \<Rightarrow> Raise 500 ''MultipleResultsFound'')
      else (case get_object_size h (rq_cas_tenant rq) (ob_files s) of
           None \<Rightarrow> Reply 404 None
         | Some n \<Rightarrow> Reply 200 (Some n)))"

text \<open>\<open>/api/sync/batch-objects\<close>: the found rows and the missing hashes.\<close>

definition check_objects_batch ::
  "'f bloom_ops \<Rightarrow> request \<Rightarrow> hash list \<Rightarrow> 'f objects \<Rightarrow> hash list \<times> hash list" where
  "check_objects_batch ops rq hs s =
     (let existence = check_hashes_exist ops (rq_up rq 0) hs (rq_cas_tenant rq) (ob_cache s);
          might_exist = filter (\<lambda>h. dget_or existence h True) hs;
          definitely_missing = filter (\<lambda>h. \<not> dget_or existence h True) hs;
          db_found = map or_hash (filter (\<lambda>r. or_hash r \<in> set might_exist
            \<and> (rq_cas_tenant rq = None \<or> rq_cas_tenant rq = Some (or_tenant r))) (ob_rows s))
      in (db_found, definitely_missing @ filter (\<lambda>h. h \<notin> set db_found) might_exist))"

section \<open>Content addressing\<close>

text \<open>The hash a shard path stands for, and the invariant of the object files.\<close>

fun path_hash :: "obj_path \<Rightarrow> hash" where
  "path_hash (Flat d n) = d @ n"
| "path_hash (Scoped t d n) = d @ n"

definition cas_ok :: "(bytes \<Rightarrow> hash) \<Rightarrow> obj_files \<Rightarrow> bool" where
  "cas_ok sha files \<longleftrightarrow> (\<forall>p f. dget files p = Some f \<longrightarrow> sha (of_data f) = path_hash p)"

lemma path_hash_object_path [simp]: "path_hash (object_path h tenant) = h"
  by (simp add: object_path_def split: option.split)

lemma buffered_write_concat:
  "buffered_write cap chs buf written = written @ buf @ concat chs"
  by (induction chs arbitrary: buf written) (auto simp: Let_def)

lemma limited_stream_complete:
  "b_error (limited_stream m seen chs err) \<noteq> Some TooLarge \<Longrightarrow>
     b_chunks (limited_stream m seen chs err) = chs \<and> b_error (limited_stream m seen chs err) = err"
proof (induction chs arbitrary: seen)
  case (Cons ch chs)
  from Cons.prems have "\<not> m < seen + length ch" by (auto simp: Let_def split: if_splits)
  with Cons.prems Cons.IH [of "seen + length ch"] show ?case by (simp add: Let_def)
qed simp

lemma limited_stream_TooLarge:
  "err \<noteq> Some TooLarge \<Longrightarrow> seen \<le> m \<Longrightarrow>
     b_error (limited_stream m seen chs err) = Some TooLarge \<longleftrightarrow> m < seen + length (concat chs)"
proof (induction chs arbitrary: seen)
  case (Cons ch chs)
  from Cons.IH [of "seen + length ch"] Cons.prems show ?case
    by (cases "m < seen + length ch") (simp_all add: Let_def add.assoc)
qed simp

lemma store_object_Inr:
  assumes "store_object sha now h b tenant files = (files', Inr p)"
  shows "p = object_path h tenant"
    and "has_key files p \<Longrightarrow> files' = files"
    and "\<not> has_key files p \<Longrightarrow> b_error b = None \<and> sha (concat (b_chunks b)) = h
          \<and> files' = dset files p \<lparr>of_data = concat (b_chunks b), of_mtime = now\<rparr>"
  using assms by (auto simp: store_object_def Let_def buffered_write_concat
      split: if_splits option.splits)

lemma store_object_Inl:
  "store_object sha now h b tenant files = (files', Inl e) \<Longrightarrow> files' = files"
  by (auto simp: store_object_def Let_def split: if_splits option.splits)

lemma store_object_cas_ok:
  assumes "cas_ok sha files" and "store_object sha now h b tenant files = (files', Inr p)"
  shows "cas_ok sha files'"
  using assms(1) store_object_Inr [OF assms(2)]
  by (cases "has_key files p") (auto simp: cas_ok_def)

lemma upload_store_Inl:
  assumes "store_object sha (rq_now rq) h b (rq_cas_tenant rq) (ob_files s) = (files', Inl e)"
  shows "fst (upload_store ops sha rq h b s) = s"
    and "http_status (snd (upload_store ops sha rq h b s)) \<in> {400, 413, 500}"
  using assms by (auto simp: upload_store_def split: store_error.splits stream_error.splits)

lemma upload_store_Inr:
  assumes "store_object sha (rq_now rq) h b (rq_cas_tenant rq) (ob_files s) = (files', Inr p)"
  shows "ob_files (fst (upload_store ops sha rq h b s)) = files'"
    and "http_status (snd (upload_store ops sha rq h b s)) \<in> {201, 409, 500}"
    and "http_status (snd (upload_store ops sha rq h b s)) = 500 \<Longrightarrow>
           fst (upload_store ops sha rq h b s) = s\<lparr>ob_files := files'\<rparr>"
    and "http_status (snd (upload_store ops sha rq h b s)) = 409 \<Longrightarrow>
           fst (upload_store ops sha rq h b s) = s\<lparr>ob_files := files',
             ob_cache := add_hash ops (rq_up rq 1) h (rq_cas_tenant rq) (ob_cache s)\<rparr>"
    and "http_status (snd (upload_store ops sha rq h b s)) = 201 \<Longrightarrow>
           \<exists>n. fst (upload_store ops sha rq h b s) = s\<lparr>ob_files := files',
             ob_rows := ob_rows s @ [\<lparr>or_tenant = rq_tenant rq, or_hash = h, or_size = n,
                                       or_created = Some (rq_now rq)\<rparr>],
             ob_cache := add_hash ops (rq_up rq 1) h (rq_cas_tenant rq) (ob_cache s)\<rparr>"
  using assms by (auto simp: upload_store_def Let_def)

lemma upload_store_cas_ok:
  assumes "cas_ok sha (ob_files s)"
  shows "cas_ok sha (ob_files (fst (upload_store ops sha rq h b s)))"
proof (cases "store_object sha (rq_now rq) h b (rq_cas_tenant rq) (ob_files s)")
  case (Pair files' r)
  with assms show ?thesis
    by (cases r) (auto simp: upload_store_Inl upload_store_Inr dest: store_object_cas_ok)
qed

definition effective_body :: "request \<Rightarrow> body \<Rightarrow> body" where
  "effective_body rq b =
     (if 0 < rq_max_upload rq
      then limited_stream (rq_max_upload rq) 0 (b_chunks b) (b_error b) else b)"

lemma effective_body_complete:
  "b_error (effective_body rq b) \<noteq> Some TooLarge \<Longrightarrow> b_chunks (effective_body rq b) = b_chunks b"
  by (cases "0 < rq_max_upload rq") (simp_all add: effective_body_def limited_stream_complete [THEN conjunct1])

lemma upload_object_cases:
  obtains "fst (upload_object ops sha rq h b s) = s"
      "http_status (snd (upload_object ops sha rq h b s)) \<noteq> 201"
  | "upload_object ops sha rq h b s = upload_store ops sha rq h (effective_body rq b) s"
      "is_sha256_hex h"
  by (cases "upload_object ops sha rq h b s = upload_store ops sha rq h (effective_body rq b) s
        \<and> is_sha256_hex h")
    (auto simp: upload_object_def effective_body_def split: if_splits list.splits option.splits)

lemma upload_store_created:
  assumes "http_status (snd (upload_store ops sha rq h b s)) = 201"
  shows "\<exists>files'. store_object sha (rq_now rq) h b (rq_cas_tenant rq) (ob_files s)
            = (files', Inr (object_path h (rq_cas_tenant rq)))
    \<and> ob_files (fst (upload_store ops sha rq h b s)) = files'"
proof (cases "store_object sha (rq_now rq) h b (rq_cas_tenant rq) (ob_files s)")
  case (Pair files' r)
  show ?thesis
  proof (cases r)
    case (Inl e)
    with Pair assms upload_store_Inl(2) [of sha rq h b s files' e ops] show ?thesis by auto
  next
    case (Inr p)
    with Pair store_object_Inr(1) [of sha "rq_now rq" h b "rq_cas_tenant rq" "ob_files s" files' p]
      upload_store_Inr(1) [of sha rq h b s files' p ops] show ?thesis by simp
  qed
qed

lemma upload_object_cas_ok:
  "cas_ok sha (ob_files s) \<Longrightarrow> cas_ok sha (ob_files (fst (upload_object ops sha rq h b s)))"
  by (rule upload_object_cases [of ops sha rq h b s]) (simp_all add: upload_store_cas_ok)

lemma upload_object_201:
  assumes "http_status (snd (upload_object ops sha rq h b s)) = 201"
  shows "upload_object ops sha rq h b s = upload_store ops sha rq h (effective_body rq b) s
    \<and> is_sha256_hex h"
  by (rule upload_object_cases [of ops sha rq h b s]) (simp_all add: assms)

lemma get_object_path_own:
  "has_key files (object_path h tenant) \<Longrightarrow> get_object_path h tenant files = Some (object_path h tenant)"
  by (cases tenant) (auto simp: get_object_path_def)

lemma download_own:
  "is_sha256_hex h \<Longrightarrow> dget (ob_files s) (object_path h (rq_cas_tenant rq)) = Some f
   \<Longrightarrow> download_object rq h s = Reply 200 (of_data f)"
  by (simp add: download_object_def get_object_path_own map_of_Some_key)

text \<open>
  C20. What \<open>201\<close> promises: after a created upload the same caller downloads, with status 200,
  bytes whose SHA-256 is the name they were uploaded under, and these are the request's own
  bytes, unbuffered and complete, when no file was there before; a body that does not hash to its
  name is never created. The invariant that every shard file hashes to its path is kept.
\<close>

theorem upload_then_download:
  assumes "cas_ok sha (ob_files s)"
    and "http_status (snd (upload_object ops sha rq h b s)) = 201"
  shows "\<exists>data. download_object rq h (fst (upload_object ops sha rq h b s)) = Reply 200 data
      \<and> sha data = h
      \<and> (\<not> has_key (ob_files s) (object_path h (rq_cas_tenant rq)) \<longrightarrow> data = concat (b_chunks b))
      \<and> cas_ok sha (ob_files (fst (upload_object ops sha rq h b s)))"
proof -
  let ?b = "effective_body rq b" and ?p = "object_path h (rq_cas_tenant rq)"
  have up: "upload_object ops sha rq h b s = upload_store ops sha rq h ?b s" and hex: "is_sha256_hex h"
    using upload_object_201 [OF assms(2)] by simp_all
  from assms(2) up have "http_status (snd (upload_store ops sha rq h ?b s)) = 201" by simp
  from upload_store_created [OF this] obtain files' where
    st: "store_object sha (rq_now rq) h ?b (rq_cas_tenant rq) (ob_files s) = (files', Inr ?p)"
    and f': "ob_files (fst (upload_object ops sha rq h b s)) = files'" using up by auto
  note ok = upload_object_cas_ok [OF assms(1), of ops rq h b]
  obtain f where f: "dget files' ?p = Some f"
    and data: "\<not> has_key (ob_files s) ?p \<longrightarrow> b_error ?b = None \<and> of_data f = concat (b_chunks ?b)"
  proof (cases "has_key (ob_files s) ?p")
    case True
    then obtain f where "dget (ob_files s) ?p = Some f" by (auto simp only: has_key_dget)
    moreover have "files' = ob_files s" by (rule store_object_Inr(2) [OF st True])
    ultimately show ?thesis using True by (intro that [of f]) simp_all
  next
    case False
    note new = store_object_Inr(3) [OF st False]
    show ?thesis
      by (rule that [of "\<lparr>of_data = concat (b_chunks ?b), of_mtime = rq_now rq\<rparr>"])
        (simp_all add: new)
  qed
  have "b_chunks ?b = b_chunks b" if "b_error ?b = None"
    using that by (intro effective_body_complete) simp
  moreover have "sha (of_data f) = h"
    using ok f f' by (auto simp: cas_ok_def)
  moreover have "download_object rq h (fst (upload_object ops sha rq h b s)) = Reply 200 (of_data f)"
    using f f' by (intro download_own [OF hex]) simp
  ultimately show ?thesis using data ok by (intro exI [of _ "of_data f"]) simp
qed

definition toy_sha :: "bytes \<Rightarrow> hash" where
  "toy_sha d = replicate 64 (if length d < 3 then CHR ''a'' else CHR ''b'')"

definition toy_request :: request where
  "toy_request = \<lparr>rq_tenant = ''t'', rq_cas_tenant = Some ''t'', rq_now = 100, rq_max_upload = 10,
     rq_length = None, rq_db_ok = True, rq_up = (\<lambda>_ _. True)\<rparr>"

definition empty_objects :: "hash set objects" where
  "empty_objects = \<lparr>ob_files = [], ob_rows = [],
     ob_cache = \<lparr>bloom_available = True, filters = []\<rparr>\<rparr>"

lemmas toy_defs = toy_sha_def toy_request_def empty_objects_def exact_ops_def

lemma upload_then_download_witness:
  "download_object toy_request (replicate 64 CHR ''b'')
     (fst (upload_object exact_ops toy_sha toy_request (replicate 64 CHR ''b'')
        \<lparr>b_chunks = [''xy'', ''z''], b_error = None\<rparr> empty_objects)) = Reply 200 ''xyz''"
proof -
  let ?h = "replicate 64 CHR ''b''" and ?b = "\<lparr>b_chunks = [''xy'', ''z''], b_error = None\<rparr>"
  have "is_sha256_hex ?h"
    by (simp add: is_sha256_hex_def list_all_iff is_hex_def Let_def)
  then have "http_status (snd (upload_object exact_ops toy_sha toy_request ?h ?b empty_objects)) = 201"
    by (simp add: upload_object_def toy_defs check_hash_exists_def cmd_exists_def rows_for_def
        upload_store_def store_object_def buffered_write_concat Let_def)
  from upload_then_download [OF _ this]
  show ?thesis by (auto simp: cas_ok_def empty_objects_def)
qed

text \<open>
  C21. The upload cap holds for bodies without a declared length too: with a cap configured, a body
  longer than the cap that is not a duplicate of a stored file is refused with 413 (or an earlier
  refusal), and the store, the rows and the cache stay as they were.
\<close>

theorem upload_cap_enforced:
  assumes "0 < rq_max_upload rq" and "rq_max_upload rq < length (concat (b_chunks b))"
    and "b_error b \<noteq> Some TooLarge"
    and "\<not> has_key (ob_files s) (object_path h (rq_cas_tenant rq))"
  shows "fst (upload_object ops sha rq h b s) = s
    \<and> http_status (snd (upload_object ops sha rq h b s)) \<in> {400, 409, 413, 500}"
proof -
  let ?b = "effective_body rq b"
  have "b_error ?b = Some TooLarge"
    using assms limited_stream_TooLarge [of "b_error b" 0 "rq_max_upload rq" "b_chunks b"]
    by (simp add: effective_body_def)
  with assms(4) have "store_object sha (rq_now rq) h ?b (rq_cas_tenant rq) (ob_files s)
      = (ob_files s, Inl (StreamError TooLarge))"
    by (simp add: store_object_def)
  then have "upload_store ops sha rq h ?b s = (s, Raise 413 ''too large'')"
    by (simp add: upload_store_def)
  then show ?thesis using assms(1)
    by (auto simp: upload_object_def effective_body_def split: list.splits option.splits)
qed

lemma upload_cap_enforced_witness:
  "fst (upload_object exact_ops toy_sha toy_request (replicate 64 CHR ''b'')
     \<lparr>b_chunks = [''0123456'', ''789ab''], b_error = None\<rparr> empty_objects) = empty_objects"
  by (rule upload_cap_enforced [THEN conjunct1]) (simp_all add: toy_defs)

section \<open>The Bloom filter in front of the table\<close>

text \<open>The CAS scope of a tenant, and the coverage invariant: every row may exist for its scope.\<close>

definition scope_of :: "bool \<Rightarrow> string \<Rightarrow> string option" where
  "scope_of isolated t = (if isolated then Some t else None)"

definition covers :: "'f bloom_ops \<Rightarrow> bool \<Rightarrow> 'f objects \<Rightarrow> bool" where
  "covers ops isolated s \<longleftrightarrow>
     (\<forall>r \<in> set (ob_rows s). may_exist ops (scope_of isolated (or_tenant r)) (ob_cache s) (or_hash r))"

lemma may_exist_scope:
  assumes "covers ops isolated s" and "rq_cas_tenant rq = scope_of isolated (rq_tenant rq)"
    and "rows_for (ob_rows s) h (rq_cas_tenant rq) \<noteq> []"
  shows "may_exist ops (rq_cas_tenant rq) (ob_cache s) h"
  using assms by (fastforce simp: covers_def rows_for_def scope_of_def filter_empty_conv split: if_splits)

lemma upload_object_covers:
  assumes "no_false_negatives ops" and "covers ops isolated s"
    and "rq_cas_tenant rq = scope_of isolated (rq_tenant rq)" and "\<forall>i. rq_up rq 1 i"
  shows "covers ops isolated (fst (upload_object ops sha rq h b s))"
proof (rule upload_object_cases [of ops sha rq h b s])
  assume eq: "upload_object ops sha rq h b s = upload_store ops sha rq h (effective_body rq b) s"
  let ?add = "add_hash ops (rq_up rq 1) h (rq_cas_tenant rq) (ob_cache s)"
  have mono: "may_exist ops t ?add x" if "may_exist ops t (ob_cache s) x" for t x
    using that by (simp add: add_hash_eq add_hashes_mono [OF assms(1)])
  have new: "may_exist ops (scope_of isolated (rq_tenant rq)) ?add h"
    using assms(4) by (simp add: add_hash_eq assms(3) add_hashes_may_exist(1) [OF assms(1)])
  show ?thesis
  proof (cases "store_object sha (rq_now rq) h (effective_body rq b) (rq_cas_tenant rq) (ob_files s)")
    case (Pair files' r)
    show ?thesis
    proof (cases r)
      case (Inl e)
      with Pair eq assms(2) show ?thesis by (simp add: upload_store_Inl)
    next
      case (Inr p)
      note out = upload_store_Inr [OF Pair [unfolded Inr], of ops]
      from out(2) out(3-5) show ?thesis
        unfolding eq using assms(2) mono new by (auto simp: covers_def)
    qed
  qed
qed (use assms(2) in simp)

text \<open>
  The batch check is exact while the filter covers the table: for a caller of the mode's
  scope the found hashes are those of the request that have a row in the scope and the missing
  ones are the others, whatever Redis commands fail during the check.
\<close>

theorem check_objects_batch_exact:
  assumes "covers ops isolated s" and "rq_cas_tenant rq = scope_of isolated (rq_tenant rq)"
  shows "set (fst (check_objects_batch ops rq hs s))
           = {h \<in> set hs. rows_for (ob_rows s) h (rq_cas_tenant rq) \<noteq> []}
    \<and> set (snd (check_objects_batch ops rq hs s))
           = {h \<in> set hs. rows_for (ob_rows s) h (rq_cas_tenant rq) = []}"
proof -
  let ?t = "rq_cas_tenant rq"
  let ?ex = "check_hashes_exist ops (rq_up rq 0) hs ?t (ob_cache s)"
  have yes: "dget_or ?ex h True" if "h \<in> set hs" "rows_for (ob_rows s) h ?t \<noteq> []" for h
    using check_hashes_exist_dget(1) [OF that(1), of ops "rq_up rq 0" ?t "ob_cache s"]
      may_exist_scope [OF assms that(2)]
    by (auto simp: dget_or_def)
  have found: "fst (check_objects_batch ops rq hs s) = map or_hash (filter (\<lambda>r. or_hash r \<in> set hs
      \<and> dget_or ?ex (or_hash r) True \<and> (?t = None \<or> ?t = Some (or_tenant r))) (ob_rows s))"
    by (simp add: check_objects_batch_def Let_def)
  have rows: "rows_for (ob_rows s) h ?t \<noteq> [] \<longleftrightarrow>
      (\<exists>r \<in> set (ob_rows s). or_hash r = h \<and> (?t = None \<or> ?t = Some (or_tenant r)))" for h
    by (auto simp: rows_for_def filter_empty_conv)
  have *: "set (fst (check_objects_batch ops rq hs s))
           = {h \<in> set hs. rows_for (ob_rows s) h ?t \<noteq> []}"
    unfolding found using yes by (auto simp: rows)
  have "set (snd (check_objects_batch ops rq hs s))
      = set hs - set (fst (check_objects_batch ops rq hs s))"
    using yes by (auto simp: check_objects_batch_def Let_def rows)
  then show ?thesis unfolding * by auto
qed

lemma check_objects_batch_exact_witness:
  "set (snd (check_objects_batch exact_ops toy_request [''aa'', ''bb'']
     \<lparr>ob_files = [], ob_rows = [\<lparr>or_tenant = ''t'', or_hash = ''aa'', or_size = 1, or_created = None\<rparr>],
      ob_cache = \<lparr>bloom_available = True, filters = [(''av:hash_filter:t'', {''aa''})]\<rparr>\<rparr>)) = {''bb''}"
  (is "set (snd (check_objects_batch _ _ ?hs ?s)) = _")
proof -
  have "covers exact_ops True ?s"
    by (simp add: covers_def may_exist_def scope_of_def cmd_exists_def filter_name_def
        FILTER_NAME_def exact_ops_def)
  from check_objects_batch_exact [OF this, of toy_request ?hs] show ?thesis
    by (auto simp: scope_of_def toy_request_def rows_for_def split: if_splits)
qed

end
