(* ===== verification/GcSweep.thy ===== *)
theory GcSweep
  imports GcMark ObjectStore
begin

text \<open>
  The sweep of \<open>server.py::run_garbage_collection\<close> over the object store: dead object rows (per
  tenant in isolated mode, by hash in shared mode), dead tree rows, orphaned shard files, the
  Bloom filter rebuild and the retention sweeps. The mark phase is the theory GcMark.
\<close>

section \<open>State\<close>

datatype delivery_status = Pending | Delivered | Failed | Dead

record 'f registry =
  rg_trees :: "tree_row list"
  rg_roots :: "(tenant \<times> hash option) list"
  rg_store :: "'f objects"
  rg_events :: "int list"
  rg_audit :: "int list"
  rg_deliveries :: "(delivery_status \<times> int) list"

text \<open>The operator's settings: isolation mode, grace and retention windows, delete batch. \<open>gc_up j i\<close> says
  whether the i-th Redis command of the j-th cache call of a collection succeeds.\<close>

record gc_config =
  gc_isolated :: bool
  gc_grace :: int
  gc_event_retention :: int
  gc_audit_retention :: int
  gc_batch :: nat
  gc_up :: "nat \<Rightarrow> nat \<Rightarrow> bool"

section \<open>Deleting rows in batches\<close>

text \<open>\<open>DELETE ... WHERE key IN batch\<close>, one statement for every \<open>_GC_DELETE_BATCH\<close> keys.\<close>

definition delete_batches :: "nat \<Rightarrow> ('r \<Rightarrow> 'k) \<Rightarrow> 'k list \<Rightarrow> 'r list \<Rightarrow> 'r list" where
  "delete_batches n key dead rows =
     foldl (\<lambda>rs batch. filter (\<lambda>r. key r \<notin> set batch) rs) rows (chunks_of n dead)"

definition too_young :: "int option \<Rightarrow> int \<Rightarrow> bool" where
  "too_young created cutoff = (case created of None \<Rightarrow> False | Some c \<Rightarrow> \<not> c < cutoff)"

definition sweep_rows ::
  "gc_config \<Rightarrow> int \<Rightarrow> (tenant, hash set) dict \<Rightarrow> hash set \<Rightarrow> object_row list \<Rightarrow> object_row list" where
  "sweep_rows cfg cutoff alive_by_tenant alive rows =
     (if gc_isolated cfg then
        let dead = remdups (map (\<lambda>r. (or_tenant r, or_hash r)) (filter (\<lambda>r.
              or_hash r \<notin> dget_or alive_by_tenant (or_tenant r) {}
              \<and> \<not> too_young (or_created r) cutoff) rows))
        in delete_batches (gc_batch cfg) (\<lambda>r. (or_tenant r, or_hash r)) dead rows
      else
        let dead = remdups (map or_hash (filter (\<lambda>r.
              or_hash r \<notin> alive \<and> \<not> too_young (or_created r) cutoff) rows))
        in delete_batches (gc_batch cfg) or_hash dead rows)"

definition sweep_trees :: "gc_config \<Rightarrow> hash set \<Rightarrow> hash set \<Rightarrow> tree_row list \<Rightarrow> tree_row list" where
  "sweep_trees cfg visited all_trees rows =
     (if visited = {} then rows
      else delete_batches (gc_batch cfg) tr_tree_hash
             (filter (\<lambda>th. th \<notin> visited) (sorted_list_of_set all_trees)) rows)"

text \<open>\<open>purge_orphans\<close>: the flat files against the union, the scoped ones against their tenant.\<close>

fun file_alive :: "(tenant, hash set) dict \<Rightarrow> hash set \<Rightarrow> obj_path \<Rightarrow> bool" where
  "file_alive alive_by_tenant alive (Flat d n) \<longleftrightarrow> d @ n \<in> alive"
| "file_alive alive_by_tenant alive (Scoped t d n) \<longleftrightarrow> d @ n \<in> dget_or alive_by_tenant t {}"

definition purge_orphans ::
  "int \<Rightarrow> (tenant, hash set) dict \<Rightarrow> hash set \<Rightarrow> obj_files \<Rightarrow> obj_files \<times> nat" where
  "purge_orphans grace_ts alive_by_tenant alive files =
     (let keep = (\<lambda>(p, f). file_alive alive_by_tenant alive p \<or> grace_ts \<le> of_mtime f)
      in (filter keep files, length (filter (\<lambda>e. \<not> keep e) files)))"

text \<open>The Bloom rebuild: three cache calls for each filter.\<close>

fun rebuild_tenants ::
  "'f bloom_ops \<Rightarrow> (nat \<Rightarrow> nat \<Rightarrow> bool) \<Rightarrow> nat \<Rightarrow> (tenant \<times> hash set) list \<Rightarrow> 'f cache \<Rightarrow> nat \<times> 'f cache" where
  "rebuild_tenants ops up j [] c = (j, c)"
| "rebuild_tenants ops up j ((t, alive) # ts) c =
     rebuild_tenants ops up (j + 3) ts
       (add_hashes ops (up (j + 2)) (sorted_list_of_set alive) (Some t)
          (init_filter ops (up (j + 1)) (Some t) (reset_filter (up j) (Some t) c)))"

definition rebuild_bloom ::
  "'f bloom_ops \<Rightarrow> gc_config \<Rightarrow> (tenant, hash set) dict \<Rightarrow> hash set \<Rightarrow> 'f cache \<Rightarrow> 'f cache" where
  "rebuild_bloom ops cfg alive_by_tenant alive c =
     (let c1 = init_filter ops (gc_up cfg 1) None (reset_filter (gc_up cfg 0) None c);
          (j, c2) = (if gc_isolated cfg then rebuild_tenants ops (gc_up cfg) 2 alive_by_tenant c1 else (2, c1))
      in add_hashes ops (gc_up cfg j) (sorted_list_of_set alive) None c2)"

record gc_report =
  gr_alive :: nat
  gr_deleted :: nat
  gr_trees :: nat
  gr_bloom :: bool

definition run_garbage_collection ::
  "'f bloom_ops \<Rightarrow> gc_config \<Rightarrow> int \<Rightarrow> 'f registry \<Rightarrow> 'f registry \<times> gc_report http" where
  "run_garbage_collection ops cfg now s =
     (case mark_alive (rg_trees s) (rg_roots s) of (alive_by_tenant, visited_by_tenant, all_trees) \<Rightarrow>
        let cutoff = now - gc_grace cfg;
            alive = \<Union> (snd ` set alive_by_tenant);
            visited = \<Union> (snd ` set visited_by_tenant);
            rows' = sweep_rows cfg cutoff alive_by_tenant alive (ob_rows (rg_store s));
            trees' = sweep_trees cfg visited all_trees (rg_trees s)
        in case purge_orphans cutoff alive_by_tenant alive (ob_files (rg_store s)) of
             (files', deleted) \<Rightarrow>
          let rebuilt = 0 < deleted;
              cache' = (if rebuilt then rebuild_bloom ops cfg alive_by_tenant alive (ob_cache (rg_store s))
                        else ob_cache (rg_store s));
              event_cutoff = now - gc_event_retention cfg;
              audit_cutoff = now - gc_audit_retention cfg
          in (s\<lparr>rg_trees := trees',
                rg_store := \<lparr>ob_files = files', ob_rows = rows', ob_cache = cache'\<rparr>,
                rg_events := filter (\<lambda>ts. \<not> ts < event_cutoff) (rg_events s) @ [now],
                rg_audit := filter (\<lambda>ts. \<not> ts < audit_cutoff) (rg_audit s) @ [now],
                rg_deliveries := filter (\<lambda>(st, upd).
                  \<not> ((st = Delivered \<or> st = Dead) \<and> upd < event_cutoff)) (rg_deliveries s)\<rparr>,
              Reply 200 \<lparr>gr_alive = card alive, gr_deleted = deleted,
                         gr_trees = card visited, gr_bloom = rebuilt\<rparr>))"

section \<open>Batches do not matter\<close>

lemma foldl_filter_batches:
  "foldl (\<lambda>rs batch. filter (\<lambda>r. key r \<notin> set batch) rs) rows batches
     = filter (\<lambda>r. key r \<notin> set (concat batches)) rows"
  by (induction batches arbitrary: rows) (auto intro!: filter_cong)

lemma delete_batches_eq:
  "0 < n \<Longrightarrow> delete_batches n key dead rows = filter (\<lambda>r. key r \<notin> set dead) rows"
  by (simp add: delete_batches_def foldl_filter_batches)

section \<open>What the sweep keeps\<close>

text \<open>
  A hash is protected for a tenant when it is live for the tenant (isolated mode) or for any
  tenant (shared mode).
\<close>

definition all_live :: "tree_row list \<Rightarrow> (tenant \<times> hash option) list \<Rightarrow> hash set" where
  "all_live rs roots = {h. \<exists>t. h \<in> live_hashes rs roots t}"

definition all_live_trees :: "tree_row list \<Rightarrow> (tenant \<times> hash option) list \<Rightarrow> hash set" where
  "all_live_trees rs roots = {th. \<exists>t. th \<in> live_trees rs roots t}"

lemma dict_wf_mark_roots: "dict_wf acc \<Longrightarrow> dict_wf (mark_roots tbt roots acc)"
  by (induction roots arbitrary: acc) (auto split: prod.split)

lemma dict_wf_mark_alive:
  "dict_wf (fst (mark_alive rs roots))" "dict_wf (fst (snd (mark_alive rs roots)))"
  using dict_wf_mark_roots [of "[]" "group_rows rs []" roots]
  by (simp_all add: mark_alive_def Let_def)

lemma Union_values:
  assumes "dict_wf d"
  shows "\<Union> (snd ` set d) = {x. \<exists>k. x \<in> dget_or d k {}}"
proof -
  have "x \<in> dget_or d k {} \<longleftrightarrow> (\<exists>v. (k, v) \<in> set d \<and> x \<in> v)" for k x
    using assms by (auto simp: dict_wf_get dget_or_def split: option.splits)
  then show ?thesis by force
qed

lemma mark_alive_union:
  "\<Union> (snd ` set (fst (mark_alive rs roots))) = all_live rs roots"
  "\<Union> (snd ` set (fst (snd (mark_alive rs roots)))) = all_live_trees rs roots"
  by (simp_all add: Union_values dict_wf_mark_alive mark_alive_alive mark_alive_visited
      all_live_def all_live_trees_def)


section \<open>Sweeping dead trees keeps every reachable tree\<close>

definition keep_trees :: "hash set \<Rightarrow> tree_row list \<Rightarrow> tree_row list" where
  "keep_trees A rs = filter (\<lambda>r. tr_tree_hash r \<in> A) rs"

lemma tenant_rows_keep:
  "tenant_rows (keep_trees A rs) t th = (if th \<in> A then tenant_rows rs t th else [])"
  by (cases "th \<in> A") (auto simp: tenant_rows_def keep_trees_def filter_empty_conv intro!: filter_cong)

lemma child_hashes_keep:
  "child_hashes (tenant_map (keep_trees A rs) t) th
     = (if th \<in> A then child_hashes (tenant_map rs t) th else [])"
  by (simp add: child_hashes_def tenant_rows_keep)

lemma anc_keep_sound:
  assumes "trees.anc (tenant_map (keep_trees A rs) t) x y"
  shows "trees.anc (tenant_map rs t) x y"
  using assms unfolding trees.anc_def
  by (rule rtranclp_mono [THEN predicate2D, rotated])
    (auto simp: trees.edge_def child_hashes_keep split: if_splits)

lemma anc_keep_complete:
  assumes "trees.anc (tenant_map rs t) x y"
    and "\<And>z. trees.anc (tenant_map rs t) x z \<Longrightarrow> z \<in> A"
  shows "trees.anc (tenant_map (keep_trees A rs) t) x y"
  using assms(1) unfolding trees.anc_def
proof (induction rule: rtranclp_induct)
  case (step y z)
  with assms(2) [of y] have "trees.edge (tenant_map (keep_trees A rs) t) y z"
    by (simp add: trees.anc_def trees.edge_def child_hashes_keep)
  with step show ?case by (simp add: rtranclp.rtrancl_into_rtrancl)
qed simp

lemma live_trees_keep:
  assumes "all_live_trees rs roots \<subseteq> A"
  shows "live_trees (keep_trees A rs) roots t = live_trees rs roots t"
proof -
  have "th \<in> reachable_trees (tenant_map (keep_trees A rs) t) r
      \<longleftrightarrow> th \<in> reachable_trees (tenant_map rs t) r" if "(t, r) \<in> set roots" for th r
  proof -
    have "z \<in> A" if "r = Some x" "x \<noteq> []" "trees.anc (tenant_map rs t) x z" for x z
      using assms that \<open>(t, r) \<in> set roots\<close>
      by (fastforce simp: all_live_trees_def live_trees_def reachable_trees_def)
    then show ?thesis
      by (auto simp: reachable_trees_def intro: anc_keep_sound anc_keep_complete)
  qed
  then show ?thesis by (auto simp: live_trees_def)
qed

lemma live_hashes_keep:
  assumes "all_live_trees rs roots \<subseteq> A"
  shows "live_hashes (keep_trees A rs) roots t = live_hashes rs roots t"
proof -
  have "th \<in> A" if "th \<in> live_trees rs roots t" for th
    using assms that by (auto simp: all_live_trees_def)
  then show ?thesis
    by (auto simp: live_hashes_def live_trees_keep [OF assms] tenant_rows_keep)
qed

lemma all_tree_hashes:
  "snd (snd (mark_alive rs roots)) = tr_tree_hash ` set rs"
proof -
  have keys: "\<Union> ((\<lambda>tm. fst ` set (snd tm)) ` set (group_rows rs acc))
      = tr_tree_hash ` set rs \<union> \<Union> ((\<lambda>tm. fst ` set (snd tm)) ` set acc)" if "dict_wf acc" for acc
    using that
  proof (induction rs arbitrary: acc)
    case (Cons r rs)
    let ?tm = "dget_or acc (tr_tenant r) []"
    let ?acc = "dset acc (tr_tenant r)
       (dset ?tm (tr_tree_hash r) (rows_of ?tm (tr_tree_hash r) @ [r]))"
    have un: "\<Union> ((\<lambda>tm. fst ` set (snd tm)) ` set d) = {x. \<exists>k. x \<in> fst ` set (dget_or d k [])}"
      if "dict_wf d" for d :: "(tenant, tree_map) dict"
    proof -
      have "x \<in> fst ` set (dget_or d k []) \<longleftrightarrow> (\<exists>v. (k, v) \<in> set d \<and> x \<in> fst ` set v)" for k x
        using that by (cases "dget d k") (auto simp: dict_wf_get dget_or_def)
      then show ?thesis by force
    qed
    have "\<Union> ((\<lambda>tm. fst ` set (snd tm)) ` set ?acc)
        = insert (tr_tree_hash r) (\<Union> ((\<lambda>tm. fst ` set (snd tm)) ` set acc))"
    proof -
      have "x \<in> fst ` set (dget_or ?acc k [])
          \<longleftrightarrow> (k = tr_tenant r \<and> x = tr_tree_hash r) \<or> x \<in> fst ` set (dget_or acc k [])" for x k
        by (cases "k = tr_tenant r") simp_all
      then have "(\<exists>k. x \<in> fst ` set (dget_or ?acc k []))
          \<longleftrightarrow> x = tr_tree_hash r \<or> (\<exists>k. x \<in> fst ` set (dget_or acc k []))" for x
        by blast
      with Cons.prems show ?thesis by (simp add: un) blast
    qed
    with Cons.IH [of ?acc] Cons.prems show ?case by (auto simp: Let_def)
  qed simp
  show ?thesis by (simp add: mark_alive_def Let_def keys)
qed

lemma sweep_trees_eq:
  assumes "0 < gc_batch cfg"
  shows "sweep_trees cfg visited (tr_tree_hash ` set rs) rs
     = (if visited = {} then rs else keep_trees visited rs)"
  using assms by (auto simp: sweep_trees_def delete_batches_eq keep_trees_def intro!: filter_cong)

section \<open>The sweep in closed form\<close>

text \<open>What the sweep keeps: rows, files.\<close>

definition row_kept :: "gc_config \<Rightarrow> int \<Rightarrow> 'f registry \<Rightarrow> object_row \<Rightarrow> bool" where
  "row_kept cfg cutoff s r \<longleftrightarrow>
     (if gc_isolated cfg
      then \<forall>r' \<in> set (ob_rows (rg_store s)). or_tenant r' = or_tenant r \<and> or_hash r' = or_hash r \<longrightarrow>
             or_hash r \<in> live_hashes (rg_trees s) (rg_roots s) (or_tenant r)
             \<or> too_young (or_created r') cutoff
      else \<forall>r' \<in> set (ob_rows (rg_store s)). or_hash r' = or_hash r \<longrightarrow>
             or_hash r \<in> all_live (rg_trees s) (rg_roots s) \<or> too_young (or_created r') cutoff)"

fun file_live :: "'f registry \<Rightarrow> obj_path \<Rightarrow> bool" where
  "file_live s (Flat d n) \<longleftrightarrow> d @ n \<in> all_live (rg_trees s) (rg_roots s)"
| "file_live s (Scoped t d n) \<longleftrightarrow> d @ n \<in> live_hashes (rg_trees s) (rg_roots s) t"

lemma not_dead_iff:
  "k \<notin> set (remdups (map key (filter dead rows))) \<longleftrightarrow> (\<forall>r \<in> set rows. key r = k \<longrightarrow> \<not> dead r)"
  by auto

lemma sweep_rows_eq:
  assumes "0 < gc_batch cfg"
  shows "sweep_rows cfg cutoff (fst (mark_alive (rg_trees s) (rg_roots s)))
      (all_live (rg_trees s) (rg_roots s)) (ob_rows (rg_store s))
    = filter (row_kept cfg cutoff s) (ob_rows (rg_store s))"
proof (cases "gc_isolated cfg")
  case True
  then show ?thesis using assms
    unfolding sweep_rows_def Let_def if_P [OF True] delete_batches_eq [OF assms]
    by (intro filter_cong refl) (simp only: not_dead_iff, auto simp: mark_alive_alive row_kept_def)
next
  case False
  then show ?thesis using assms
    unfolding sweep_rows_def Let_def if_not_P [OF False] delete_batches_eq [OF assms]
    by (intro filter_cong refl) (simp only: not_dead_iff, auto simp: row_kept_def)
qed

lemma file_alive_live:
  "file_alive (fst (mark_alive (rg_trees s) (rg_roots s))) (all_live (rg_trees s) (rg_roots s)) p
     = file_live s p"
  by (cases p) (simp_all add: mark_alive_alive)

lemma gc_result:
  assumes "0 < gc_batch cfg"
  shows "ob_rows (rg_store (fst (run_garbage_collection ops cfg now s)))
           = filter (row_kept cfg (now - gc_grace cfg) s) (ob_rows (rg_store s))"
    and "ob_files (rg_store (fst (run_garbage_collection ops cfg now s)))
           = filter (\<lambda>(p, f). file_live s p \<or> now - gc_grace cfg \<le> of_mtime f) (ob_files (rg_store s))"
    and "rg_trees (fst (run_garbage_collection ops cfg now s))
           = (if all_live_trees (rg_trees s) (rg_roots s) = {} then rg_trees s
              else keep_trees (all_live_trees (rg_trees s) (rg_roots s)) (rg_trees s))"
    and "rg_roots (fst (run_garbage_collection ops cfg now s)) = rg_roots s"
proof -
  obtain abt vbt al where mk: "mark_alive (rg_trees s) (rg_roots s) = (abt, vbt, al)"
    by (metis prod_cases3)
  note un = mark_alive_union [of "rg_trees s" "rg_roots s", unfolded mk, simplified]
  note parts = sweep_rows_eq [OF assms, of "now - gc_grace cfg" s, unfolded mk, simplified]
    file_alive_live [of s, unfolded mk, simplified]
    all_tree_hashes [of "rg_trees s" "rg_roots s", unfolded mk, simplified]
    sweep_trees_eq [OF assms]
  show "ob_rows (rg_store (fst (run_garbage_collection ops cfg now s)))
      = filter (row_kept cfg (now - gc_grace cfg) s) (ob_rows (rg_store s))"
    and "ob_files (rg_store (fst (run_garbage_collection ops cfg now s)))
      = filter (\<lambda>(p, f). file_live s p \<or> now - gc_grace cfg \<le> of_mtime f) (ob_files (rg_store s))"
    and "rg_trees (fst (run_garbage_collection ops cfg now s))
      = (if all_live_trees (rg_trees s) (rg_roots s) = {} then rg_trees s
         else keep_trees (all_live_trees (rg_trees s) (rg_roots s)) (rg_trees s))"
    and "rg_roots (fst (run_garbage_collection ops cfg now s)) = rg_roots s"
    by (simp_all add: run_garbage_collection_def mk un parts Let_def purge_orphans_def)
qed


section \<open>What garbage collection guarantees\<close>

lemma scope_paths_live:
  assumes "h \<in> live_hashes (rg_trees s) (rg_roots s) t"
  shows "file_live s (object_path h None)" and "file_live s (object_path h (Some t))"
  using assms by (auto simp: object_path_def all_live_def)

lemma live_tree_in_all: "th \<in> live_trees rs roots t \<Longrightarrow> th \<in> all_live_trees rs roots"
  by (auto simp: all_live_trees_def)

text \<open>
  C1. Garbage collection never loses live data: for a hash live for a tenant, every download of it
  in the tenant's scope answers as before the collection, its object row in the tenant's scope is
  kept, and every row of every tree reachable from a commit of the tenant is kept.
\<close>

theorem gc_keeps_live:
  assumes "0 < gc_batch cfg"
    and "h \<in> live_hashes (rg_trees s) (rg_roots s) (rq_tenant rq)"
    and "rq_cas_tenant rq = scope_of (gc_isolated cfg) (rq_tenant rq)"
    and s': "s' = fst (run_garbage_collection ops cfg now s)"
  shows "download_object rq h (rg_store s') = download_object rq h (rg_store s)
    \<and> rows_for (ob_rows (rg_store s')) h (rq_cas_tenant rq)
        = rows_for (ob_rows (rg_store s)) h (rq_cas_tenant rq)
    \<and> (\<forall>th \<in> live_trees (rg_trees s) (rg_roots s) (rq_tenant rq).
         tenant_rows (rg_trees s') (rq_tenant rq) th = tenant_rows (rg_trees s) (rq_tenant rq) th)"
proof -
  note res = gc_result [OF assms(1), of ops now s, folded s']
  let ?t = "rq_tenant rq" and ?c = "rq_cas_tenant rq"
  have file_same: "dget (ob_files (rg_store s')) p = dget (ob_files (rg_store s)) p" if "file_live s p" for p
    using that by (simp add: res(2) dget_filter_all)
  have cases: "?c = None \<or> ?c = Some ?t" using assms(3) by (simp add: scope_of_def)
  note same = file_same [OF scope_paths_live(1) [OF assms(2)]] file_same [OF scope_paths_live(2) [OF assms(2)]]
  have "get_object_path h ?c (ob_files (rg_store s')) = get_object_path h ?c (ob_files (rg_store s))"
    using cases unfolding get_object_path_def has_key_dget by (auto simp: same)
  moreover have "p = object_path h None \<or> p = object_path h (Some ?t)"
    if "get_object_path h ?c (ob_files (rg_store s)) = Some p" for p
    using that cases by (auto simp: get_object_path_def split: if_splits)
  ultimately have "download_object rq h (rg_store s') = download_object rq h (rg_store s)"
    by (auto simp: download_object_def same split: option.split)
  moreover have "row_kept cfg (now - gc_grace cfg) s r"
    if "or_hash r = h" "?c = None \<or> ?c = Some (or_tenant r)" for r
    using that assms(2,3) by (auto simp: row_kept_def scope_of_def all_live_def)
  then have "rows_for (ob_rows (rg_store s')) h ?c = rows_for (ob_rows (rg_store s)) h ?c"
    by (auto simp: res(1) rows_for_def intro!: filter_cong)
  moreover have "tenant_rows (rg_trees s') ?t th = tenant_rows (rg_trees s) ?t th"
    if "th \<in> live_trees (rg_trees s) (rg_roots s) ?t" for th
    using live_tree_in_all [OF that] by (simp add: res(3) tenant_rows_keep)
  ultimately show ?thesis by blast
qed

text \<open>
  Garbage collection does not change what is reachable: for every tenant the live trees and
  the live hashes after a collection are those before it, in both isolation modes.
\<close>

theorem gc_preserves_liveness:
  assumes "0 < gc_batch cfg"
    and s': "s' = fst (run_garbage_collection ops cfg now s)"
  shows "live_trees (rg_trees s') (rg_roots s') t = live_trees (rg_trees s) (rg_roots s) t
    \<and> live_hashes (rg_trees s') (rg_roots s') t = live_hashes (rg_trees s) (rg_roots s) t"
  using gc_result(3,4) [OF assms(1), of ops now s, folded s']
    live_trees_keep [OF subset_refl, of "rg_trees s" "rg_roots s"]
    live_hashes_keep [OF subset_refl, of "rg_trees s" "rg_roots s"]
  by simp

lemma gc_all_live:
  assumes "0 < gc_batch cfg"
    and s': "s' = fst (run_garbage_collection ops cfg now s)"
  shows "live_hashes (rg_trees s') (rg_roots s') = live_hashes (rg_trees s) (rg_roots s)"
    and "all_live (rg_trees s') (rg_roots s') = all_live (rg_trees s) (rg_roots s)"
    and "all_live_trees (rg_trees s') (rg_roots s') = all_live_trees (rg_trees s) (rg_roots s)"
  using gc_result(3,4) [OF assms(1), of ops now s, folded s']
    live_trees_keep [OF subset_refl, of "rg_trees s" "rg_roots s"]
    live_hashes_keep [OF subset_refl, of "rg_trees s" "rg_roots s"]
  by (auto simp: all_live_def all_live_trees_def)

lemma gc_file_live:
  "0 < gc_batch cfg \<Longrightarrow> file_live (fst (run_garbage_collection ops cfg now s)) p = file_live s p"
  by (cases p) (simp_all add: gc_all_live [OF _ refl])

lemma gc_row_kept:
  assumes "0 < gc_batch cfg" and "row_kept cfg cutoff s r"
    and "cutoff = now - gc_grace cfg"
  shows "row_kept cfg cutoff (fst (run_garbage_collection ops cfg now s)) r"
  using assms(2) gc_result(1) [OF assms(1), of ops now s, folded assms(3)]
  by (auto simp: row_kept_def gc_all_live [OF assms(1) refl])

text \<open>
  Collecting is exact on files and idempotent: a collection keeps precisely the files that are
  live in their layout or younger than the grace period, and a second collection at the same
  time deletes no file, no object row and no tree row, and does not rebuild the filter.
\<close>

theorem gc_exact_idempotent:
  assumes "0 < gc_batch cfg"
    and s': "s' = fst (run_garbage_collection ops cfg now s)"
    and s'': "s'' = fst (run_garbage_collection ops cfg now s')"
  shows "set (ob_files (rg_store s')) =
           {(p, f) \<in> set (ob_files (rg_store s)). file_live s p \<or> now - gc_grace cfg \<le> of_mtime f}
    \<and> rg_store s'' = rg_store s' \<and> rg_trees s'' = rg_trees s'"
proof -
  note res = gc_result [OF assms(1), of ops now s, folded s']
  note res2 = gc_result [OF assms(1), of ops now s', folded s'']
  note live = gc_all_live [OF assms(1) s']
    gc_file_live [OF assms(1), of ops now s, folded s']
  have files: "ob_files (rg_store s'') = ob_files (rg_store s')"
    unfolding res2(2) by (auto simp: filter_id_conv res(2) live)
  have "row_kept cfg (now - gc_grace cfg) s' r" if "r \<in> set (ob_rows (rg_store s'))" for r
    using that gc_row_kept [OF assms(1), of "now - gc_grace cfg" s r now ops, folded s'] by (simp add: res(1))
  then have rows: "ob_rows (rg_store s'') = ob_rows (rg_store s')"
    unfolding res2(1) by (simp add: filter_id_conv)
  have trees: "rg_trees s'' = rg_trees s'"
    unfolding res2(3) live(3) unfolding res(3) by (simp add: keep_trees_def)
  obtain abt vbt al where mk: "mark_alive (rg_trees s') (rg_roots s') = (abt, vbt, al)"
    by (metis prod_cases3)
  have nodel: "snd (purge_orphans (now - gc_grace cfg) abt (\<Union> (snd ` set abt)) (ob_files (rg_store s'))) = 0"
    using file_alive_live [of s', unfolded mk, simplified]
      mark_alive_union(1) [of "rg_trees s'" "rg_roots s'", unfolded mk, simplified]
    by (auto simp: purge_orphans_def Let_def filter_empty_conv res(2) live)
  have "ob_cache (rg_store s'') = ob_cache (rg_store s')"
    using nodel unfolding s'' run_garbage_collection_def mk
    by (simp add: Let_def split_def)
  with files rows trees show ?thesis by (auto simp: res(2))
qed


section \<open>A concrete registry\<close>

definition sample_cfg :: gc_config where
  "sample_cfg = \<lparr>gc_isolated = False, gc_grace = 10, gc_event_retention = 1000,
     gc_audit_retention = 1000, gc_batch = 2, gc_up = (\<lambda>_ _. True)\<rparr>"

text \<open>\<open>aa\<close> is committed, \<open>bb\<close> is an old orphan, \<open>cc\<close> was uploaded within the grace period.\<close>

definition sample_registry :: "hash set registry" where
  "sample_registry =
     \<lparr>rg_trees = [\<lparr>tr_tenant = ''t'', tr_tree_hash = ''r'', tr_child = None, tr_object = Some ''aa'',
                   tr_layers = [], tr_chunks = []\<rparr>,
                  \<lparr>tr_tenant = ''t'', tr_tree_hash = ''old'', tr_child = None, tr_object = Some ''bb'',
                   tr_layers = [], tr_chunks = []\<rparr>],
      rg_roots = [(''t'', Some ''r'')],
      rg_store = \<lparr>ob_files = [(Flat ''aa'' [], \<lparr>of_data = ''x'', of_mtime = 1\<rparr>),
                               (Flat ''bb'' [], \<lparr>of_data = ''y'', of_mtime = 1\<rparr>),
                               (Flat ''cc'' [], \<lparr>of_data = ''z'', of_mtime = 95\<rparr>)],
                  ob_rows = [\<lparr>or_tenant = ''t'', or_hash = ''aa'', or_size = 1, or_created = Some 1\<rparr>,
                             \<lparr>or_tenant = ''t'', or_hash = ''bb'', or_size = 1, or_created = Some 1\<rparr>,
                             \<lparr>or_tenant = ''t'', or_hash = ''cc'', or_size = 1, or_created = Some 95\<rparr>],
                  ob_cache = \<lparr>bloom_available = True,
                              filters = [(FILTER_NAME, {''aa'', ''bb'', ''cc''})]\<rparr>\<rparr>,
      rg_events = [], rg_audit = [], rg_deliveries = []\<rparr>"

lemma sample_marks:
  "mark_alive (rg_trees sample_registry) (rg_roots sample_registry)
     = ([(''t'', {''aa''})], [(''t'', {''r''})], {''r'', ''old''})"
  by (simp add: sample_registry_def mark_alive_def Let_def rows_of_def dget_or_def truthy_def)

lemma sample_live: "''aa'' \<in> live_hashes (rg_trees sample_registry) (rg_roots sample_registry) ''t''"
  unfolding mark_alive_alive [symmetric] sample_marks by (simp add: dget_or_def)

definition sample_after :: "hash set registry" where
  "sample_after = fst (run_garbage_collection exact_ops sample_cfg 100 sample_registry)"

lemma gc_keeps_live_witness:
  "download_object (toy_request\<lparr>rq_cas_tenant := None\<rparr>) ''aa'' (rg_store sample_after)
     = download_object (toy_request\<lparr>rq_cas_tenant := None\<rparr>) ''aa'' (rg_store sample_registry)"
  by (rule gc_keeps_live [OF _ _ _ sample_after_def, THEN conjunct1])
    (simp_all add: sample_live sample_cfg_def toy_request_def scope_of_def)

lemma gc_preserves_liveness_witness:
  "''aa'' \<in> live_hashes (rg_trees sample_after) (rg_roots sample_after) ''t''"
  using gc_preserves_liveness [OF _ sample_after_def, of "''t''"] sample_live
  by (simp add: sample_cfg_def)

lemma gc_exact_idempotent_witness:
  "rg_store (fst (run_garbage_collection exact_ops sample_cfg 100 sample_after)) = rg_store sample_after"
  using gc_exact_idempotent [OF _ sample_after_def refl] by (simp add: sample_cfg_def)

text \<open>The rows, files and filter the collection leaves: \<open>cc\<close> stays stored, the filter forgets it.\<close>

lemma sample_after_store:
  "map or_hash (ob_rows (rg_store sample_after)) = [''aa'', ''cc'']"
  "map fst (ob_files (rg_store sample_after)) = [Flat ''aa'' [], Flat ''cc'' []]"
  "ob_cache (rg_store sample_after) = \<lparr>bloom_available = True, filters = [(FILTER_NAME, {''aa''})]\<rparr>"
  unfolding sample_after_def run_garbage_collection_def sample_marks
  by (simp_all add: sample_registry_def sample_cfg_def sweep_rows_def Let_def delete_batches_eq
      too_young_def purge_orphans_def rebuild_bloom_def init_filter_def reset_filter_def
      filter_name_def add_hashes_def chunks_of.simps cmd_madd_def exact_ops_def dget_or_def)

text \<open>
  The filter rebuild forgets objects the grace period protects: there is a registry whose
  filter covers its table, whose collection keeps the row and the file of an object uploaded
  within the grace period, and after which the batch check reports this stored object missing.
\<close>

lemma gc_forgets_young_objects:
  "covers exact_ops False (rg_store sample_registry)
   \<and> ''cc'' \<in> set (map or_hash (ob_rows (rg_store sample_after)))
   \<and> ''cc'' \<in> set (snd (check_objects_batch exact_ops (toy_request\<lparr>rq_cas_tenant := None\<rparr>)
        [''cc''] (rg_store sample_after)))"
proof -
  have "covers exact_ops False (rg_store sample_registry)"
    by (simp add: covers_def sample_registry_def scope_of_def may_exist_def cmd_exists_def exact_ops_def)
  moreover have "\<not> may_exist exact_ops None (ob_cache (rg_store sample_after)) ''cc''"
    by (simp add: may_exist_def sample_after_store cmd_exists_def exact_ops_def)
  then have "dget (check_hashes_exist exact_ops (\<lambda>_. True) [''cc''] None
      (ob_cache (rg_store sample_after))) ''cc'' = Some False"
    by (subst check_hashes_exist_dget(2)) simp_all
  then have "''cc'' \<in> set (snd (check_objects_batch exact_ops (toy_request\<lparr>rq_cas_tenant := None\<rparr>)
        [''cc''] (rg_store sample_after)))"
    by (simp add: check_objects_batch_def toy_request_def Let_def dget_or_def)
  ultimately show ?thesis by (simp add: sample_after_store)
qed

end
