(* ===== verification/RateLimit.thy ===== *)
theory RateLimit
  imports Base Complex_Main
begin

text \<open>
  The rate limiter \<open>rate_limit.py\<close> and its middleware: the limit grammar, the bucket classes, the
  in-process fixed-window limiter with its pruning of expired windows, and the Redis limiter.
  The clock is a rational argument of every operation.
\<close>

section \<open>Limits and bucket classes\<close>

record limit =
  max_requests :: int
  window_seconds :: int

definition UNIT_SECONDS :: "(string, int) dict" where
  "UNIT_SECONDS = [(''s'', 1), (''sec'', 1), (''second'', 1), (''m'', 60), (''min'', 60),
     (''minute'', 60), (''h'', 3600), (''hour'', 3600)]"

text \<open>Python's \<open>int(s)\<close> on ASCII text: blanks around, a sign, digits with single underscores between.\<close>

fun digits_value :: "int \<Rightarrow> bool \<Rightarrow> string \<Rightarrow> int option" where
  "digits_value acc after_digit [] = (if after_digit then Some acc else None)"
| "digits_value acc after_digit (c # cs) =
     (if is_digit c then digits_value (10 * acc + (of_char c - 48)) True cs
      else if c = CHR ''_'' \<and> after_digit then digits_value acc False cs
      else None)"

definition py_int :: "string \<Rightarrow> int option" where
  "py_int s = (case strip s of
       [] \<Rightarrow> None
     | c # cs \<Rightarrow>
         if c = CHR ''-'' then map_option uminus (digits_value 0 False cs)
         else if c = CHR ''+'' then digits_value 0 False cs
         else digits_value 0 False (c # cs))"

text \<open>\<open>Inl ()\<close> is the \<open>ValueError\<close>; \<open>Inr None\<close> a disabled bucket.\<close>

definition parse_limit :: "string option \<Rightarrow> unit + limit option" where
  "parse_limit spec =
     (case spec of None \<Rightarrow> Inr None
      | Some s \<Rightarrow>
          let cleaned = lower (strip s)
          in if cleaned = [] \<or> cleaned \<in> {''off'', ''disabled'', ''none''} then Inr None
             else case partition_on CHR ''/'' cleaned of (count_s, _, unit) \<Rightarrow>
               (case py_int (strip count_s) of
                  None \<Rightarrow> Inl ()
                | Some count \<Rightarrow>
                    (case dget UNIT_SECONDS (strip unit) of
                       None \<Rightarrow> Inl ()
                     | Some secs \<Rightarrow>
                         if count \<le> 0 then Inr None
                         else Inr (Some \<lparr>max_requests = count, window_seconds = secs\<rparr>))))"

definition GC_PREFIX :: string where
  "GC_PREFIX = ''/api/admin/gc''"

definition EXEMPT_PATHS :: "string list" where
  "EXEMPT_PATHS = [''/api/health'', ''/docs'', ''/openapi.json'', ''/redoc'']"

definition bucket_class_for :: "string \<Rightarrow> string option" where
  "bucket_class_for path =
     (if path \<in> set EXEMPT_PATHS \<or> \<not> startswith path ''/api/'' then None
      else if path = GC_PREFIX \<or> startswith path (GC_PREFIX @ ''/'') then Some ''gc''
      else if startswith path ''/api/events'' \<or> startswith path ''/api/webhooks'' then Some ''events''
      else Some ''default'')"

section \<open>The in-process limiter\<close>

type_synonym bucket_key = "string \<times> string"

record limiter =
  rl_limits :: "(string, limit option) dict"
  rl_buckets :: "(bucket_key, int \<times> rat) dict"
  rl_last_prune :: rat

definition PRUNE_INTERVAL_SECONDS :: rat where
  "PRUNE_INTERVAL_SECONDS = 300"

definition limit_for :: "limiter \<Rightarrow> string \<Rightarrow> limit option" where
  "limit_for l bucket = dget_or (rl_limits l) bucket None"

definition new_limiter :: "(string, limit option) dict \<Rightarrow> rat \<Rightarrow> limiter" where
  "new_limiter limits now = \<lparr>rl_limits = limits, rl_buckets = [], rl_last_prune = now\<rparr>"

text \<open>
  Only enabled classes ever enter the buckets (\<open>limiter_ok\<close> below), so the window lookup of the
  sweep does not fail.
\<close>

definition expired :: "limiter \<Rightarrow> rat \<Rightarrow> bucket_key \<Rightarrow> rat \<Rightarrow> bool" where
  "expired l now key window_start =
     (case limit_for l (snd key) of
        None \<Rightarrow> False
      | Some L \<Rightarrow> of_int (window_seconds L) \<le> now - window_start)"

definition maybe_prune :: "rat \<Rightarrow> limiter \<Rightarrow> limiter" where
  "maybe_prune now l =
     (if now - rl_last_prune l < PRUNE_INTERVAL_SECONDS then l
      else l\<lparr>rl_last_prune := now,
             rl_buckets := filter (\<lambda>(key, (_, window_start)). \<not> expired l now key window_start)
                             (rl_buckets l)\<rparr>)"

text \<open>One window update: the new bucket and the answer (\<open>Some\<close> retry-after when over the limit).\<close>

definition hit :: "limit \<Rightarrow> rat \<Rightarrow> (int \<times> rat) option \<Rightarrow> (int \<times> rat) \<times> int option" where
  "hit L now bucket =
     (case (case bucket of None \<Rightarrow> (0, now) | Some b \<Rightarrow> b) of (count, window_start) \<Rightarrow>
      case (if of_int (window_seconds L) \<le> now - window_start then (0, now)
            else (count, window_start)) of (count', start') \<Rightarrow>
        ((count' + 1, start'),
         if max_requests L < count' + 1
         then Some (max 1 \<lceil>of_int (window_seconds L) - (now - start')\<rceil>) else None))"

definition check :: "string \<Rightarrow> string \<Rightarrow> rat \<Rightarrow> limiter \<Rightarrow> limiter \<times> int option" where
  "check client bucket now l =
     (case limit_for l bucket of
        None \<Rightarrow> (l, None)
      | Some L \<Rightarrow>
          let l1 = maybe_prune now l;
              r = hit L now (dget (rl_buckets l1) (client, bucket))
          in (l1\<lparr>rl_buckets := dset (rl_buckets l1) (client, bucket) (fst r)\<rparr>, snd r))"

definition reset :: "rat \<Rightarrow> limiter \<Rightarrow> limiter" where
  "reset now l = l\<lparr>rl_buckets := [], rl_last_prune := now\<rparr>"

definition env_limits :: "(string, string) dict \<Rightarrow> unit + (string, limit option) dict" where
  "env_limits env =
     (case parse_limit (Some (dget_or env ''AV_RATE_LIMIT_GC'' ''10/minute'')) of
        Inl e \<Rightarrow> Inl e
      | Inr gc \<Rightarrow>
     (case parse_limit (Some (dget_or env ''AV_RATE_LIMIT_EVENTS'' [])) of
        Inl e \<Rightarrow> Inl e
      | Inr events \<Rightarrow>
     (case parse_limit (Some (dget_or env ''AV_RATE_LIMIT_DEFAULT'' [])) of
        Inl e \<Rightarrow> Inl e
      | Inr dflt \<Rightarrow> Inr [(''gc'', gc), (''events'', events), (''default'', dflt)])))"

definition build_limiter_from_env :: "(string, string) dict \<Rightarrow> rat \<Rightarrow> unit + limiter" where
  "build_limiter_from_env env now =
     (case env_limits env of Inl e \<Rightarrow> Inl e | Inr limits \<Rightarrow> Inr (new_limiter limits now))"

text \<open>The middleware: unlimited paths pass; an answer of the limiter is a 429 with its retry-after.\<close>

definition limit_request_rate ::
  "string \<Rightarrow> string \<Rightarrow> rat \<Rightarrow> limiter \<Rightarrow> limiter \<times> int option http" where
  "limit_request_rate client path now l =
     (case bucket_class_for path of
        None \<Rightarrow> (l, Reply 200 None)
      | Some bucket \<Rightarrow>
          (case check client bucket now l of
             (l', None) \<Rightarrow> (l', Reply 200 None)
           | (l', Some retry) \<Rightarrow> (l', Reply 429 (Some retry))))"

section \<open>The Redis limiter\<close>

text \<open>
  The counters of the Redis server; the script increments the counter of the window and sets its
  expiry on the first increment. The key is built from the bucket class, the client and the window.
\<close>

type_synonym window_key = "string \<times> string \<times> int"

record redis_limiter =
  rr_limits :: "(string, limit option) dict"
  rr_counts :: "(window_key, int) dict"

definition redis_incr :: "window_key \<Rightarrow> redis_limiter \<Rightarrow> redis_limiter \<times> int" where
  "redis_incr key l =
     (let n = dget_or (rr_counts l) key 0 + 1 in (l\<lparr>rr_counts := dset (rr_counts l) key n\<rparr>, n))"

text \<open>\<open>up\<close>: the script's round trip succeeds; \<open>ttl\<close>: the answer of \<open>TTL\<close>, \<open>None\<close> when it fails.\<close>

definition redis_check ::
  "bool \<Rightarrow> int option \<Rightarrow> string \<Rightarrow> string \<Rightarrow> rat \<Rightarrow> redis_limiter \<Rightarrow> redis_limiter \<times> int option" where
  "redis_check up ttl client bucket now l =
     (case dget_or (rr_limits l) bucket None of
        None \<Rightarrow> (l, None)
      | Some L \<Rightarrow>
          let window_id = \<lfloor>now / of_int (window_seconds L)\<rfloor>
          in if \<not> up then (l, None)
             else case redis_incr (bucket, client, window_id) l of (l', count) \<Rightarrow>
               (l', if max_requests L < count then
                      (let t = (case ttl of None \<Rightarrow> window_seconds L | Some t \<Rightarrow> t)
                       in Some (max 1 (if t \<noteq> 0 \<and> 0 < t then t else window_seconds L)))
                    else None))"


section \<open>Invariants of the limiter\<close>

definition limits_ok :: "(string, limit option) dict \<Rightarrow> bool" where
  "limits_ok limits \<longleftrightarrow>
     (\<forall>b L. dget limits b = Some (Some L) \<longrightarrow> 0 < max_requests L \<and> 0 < window_seconds L)"

definition limiter_ok :: "limiter \<Rightarrow> bool" where
  "limiter_ok l \<longleftrightarrow> dict_wf (rl_buckets l) \<and> limits_ok (rl_limits l)
     \<and> (\<forall>k c ws. dget (rl_buckets l) k = Some (c, ws) \<longrightarrow> limit_for l (snd k) \<noteq> None \<and> 0 < c)"

lemma UNIT_SECONDS_pos: "dget UNIT_SECONDS u = Some n \<Longrightarrow> n \<in> {1, 60, 3600}"
  by (auto simp: UNIT_SECONDS_def split: if_splits)

lemma parse_limit_pos:
  "parse_limit spec = Inr (Some L) \<Longrightarrow> 0 < max_requests L \<and> window_seconds L \<in> {1, 60, 3600}"
  by (auto simp: parse_limit_def Let_def split: option.splits if_splits prod.splits
      dest: UNIT_SECONDS_pos)

lemma env_limits_ok:
  assumes "env_limits env = Inr limits"
  shows "limits_ok limits"
proof -
  have "\<exists>spec. parse_limit spec = Inr (Some L)" if "dget limits b = Some (Some L)" for b L
    using assms that by (auto simp: env_limits_def split: sum.splits if_splits)
  then show ?thesis by (fastforce simp: limits_ok_def dest: parse_limit_pos)
qed

lemma limiter_ok_new [wf_intros]: "limits_ok limits \<Longrightarrow> limiter_ok (new_limiter limits now)"
  by (simp add: limiter_ok_def new_limiter_def)

lemma limit_for_simps [simp]:
  "limit_for (l\<lparr>rl_buckets := b\<rparr>) c = limit_for l c"
  "limit_for (l\<lparr>rl_last_prune := t\<rparr>) c = limit_for l c"
  "limit_for (maybe_prune now l) c = limit_for l c"
  by (simp_all add: limit_for_def maybe_prune_def)

lemma rl_limits_prune [simp]: "rl_limits (maybe_prune now l) = rl_limits l"
  by (simp add: maybe_prune_def)

lemma limit_for_pos:
  "limiter_ok l \<Longrightarrow> limit_for l b = Some L \<Longrightarrow> 0 < max_requests L \<and> 0 < window_seconds L"
  by (auto simp: limiter_ok_def limits_ok_def limit_for_def dget_or_def split: option.splits)

lemma dget_filter_wf:
  "dict_wf d \<Longrightarrow> dget (filter Q d) k
     = (case dget d k of None \<Rightarrow> None | Some v \<Rightarrow> if Q (k, v) then Some v else None)"
  by (induction d) (auto simp: dict_wf_def split: option.splits dest: map_of_SomeD
      intro!: map_of_eq_None_iff [THEN iffD2])

lemma dget_prune:
  assumes "limiter_ok l"
  shows "dget (rl_buckets (maybe_prune now l)) k = dget (rl_buckets l) k
    \<or> dget (rl_buckets (maybe_prune now l)) k = None
      \<and> (\<exists>c ws. dget (rl_buckets l) k = Some (c, ws) \<and> expired l now k ws)"
  using assms
  by (cases "dget (rl_buckets l) k")
    (auto simp: maybe_prune_def limiter_ok_def dget_filter_wf)

lemma limiter_ok_prune [wf_intros]: "limiter_ok l \<Longrightarrow> limiter_ok (maybe_prune now l)"
proof -
  assume ok: "limiter_ok l"
  have "dict_wf (rl_buckets (maybe_prune now l))"
    using ok by (simp add: maybe_prune_def limiter_ok_def)
  moreover have "dget (rl_buckets l) k = Some b" if "dget (rl_buckets (maybe_prune now l)) k = Some b" for k b
    using dget_prune [OF ok, of now k] that by auto
  ultimately show ?thesis using ok unfolding limiter_ok_def by (metis limit_for_simps(3) rl_limits_prune)
qed

lemma hit_count: "\<forall>c ws. b = Some (c, ws) \<longrightarrow> 0 < c \<Longrightarrow> 0 < fst (fst (hit L now b))"
  by (auto simp: hit_def split: option.splits if_splits)

lemma limiter_ok_check [wf_intros]:
  assumes "limiter_ok l"
  shows "limiter_ok (fst (check client bucket now l))"
proof (cases "limit_for l bucket")
  case (Some L)
  let ?l1 = "maybe_prune now l" and ?k = "(client, bucket)"
  have ok: "limiter_ok ?l1" by (rule limiter_ok_prune [OF assms])
  then have "0 < fst (fst (hit L now (dget (rl_buckets ?l1) ?k)))"
    by (intro hit_count) (auto simp: limiter_ok_def)
  with ok Some show ?thesis
    by (auto simp: check_def Let_def limiter_ok_def)
qed (use assms in \<open>simp add: check_def\<close>)

section \<open>Sequences of requests\<close>

record event =
  ev_key :: bucket_key
  ev_time :: rat

definition serve :: "limiter \<Rightarrow> event \<Rightarrow> limiter \<times> int option" where
  "serve l e = check (fst (ev_key e)) (snd (ev_key e)) (ev_time e) l"

fun run :: "limiter \<Rightarrow> event list \<Rightarrow> limiter \<times> (event \<times> int option) list" where
  "run l [] = (l, [])"
| "run l (e # es) =
     (case serve l e of (l', ans) \<Rightarrow>
      case run l' es of (l'', rest) \<Rightarrow> (l'', (e, ans) # rest))"

fun clock_ok :: "rat \<Rightarrow> event list \<Rightarrow> bool" where
  "clock_ok t [] \<longleftrightarrow> True"
| "clock_ok t (e # es) \<longleftrightarrow> t \<le> ev_time e \<and> clock_ok (ev_time e) es"

definition admitted :: "bucket_key \<Rightarrow> (event \<times> int option) list \<Rightarrow> nat" where
  "admitted k rs = length (filter (\<lambda>(e, ans). ev_key e = k \<and> ans = None) rs)"

lemma limiter_ok_serve [wf_intros]: "limiter_ok l \<Longrightarrow> limiter_ok (fst (serve l e))"
  by (simp add: serve_def limiter_ok_check)

lemma limiter_ok_run [wf_intros]: "limiter_ok l \<Longrightarrow> limiter_ok (fst (run l es))"
  by (induction es arbitrary: l) (simp_all add: split_def limiter_ok_serve)

lemma limit_for_serve [simp]: "limit_for (fst (serve l e)) b = limit_for l b"
  by (simp add: serve_def check_def Let_def split: option.split)

lemma limit_for_run [simp]: "limit_for (fst (run l es)) b = limit_for l b"
  by (induction es arbitrary: l) (simp_all add: split_def)

text \<open>One check seen from a key: the key's own hit, or at most the loss of an expired bucket.\<close>

lemma serve_own:
  assumes "limit_for l (snd k) = Some L" and "ev_key e = k"
  shows "dget (rl_buckets (fst (serve l e))) k
           = Some (fst (hit L (ev_time e) (dget (rl_buckets (maybe_prune (ev_time e) l)) k)))"
    and "snd (serve l e) = snd (hit L (ev_time e) (dget (rl_buckets (maybe_prune (ev_time e) l)) k))"
  using assms by (auto simp: serve_def check_def Let_def)

lemma serve_other:
  assumes "limiter_ok l" and "ev_key e \<noteq> k"
  shows "dget (rl_buckets (fst (serve l e))) k = dget (rl_buckets l) k
    \<or> dget (rl_buckets (fst (serve l e))) k = None
      \<and> (\<exists>c ws. dget (rl_buckets l) k = Some (c, ws) \<and> expired l (ev_time e) k ws)"
  using assms(2) dget_prune [OF assms(1), of "ev_time e" k]
  by (cases "limit_for l (snd (ev_key e))") (auto simp: serve_def check_def Let_def)

lemma expired_iff:
  "limit_for l (snd k) = Some L \<Longrightarrow> expired l now k ws \<longleftrightarrow> of_int (window_seconds L) \<le> now - ws"
  by (simp add: expired_def)

lemma hit_open:
  assumes "now - ws < of_int (window_seconds L)"
  shows "fst (hit L now (Some (c, ws))) = (c + 1, ws)"
    and "snd (hit L now (Some (c, ws))) = None \<longleftrightarrow> c + 1 \<le> max_requests L"
  using assms by (auto simp: hit_def)

lemma hit_fresh:
  assumes "0 < window_seconds L"
    and "\<forall>c ws. b = Some (c, ws) \<longrightarrow> of_int (window_seconds L) \<le> now - ws"
  shows "fst (hit L now b) = (1, now)" and "snd (hit L now b) = None \<longleftrightarrow> 1 \<le> max_requests L"
  using assms by (cases b; force simp: hit_def)+

lemma dget_prune_open:
  assumes "limiter_ok l" and "limit_for l (snd k) = Some L"
    and "dget (rl_buckets l) k = Some (c, ws)" and "now - ws < of_int (window_seconds L)"
  shows "dget (rl_buckets (maybe_prune now l)) k = Some (c, ws)"
  using dget_prune [OF assms(1), of now k] assms(3,4) by (auto simp: expired_iff [OF assms(2)])

lemma serve_other_open:
  assumes "limiter_ok l" and "limit_for l (snd k) = Some L" and "ev_key e \<noteq> k"
    and "dget (rl_buckets l) k = Some (c, ws)" and "ev_time e - ws < of_int (window_seconds L)"
  shows "dget (rl_buckets (fst (serve l e))) k = Some (c, ws)"
  using serve_other [OF assms(1,3)] assms(4,5) by (auto simp: expired_iff [OF assms(2)])

lemma admitted_Nil [simp]: "admitted k (snd (run l [])) = 0"
  by (simp add: admitted_def)

lemma admitted_Cons:
  "admitted k (snd (run l (e # es))) =
     (if ev_key e = k \<and> snd (serve l e) = None then 1 else 0)
     + admitted k (snd (run (fst (serve l e)) es))"
  by (simp add: split_def admitted_def)

declare run.simps [simp del]

text \<open>While the key's window is open, at most the rest of its budget is admitted.\<close>

lemma admitted_in_window:
  assumes "limiter_ok l" and "limit_for l (snd k) = Some L"
    and "dget (rl_buckets l) k = Some (c, ws)"
    and "\<forall>e \<in> set es. ev_time e < ws + of_int (window_seconds L)"
  shows "admitted k (snd (run l es)) \<le> nat (max_requests L - c)"
  using assms
proof (induction es arbitrary: l c)
  case (Cons e es)
  note ok = limiter_ok_serve [OF Cons.prems(1), of e] limit_for_serve [of l e, THEN trans, OF Cons.prems(2)]
  have "open": "ev_time e - ws < of_int (window_seconds L)" using Cons.prems(4) by (simp add: algebra_simps)
  have rest: "\<forall>e \<in> set es. ev_time e < ws + of_int (window_seconds L)" using Cons.prems(4) by simp
  show ?case
  proof (cases "ev_key e = k")
    case True
    note own = serve_own [OF Cons.prems(2) True, unfolded dget_prune_open [OF Cons.prems(1-3) "open"]
        hit_open [OF "open"]]
    from Cons.IH [OF ok own(1) rest] own(2) hit_open(2) [OF "open", of c] show ?thesis
      by (auto simp: admitted_Cons)
  next
    case False
    from Cons.IH [OF ok serve_other_open [OF Cons.prems(1,2) False Cons.prems(3) "open"] rest] False
    show ?thesis by (simp add: admitted_Cons)
  qed
qed simp

definition budget_left :: "limit \<Rightarrow> (int \<times> rat) option \<Rightarrow> nat" where
  "budget_left L b = (case b of None \<Rightarrow> 0 | Some (c, ws) \<Rightarrow> nat (max_requests L - c))"

lemma admitted_two_windows:
  assumes "limiter_ok l" and "limit_for l (snd k) = Some L"
    and "\<forall>e \<in> set es. t \<le> ev_time e \<and> ev_time e < t + of_int (window_seconds L)"
  shows "admitted k (snd (run l es))
    \<le> budget_left L (dget (rl_buckets l) k) + nat (max_requests L)"
  using assms
proof (induction es arbitrary: l)
  case (Cons e es)
  let ?now = "ev_time e" and ?l = "fst (serve l e)"
  let ?b = "dget (rl_buckets (maybe_prune ?now l)) k"
  note ok = limiter_ok_serve [OF Cons.prems(1), of e] limit_for_serve [of l e, THEN trans, OF Cons.prems(2)]
  have rest: "\<forall>e \<in> set es. t \<le> ev_time e \<and> ev_time e < t + of_int (window_seconds L)"
    using Cons.prems(3) by simp
  note IH = Cons.IH [OF ok rest]
  show ?case
  proof (cases "ev_key e = k")
    case own: True
    note own_check = serve_own [OF Cons.prems(2) own]
    show ?thesis
    proof (cases "\<exists>c ws. ?b = Some (c, ws) \<and> ?now - ws < of_int (window_seconds L)")
      case True
      then obtain c ws where b: "?b = Some (c, ws)" "?now - ws < of_int (window_seconds L)" by blast
      then have l: "dget (rl_buckets l) k = Some (c, ws)"
        using dget_prune [OF Cons.prems(1), of ?now k] by auto
      note own_check = own_check [unfolded b(1) hit_open [OF b(2)]]
      from IH own_check(2) hit_open(2) [OF b(2), of c] show ?thesis
        by (auto simp: admitted_Cons budget_left_def l own_check(1))
    next
      case False
      have pos: "0 < max_requests L" "0 < window_seconds L"
        using limit_for_pos [OF Cons.prems(1,2)] by simp_all
      have "fst (hit L ?now ?b) = (1, ?now)"
        by (rule hit_fresh(1) [OF pos(2)]) (use False in force)
      with own_check(1) have new: "dget (rl_buckets ?l) k = Some (1, ?now)" by simp
      have "\<forall>e \<in> set es. ev_time e < ?now + of_int (window_seconds L)"
        using Cons.prems(3) by fastforce
      from admitted_in_window [OF ok new this] pos(1) show ?thesis by (auto simp: admitted_Cons)
    qed
  next
    case False
    have "budget_left L (dget (rl_buckets ?l) k) \<le> budget_left L (dget (rl_buckets l) k)"
      using serve_other [OF Cons.prems(1) False] by (auto simp: budget_left_def)
    with IH False show ?thesis by (simp add: admitted_Cons)
  qed
qed simp

text \<open>
  C15. The limit holds under any interleaving: whatever requests of whatever clients came before
  (also with a clock that jumps) and whatever other clients do meanwhile, a client is admitted at
  most twice the configured number of requests of a bucket class in any period of one window,
  pruning included; this is the fixed-window guarantee of the module.
\<close>

theorem window_limit_enforced:
  assumes "limits_ok limits" and "dget limits (snd k) = Some (Some L)"
    and "\<forall>e \<in> set es. t \<le> ev_time e \<and> ev_time e < t + of_int (window_seconds L)"
  shows "admitted k (snd (run (fst (run (new_limiter limits start) before)) es))
    \<le> 2 * nat (max_requests L)"
proof -
  let ?l = "fst (run (new_limiter limits start) before)"
  have ok: "limiter_ok ?l" by (intro limiter_ok_run limiter_ok_new assms(1))
  have L: "limit_for ?l (snd k) = Some L"
    unfolding limit_for_run using assms(2) by (simp add: limit_for_def new_limiter_def)
  have "budget_left L (dget (rl_buckets ?l) k) \<le> nat (max_requests L)"
  proof (cases "dget (rl_buckets ?l) k")
    case (Some b)
    then have "0 < fst b" using ok unfolding limiter_ok_def by (metis prod.collapse)
    with Some show ?thesis by (auto simp: budget_left_def split: prod.split)
  qed (simp add: budget_left_def)
  with admitted_two_windows [OF ok L assms(3)] show ?thesis by simp
qed


definition sample_limits :: "(string, limit option) dict" where
  "sample_limits = [(''gc'', Some \<lparr>max_requests = 2, window_seconds = 60\<rparr>), (''default'', None)]"

definition gc_hit :: "rat \<Rightarrow> event" where
  "gc_hit t = \<lparr>ev_key = (''10.0.0.1'', ''gc''), ev_time = t\<rparr>"

lemma limits_ok_sample: "limits_ok sample_limits"
  by (simp add: limits_ok_def sample_limits_def)

lemma window_limit_enforced_witness:
  "admitted (''10.0.0.1'', ''gc'')
     (snd (run (fst (run (new_limiter sample_limits 0) [gc_hit 50])) [gc_hit 55, gc_hit 58, gc_hit 112])) \<le> 4"
  using window_limit_enforced [OF limits_ok_sample,
      of "(''10.0.0.1'', ''gc'')" "\<lparr>max_requests = 2, window_seconds = 60\<rparr>"
        "[gc_hit 55, gc_hit 58, gc_hit 112]" 55 0 "[gc_hit 50]"]
  by (simp add: sample_limits_def gc_hit_def)

section \<open>Pruning is invisible\<close>

definition serve_unpruned :: "limiter \<Rightarrow> event \<Rightarrow> limiter \<times> int option" where
  "serve_unpruned l e =
     (case limit_for l (snd (ev_key e)) of
        None \<Rightarrow> (l, None)
      | Some L \<Rightarrow>
          let r = hit L (ev_time e) (dget (rl_buckets l) (ev_key e))
          in (l\<lparr>rl_buckets := dset (rl_buckets l) (ev_key e) (fst r)\<rparr>, snd r))"

fun run_unpruned :: "limiter \<Rightarrow> event list \<Rightarrow> int option list" where
  "run_unpruned l [] = []"
| "run_unpruned l (e # es) =
     (case serve_unpruned l e of (l', ans) \<Rightarrow> ans # run_unpruned l' es)"

text \<open>The simulation: a key the limiter has lost has an expired bucket in the unpruned limiter.\<close>

definition pruned_sim :: "rat \<Rightarrow> limiter \<Rightarrow> limiter \<Rightarrow> bool" where
  "pruned_sim now l u \<longleftrightarrow> limiter_ok l \<and> rl_limits u = rl_limits l
     \<and> (\<forall>k. dget (rl_buckets l) k = dget (rl_buckets u) k
          \<or> dget (rl_buckets l) k = None
            \<and> (\<exists>c ws. dget (rl_buckets u) k = Some (c, ws) \<and> expired l now k ws))"

lemma expired_mono: "expired l now k ws \<Longrightarrow> now \<le> now' \<Longrightarrow> expired l now' k ws"
  by (auto simp: expired_def split: option.splits)

lemma hit_expired:
  assumes "0 < window_seconds L" and "of_int (window_seconds L) \<le> now - ws"
  shows "hit L now (Some (c, ws)) = hit L now None"
  using assms by (auto simp: hit_def)

lemma pruned_sim_hit:
  assumes "pruned_sim now l u" and "limit_for l (snd k) = Some L"
  shows "hit L now (dget (rl_buckets l) k) = hit L now (dget (rl_buckets u) k)"
proof -
  have "0 < window_seconds L"
    using assms limit_for_pos by (auto simp: pruned_sim_def)
  moreover have "dget (rl_buckets l) k = dget (rl_buckets u) k
      \<or> dget (rl_buckets l) k = None
        \<and> (\<exists>c ws. dget (rl_buckets u) k = Some (c, ws) \<and> of_int (window_seconds L) \<le> now - ws)"
    using assms(1) unfolding pruned_sim_def expired_iff [OF assms(2), symmetric] by blast
  ultimately show ?thesis by (auto simp: hit_expired)
qed

lemma pruned_sim_later:
  assumes "pruned_sim t l u" and "t \<le> now"
  shows "pruned_sim now l u"
  using assms expired_mono unfolding pruned_sim_def by blast

lemma pruned_sim_prune:
  assumes "pruned_sim now l u"
  shows "pruned_sim now (maybe_prune now l) u"
proof -
  have ok: "limiter_ok l" using assms by (simp add: pruned_sim_def)
  have ex: "expired (maybe_prune now l) now k ws = expired l now k ws" for k ws
    by (simp add: expired_def)
  have "dget (rl_buckets (maybe_prune now l)) k = dget (rl_buckets u) k
      \<or> dget (rl_buckets (maybe_prune now l)) k = None
        \<and> (\<exists>c ws. dget (rl_buckets u) k = Some (c, ws) \<and> expired l now k ws)" for k
    using dget_prune [OF ok, of now k] assms unfolding pruned_sim_def by metis
  with assms ok show ?thesis by (simp add: pruned_sim_def ex limiter_ok_prune)
qed

lemma pruned_sim_serve:
  assumes "pruned_sim t l u" and "t \<le> ev_time e"
  shows "pruned_sim (ev_time e) (fst (serve l e)) (fst (serve_unpruned u e))
    \<and> snd (serve l e) = snd (serve_unpruned u e)"
proof -
  let ?now = "ev_time e"
  note sim = pruned_sim_prune [OF pruned_sim_later [OF assms]]
  have lim: "limit_for u b = limit_for l b" for b
    using assms(1) by (simp add: limit_for_def pruned_sim_def)
  show ?thesis
  proof (cases "limit_for l (snd (ev_key e))")
    case None
    then show ?thesis using pruned_sim_later [OF assms] lim
      by (simp add: serve_def check_def serve_unpruned_def)
  next
    case (Some L)
    have same: "hit L ?now (dget (rl_buckets (maybe_prune ?now l)) (ev_key e))
        = hit L ?now (dget (rl_buckets u) (ev_key e))"
      using pruned_sim_hit [OF sim] Some by simp
    have ok: "limiter_ok (fst (serve l e))"
      using assms(1) limiter_ok_serve by (simp add: pruned_sim_def)
    have ex: "expired (fst (serve l e)) ?now k ws = expired (maybe_prune ?now l) ?now k ws" for k ws
      by (simp add: expired_def)
    from sim same Some lim ok ex show ?thesis
      by (simp add: pruned_sim_def serve_def check_def serve_unpruned_def Let_def)
  qed
qed

lemma pruned_sim_run:
  "pruned_sim t l u \<Longrightarrow> clock_ok t es \<Longrightarrow> map snd (snd (run l es)) = run_unpruned u es"
proof (induction es arbitrary: t l u)
  case (Cons e es)
  from Cons.prems(2) have "t \<le> ev_time e" by simp
  note step = pruned_sim_serve [OF Cons.prems(1) this]
  with Cons.IH [of "ev_time e" "fst (serve l e)" "fst (serve_unpruned u e)"] Cons.prems(2)
  show ?case by (simp add: run.simps split_def)
qed (simp add: run.simps)

text \<open>
  C25. Pruning is invisible: on every sequence of requests with a monotonic clock the limiter, which
  drops expired buckets every 300 seconds, gives the answers of a limiter that never forgets a
  bucket, retry-after values included.
\<close>

theorem prune_invisible:
  assumes "limits_ok limits" and "clock_ok start es"
  shows "map snd (snd (run (new_limiter limits start) es)) = run_unpruned (new_limiter limits start) es"
  by (rule pruned_sim_run [OF _ assms(2)])
    (simp add: pruned_sim_def limiter_ok_new [OF assms(1)])

lemma prune_invisible_witness:
  "map snd (snd (run (new_limiter sample_limits 0) [gc_hit 1, gc_hit 2, gc_hit 3, gc_hit 400]))
     = run_unpruned (new_limiter sample_limits 0) [gc_hit 1, gc_hit 2, gc_hit 3, gc_hit 400]"
  by (rule prune_invisible [OF limits_ok_sample]) (simp add: gc_hit_def)

text \<open>
  Retry-after is honest: when a request is refused with retry-after \<open>r\<close>, then \<open>r\<close> is at least
  one second, and the client's next request of the class, sent \<open>r\<close> seconds later or at any later
  time, is admitted, whatever other clients do in between.
\<close>

theorem retry_after_sound:
  assumes "limiter_ok l" and "snd (serve l e) = Some r"
    and "\<forall>x \<in> set es. ev_key x \<noteq> ev_key e"
    and "ev_key e' = ev_key e" and "ev_time e + of_int r \<le> ev_time e'"
  shows "1 \<le> r \<and> snd (serve (fst (run (fst (serve l e)) es)) e') = None"
proof -
  let ?k = "ev_key e"
  obtain L where L: "limit_for l (snd ?k) = Some L"
    using assms(2) by (auto simp: serve_def check_def split: option.splits)
  have pos: "0 < max_requests L" "0 < window_seconds L" using limit_for_pos [OF assms(1) L] by simp_all
  obtain c ws where b: "dget (rl_buckets (fst (serve l e))) ?k = Some (c, ws)"
    and r: "r = max 1 \<lceil>of_int (window_seconds L) - (ev_time e - ws)\<rceil>"
    using serve_own [OF L refl] assms(2) by (fastforce simp: hit_def split: prod.splits if_splits)
  have late: "of_int (window_seconds L) \<le> ev_time e' - ws"
  proof -
    have "of_int (window_seconds L) - (ev_time e - ws) \<le> (of_int r :: rat)"
      unfolding r by (metis ceiling_le_iff max.cobounded2)
    with assms(5) show ?thesis by linarith
  qed
  have "dget (rl_buckets (fst (run m es))) ?k = None \<or> dget (rl_buckets (fst (run m es))) ?k = Some (c, ws)"
    if "limiter_ok m" "dget (rl_buckets m) ?k = None \<or> dget (rl_buckets m) ?k = Some (c, ws)" for m
    using that assms(3)
  proof (induction es arbitrary: m)
    case (Cons x es)
    have "dget (rl_buckets (fst (serve m x))) ?k = None
        \<or> dget (rl_buckets (fst (serve m x))) ?k = Some (c, ws)"
      using serve_other [OF Cons.prems(1), of x ?k] Cons.prems by auto
    from Cons.IH [OF limiter_ok_serve [OF Cons.prems(1)] this] Cons.prems(3) show ?case
      by (simp add: run.simps split_def)
  qed (simp add: run.simps)
  from this [OF limiter_ok_serve [OF assms(1), of e]] b
  have after: "dget (rl_buckets (fst (run (fst (serve l e)) es))) ?k \<in> {None, Some (c, ws)}" by auto
  let ?m = "fst (run (fst (serve l e)) es)"
  have ok: "limiter_ok ?m" by (intro limiter_ok_run limiter_ok_serve assms(1))
  have "limit_for ?m (snd ?k) = Some L" using L by simp
  from serve_own(2) [OF this assms(4)]
  have "snd (serve ?m e') = None"
    using hit_fresh(2) [OF pos(2), of "dget (rl_buckets (maybe_prune (ev_time e') ?m)) ?k" "ev_time e'"]
      dget_prune [OF ok, of "ev_time e'" ?k] after late pos(1) by auto
  then show ?thesis unfolding r by simp
qed

lemma retry_after_sound_witness:
  "snd (serve (fst (run (fst (serve (fst (run (new_limiter sample_limits 0) [gc_hit 1, gc_hit 2]))
      (gc_hit 3))) [])) (gc_hit 62)) = None"
proof -
  let ?l = "fst (run (new_limiter sample_limits 0) [gc_hit 1, gc_hit 2])"
  have "snd (serve ?l (gc_hit 3)) = Some 58"
    by (simp add: run.simps serve_def check_def hit_def new_limiter_def limit_for_def sample_limits_def
        gc_hit_def maybe_prune_def PRUNE_INTERVAL_SECONDS_def dget_or_def)
  from retry_after_sound [OF _ this, of "[]" "gc_hit 62"] show ?thesis
    by (simp add: gc_hit_def limiter_ok_run limiter_ok_new limits_ok_sample)
qed


section \<open>The Redis limiter counts served requests\<close>

record redis_event =
  re_client :: string
  re_bucket :: string
  re_time :: rat
  re_up :: bool
  re_ttl :: "int option"

fun redis_run :: "redis_limiter \<Rightarrow> redis_event list \<Rightarrow> redis_limiter \<times> (redis_event \<times> int option) list" where
  "redis_run l [] = (l, [])"
| "redis_run l (e # es) =
     (case redis_check (re_up e) (re_ttl e) (re_client e) (re_bucket e) (re_time e) l of (l', ans) \<Rightarrow>
      case redis_run l' es of (l'', rest) \<Rightarrow> (l'', (e, ans) # rest))"

definition in_window :: "limit \<Rightarrow> window_key \<Rightarrow> redis_event \<Rightarrow> bool" where
  "in_window L key e \<longleftrightarrow> re_up e
     \<and> key = (re_bucket e, re_client e, \<lfloor>re_time e / of_int (window_seconds L)\<rfloor>)"

lemma redis_run_counts:
  assumes "dget_or (rr_limits l) (fst key) None = Some L"
  shows "rr_limits (fst (redis_run l es)) = rr_limits l
    \<and> dget_or (rr_counts (fst (redis_run l es))) key 0
        = dget_or (rr_counts l) key 0 + int (length (filter (in_window L key) es))"
  using assms
proof (induction es arbitrary: l)
  case (Cons e es)
  let ?l = "fst (redis_check (re_up e) (re_ttl e) (re_client e) (re_bucket e) (re_time e) l)"
  have "rr_limits ?l = rr_limits l"
    and "dget_or (rr_counts ?l) key 0
        = dget_or (rr_counts l) key 0 + (if in_window L key e then 1 else 0)"
    using Cons.prems
    by (auto simp: redis_check_def redis_incr_def Let_def in_window_def split: option.splits)
  with Cons.IH [of ?l] Cons.prems show ?case by (simp add: split_def)
qed simp

text \<open>
  The shared limiter is exact per window: after any history of requests (some of them let
  through because Redis was down), a served request of an enabled class is refused iff at least the
  configured number of requests of the same client, class and window was served before it; a
  request whose Redis call fails is always let through.
\<close>

theorem redis_limit_exact:
  assumes "dget_or limits (re_bucket e) None = Some L"
  defines "key \<equiv> (re_bucket e, re_client e, \<lfloor>re_time e / of_int (window_seconds L)\<rfloor>)"
  shows "(snd (redis_check (re_up e) (re_ttl e) (re_client e) (re_bucket e) (re_time e)
            (fst (redis_run \<lparr>rr_limits = limits, rr_counts = []\<rparr> es))) \<noteq> None)
    = (re_up e \<and> max_requests L \<le> int (length (filter (in_window L key) es)))"
proof -
  have "dget_or (rr_limits \<lparr>rr_limits = limits, rr_counts = []\<rparr>) (fst key) None = Some L"
    using assms(1) by (simp add: key_def)
  from redis_run_counts [OF this, of es] assms(1) show ?thesis
    by (auto simp: redis_check_def redis_incr_def Let_def key_def)
qed

definition redis_hit :: "rat \<Rightarrow> redis_event" where
  "redis_hit t = \<lparr>re_client = ''c'', re_bucket = ''gc'', re_time = t, re_up = True, re_ttl = None\<rparr>"

lemma redis_limit_exact_witness:
  "snd (redis_check True None ''c'' ''gc'' 130
     (fst (redis_run \<lparr>rr_limits = sample_limits, rr_counts = []\<rparr> [redis_hit 121, redis_hit 122]))) \<noteq> None"
proof -
  let ?L = "\<lparr>max_requests = 2, window_seconds = 60\<rparr>" and ?es = "[redis_hit 121, redis_hit 122]"
  have two: "\<lfloor>(130 :: rat) / 60\<rfloor> = 2" "\<lfloor>(121 :: rat) / 60\<rfloor> = 2" "\<lfloor>(122 :: rat) / 60\<rfloor> = 2" "\<lfloor>(61 :: rat) / 30\<rfloor> = 2"
    by (simp_all add: floor_eq_iff)
  have "in_window ?L (''gc'', ''c'', \<lfloor>(130 :: rat) / 60\<rfloor>) (redis_hit t)" if "t \<in> {121, 122}" for t
    using that unfolding in_window_def two by (auto simp: redis_hit_def two simp del: floor_divide_eq_div_numeral)
  then have "length (filter (in_window ?L (''gc'', ''c'', \<lfloor>(130 :: rat) / 60\<rfloor>)) ?es) = 2" by simp
  with redis_limit_exact [of sample_limits "redis_hit 130" ?L ?es] show ?thesis
    by (simp add: sample_limits_def dget_or_def redis_hit_def del: redis_run.simps)
qed

end
