(* ===== verification/Json.thy ===== *)
theory Json
  imports Base
begin

text \<open>
  \<open>json.dumps\<close> of the Python standard library on the values the registry hashes: null, booleans,
  integers, strings (characters below 256), lists and objects, with the default separators and
  \<open>ensure_ascii\<close>; \<open>sort_keys=True\<close> sorts every object by key. The theory proves that rendering is
  injective, which turns a statement about equal digests into one about equal contents.
\<close>

section \<open>Rendering\<close>

datatype json =
    JNull
  | JBool bool
  | JInt int
  | JStr string
  | JList "json list"
  | JObj "(string \<times> json) list"

definition digit_char :: "nat \<Rightarrow> char" where
  "digit_char n = char_of (48 + n)"

fun nat_text :: "nat \<Rightarrow> string" where
  "nat_text n = (if n < 10 then [digit_char n] else nat_text (n div 10) @ [digit_char (n mod 10)])"

declare nat_text.simps [simp del]

definition int_text :: "int \<Rightarrow> string" where
  "int_text i = (if i < 0 then CHR ''-'' # nat_text (nat (- i)) else nat_text (nat i))"

definition hex_char :: "nat \<Rightarrow> char" where
  "hex_char n = (if n < 10 then char_of (48 + n) else char_of (87 + n))"

definition escape :: "char \<Rightarrow> string" where
  "escape c =
     (if c = CHR 0x22 then [CHR 0x5C, CHR 0x22]
      else if c = CHR 0x5C then [CHR 0x5C, CHR 0x5C]
      else if c = CHR 0x0A then [CHR 0x5C, CHR ''n'']
      else if c = CHR 0x0D then [CHR 0x5C, CHR ''r'']
      else if c = CHR 0x09 then [CHR 0x5C, CHR ''t'']
      else if c = CHR 0x0C then [CHR 0x5C, CHR ''f'']
      else if c = CHR 0x08 then [CHR 0x5C, CHR ''b'']
      else if 32 \<le> (of_char c :: nat) \<and> (of_char c :: nat) \<le> 126 then [c]
      else [CHR 0x5C, CHR ''u'', CHR ''0'', CHR ''0'',
            hex_char (of_char c div 16), hex_char (of_char c mod 16)])"

definition escapes :: "string \<Rightarrow> string" where
  "escapes s = concat (map escape s)"

definition quote :: "string \<Rightarrow> string" where
  "quote s = CHR 0x22 # escapes s @ [CHR 0x22]"

fun dumps :: "json \<Rightarrow> string" and dumps_items :: "json list \<Rightarrow> string"
  and dumps_fields :: "(string \<times> json) list \<Rightarrow> string" where
  "dumps JNull = ''null''"
| "dumps (JBool b) = (if b then ''true'' else ''false'')"
| "dumps (JInt i) = int_text i"
| "dumps (JStr s) = quote s"
| "dumps (JList js) = CHR ''['' # dumps_items js"
| "dumps (JObj fs) = CHR 0x7B # dumps_fields fs"
| "dumps_items [] = '']''"
| "dumps_items (j # js) = dumps j @ (if js = [] then '']'' else '', '' @ dumps_items js)"
| "dumps_fields [] = [CHR 0x7D]"
| "dumps_fields ((k, j) # fs) =
     quote k @ '': '' @ dumps j @ (if fs = [] then [CHR 0x7D] else '', '' @ dumps_fields fs)"

text \<open>\<open>sort_keys=True\<close>: every object is rendered in key order.\<close>

fun sort_keys :: "json \<Rightarrow> json" where
  "sort_keys (JList js) = JList (map sort_keys js)"
| "sort_keys (JObj fs) = JObj (sort_key fst (map (\<lambda>(k, j). (k, sort_keys j)) fs))"
| "sort_keys j = j"

definition dumps_sorted :: "json \<Rightarrow> string" where
  "dumps_sorted j = dumps (sort_keys j)"

section \<open>Numbers\<close>

lemma of_char_digit_char: "n < 10 \<Longrightarrow> (of_char (digit_char n) :: nat) = 48 + n"
  by (simp add: digit_char_def)

lemma is_digit_digit_char [simp]: "n < 10 \<Longrightarrow> is_digit (digit_char n)"
  by (simp add: is_digit_def of_char_digit_char Let_def)

lemma digit_char_inject: "m < 10 \<Longrightarrow> n < 10 \<Longrightarrow> digit_char m = digit_char n \<longleftrightarrow> m = n"
  by (metis of_char_digit_char add_left_cancel)

lemma nat_text_digits: "c \<in> set (nat_text n) \<Longrightarrow> is_digit c"
proof (induction n rule: nat_text.induct)
  case (1 n)
  from 1(2) show ?case
    by (subst (asm) nat_text.simps) (auto split: if_splits intro: 1(1))
qed

lemma nat_text_nonempty [simp]: "nat_text n \<noteq> []"
  by (subst nat_text.simps) simp

lemma nat_text_inject: "nat_text m = nat_text n \<longleftrightarrow> m = n"
proof (induction m arbitrary: n rule: nat_text.induct)
  case (1 m)
  show ?case
  proof
    assume eq: "nat_text m = nat_text n"
    have last: "last (nat_text k) = digit_char (k mod 10)" for k by (subst nat_text.simps) simp
    have len: "length (nat_text k) = 1 \<longleftrightarrow> k < 10" for k by (subst nat_text.simps) simp
    from eq have "digit_char (m mod 10) = digit_char (n mod 10)" using last by metis
    then have mods: "m mod 10 = n mod 10" by (simp add: digit_char_inject)
    show "m = n"
    proof (cases "m < 10")
      case True
      with eq len have "n < 10" by metis
      with True mods show ?thesis by simp
    next
      case False
      with eq len have n: "\<not> n < 10" by metis
      have "nat_text k = nat_text (k div 10) @ [digit_char (k mod 10)]" if "\<not> k < 10" for k
        using that by (subst nat_text.simps) simp
      with eq False n have "nat_text (m div 10) = nat_text (n div 10)" by simp
      with 1 [OF False, of "n div 10"] have "m div 10 = n div 10" by blast
      with mods show ?thesis by (metis div_mult_mod_eq)
    qed
  qed simp
qed

text \<open>What may follow a rendered value: nothing, or a character that is not a digit.\<close>

definition delimited :: "string \<Rightarrow> bool" where
  "delimited r \<longleftrightarrow> (r = [] \<or> \<not> is_digit (hd r))"

lemma delimited_simps [simp]: "delimited []" "delimited (c # r) \<longleftrightarrow> \<not> is_digit c"
  by (simp_all add: delimited_def)

lemma takeWhile_nat_text: "delimited r \<Longrightarrow> takeWhile is_digit (nat_text n @ r) = nat_text n"
  using nat_text_digits by (cases r) (simp_all add: takeWhile_append2)

lemma nat_text_append:
  assumes "nat_text m @ r = nat_text n @ r'" and "delimited r" and "delimited r'"
  shows "m = n \<and> r = r'"
proof -
  have "nat_text m = nat_text n" using assms takeWhile_nat_text by metis
  with assms(1) show ?thesis by (simp add: nat_text_inject)
qed

lemma nat_text_hd: "is_digit (hd (nat_text n @ r))"
  using nat_text_digits [of "hd (nat_text n)" n] by simp

lemma int_text_append:
  assumes "int_text i @ r = int_text j @ r'" and "delimited r" and "delimited r'"
  shows "i = j \<and> r = r'"
proof -
  have "\<not> is_digit (CHR ''-'')" by (simp add: is_digit_def)
  then have mixed: "CHR ''-'' # nat_text m @ x \<noteq> nat_text n @ y" for m n x y
    using nat_text_hd [of n y] by (metis list.sel(1))
  show ?thesis
  proof (cases "i < 0"; cases "j < 0")
    assume "i < 0" "j < 0"
    with assms(1) have "nat_text (nat (- i)) @ r = nat_text (nat (- j)) @ r'" by (simp add: int_text_def)
    from nat_text_append [OF this assms(2,3)] \<open>i < 0\<close> \<open>j < 0\<close> show ?thesis by (simp add: nat_eq_iff)
  next
    assume "\<not> i < 0" "\<not> j < 0"
    with assms(1) have "nat_text (nat i) @ r = nat_text (nat j) @ r'" by (simp add: int_text_def)
    from nat_text_append [OF this assms(2,3)] \<open>\<not> i < 0\<close> \<open>\<not> j < 0\<close> show ?thesis
      by (simp add: eq_nat_nat_iff)
  next
    assume "i < 0" "\<not> j < 0"
    with assms(1) mixed show ?thesis by (simp add: int_text_def)
  next
    assume "\<not> i < 0" "j < 0"
    with assms(1) mixed [symmetric] show ?thesis by (simp add: int_text_def)
  qed
qed

section \<open>Strings\<close>

definition hex_value :: "char \<Rightarrow> nat" where
  "hex_value c = (let n = of_char c in if n < 58 then n - 48 else n - 87)"

lemma hex_value_char: "n < 16 \<Longrightarrow> hex_value (hex_char n) = n"
  by (auto simp: hex_value_def hex_char_def Let_def)

text \<open>A decoder of one escaped character; it shows that escapes form a prefix code.\<close>

fun unescape :: "string \<Rightarrow> char \<times> string" where
  "unescape (c # r) =
     (if c \<noteq> CHR 0x5C then (c, r)
      else case r of [] \<Rightarrow> (c, r)
      | d # r' \<Rightarrow>
         if d = CHR ''n'' then (CHR 0x0A, r')
         else if d = CHR ''r'' then (CHR 0x0D, r')
         else if d = CHR ''t'' then (CHR 0x09, r')
         else if d = CHR ''f'' then (CHR 0x0C, r')
         else if d = CHR ''b'' then (CHR 0x08, r')
         else if d = CHR ''u'' then
           (char_of (16 * hex_value (r' ! 2) + hex_value (r' ! 3)), drop 4 r')
         else (d, r'))"
| "unescape [] = (CHR 0x00, [])"

lemma unescape_escape: "unescape (escape c @ r) = (c, r)"
proof -
  have "(of_char c :: nat) < 256" by (metis of_char_mod_256 mod_less_divisor zero_less_numeral)
  then have "(of_char c :: nat) div 16 < 16" by presburger
  then have "hex_value (hex_char (of_char c div 16)) = of_char c div 16"
    "hex_value (hex_char (of_char c mod 16)) = of_char c mod 16"
    by (simp_all add: hex_value_char)
  then show ?thesis by (simp add: escape_def)
qed

lemma escape_append: "escape c @ r = escape d @ r' \<Longrightarrow> c = d \<and> r = r'"
  by (metis unescape_escape prod.inject)

lemma escape_hd: "escape c @ r \<noteq> CHR 0x22 # r'"
  by (auto simp: escape_def)

lemma escapes_append:
  "escapes s @ CHR 0x22 # r = escapes t @ CHR 0x22 # r' \<Longrightarrow> s = t \<and> r = r'"
proof (induction s arbitrary: t)
  case Nil
  then show ?case by (cases t) (auto simp: escapes_def dest: escape_hd [THEN notE, OF sym])
next
  case (Cons c s)
  show ?case
  proof (cases t)
    case Nil
    with Cons.prems show ?thesis by (auto simp: escapes_def dest: escape_hd [THEN notE])
  next
    case (Cons d t')
    with Cons.prems have "escape c @ escapes s @ CHR 0x22 # r = escape d @ escapes t' @ CHR 0x22 # r'"
      by (simp add: escapes_def)
    from escape_append [OF this] Cons.IH [of t'] Cons show ?thesis by auto
  qed
qed

lemma quote_append: "quote s @ r = quote t @ r' \<Longrightarrow> s = t \<and> r = r'"
  by (auto simp: quote_def dest: escapes_append)


section \<open>Rendering is injective\<close>

text \<open>The first character tells the kind of value.\<close>

fun tag :: "json \<Rightarrow> nat" where
  "tag JNull = 0"
| "tag (JBool b) = (if b then 1 else 2)"
| "tag (JInt i) = 3"
| "tag (JStr s) = 4"
| "tag (JList js) = 5"
| "tag (JObj fs) = 6"

definition char_tag :: "char \<Rightarrow> nat" where
  "char_tag c =
     (if c = CHR ''n'' then 0 else if c = CHR ''t'' then 1 else if c = CHR ''f'' then 2
      else if is_digit c \<or> c = CHR ''-'' then 3 else if c = CHR 0x22 then 4
      else if c = CHR ''['' then 5 else if c = CHR 0x7B then 6 else 7)"

lemma dumps_nonempty [simp]: "dumps j \<noteq> []"
  by (cases j) (auto simp: int_text_def quote_def)

lemma is_digit_simps [simp]:
  "\<not> is_digit (CHR ''n'')" "\<not> is_digit (CHR ''t'')" "\<not> is_digit (CHR ''f'')" "\<not> is_digit (CHR ''-'')"
  "\<not> is_digit (CHR 0x22)" "\<not> is_digit (CHR ''['')" "\<not> is_digit (CHR '']'')"
  "\<not> is_digit (CHR 0x7B)" "\<not> is_digit (CHR 0x7D)" "\<not> is_digit (CHR '','')"
  by (simp_all add: is_digit_def)

lemma char_tag_digit: "is_digit c \<Longrightarrow> char_tag c = 3"
  by (auto simp: char_tag_def)

lemma char_tag_hd: "char_tag (hd (dumps j @ r)) = tag j"
proof (cases j)
  case (JInt i)
  have "char_tag (hd (nat_text n @ r)) = 3" for n
    by (rule char_tag_digit [OF nat_text_hd])
  moreover have "char_tag (CHR ''-'') = 3" by (simp add: char_tag_def)
  ultimately show ?thesis using JInt by (cases "i < 0") (simp_all add: int_text_def)
qed (auto simp: char_tag_def quote_def)

lemma same_tag: "dumps j @ r = dumps j' @ r' \<Longrightarrow> tag j = tag j'"
  by (metis char_tag_hd)

lemma dumps_not_bracket: "dumps j @ r \<noteq> CHR '']'' # r'"
  using char_tag_hd [of j r] by (cases j) (auto simp: char_tag_def split: if_splits)

lemma tag_elims:
  "tag j = 0 \<Longrightarrow> j = JNull" "tag j = 1 \<Longrightarrow> j = JBool True" "tag j = 2 \<Longrightarrow> j = JBool False"
  "tag j = 3 \<Longrightarrow> \<exists>i. j = JInt i" "tag j = 4 \<Longrightarrow> \<exists>s. j = JStr s"
  "tag j = 5 \<Longrightarrow> \<exists>js. j = JList js" "tag j = 6 \<Longrightarrow> \<exists>fs. j = JObj fs"
  by (cases j; simp split: if_splits)+

lemma dumps_append:
  "dumps j @ r = dumps j' @ r' \<Longrightarrow> delimited r \<Longrightarrow> delimited r' \<Longrightarrow> j = j' \<and> r = r'"
  "dumps_items js @ r = dumps_items js' @ r' \<Longrightarrow> js = js' \<and> r = r'"
  "dumps_fields fs @ r = dumps_fields fs' @ r' \<Longrightarrow> fs = fs' \<and> r = r'"
proof (induction j and js and fs arbitrary: j' r r' and js' r r' and fs' r r'
    rule: dumps_dumps_items_dumps_fields.induct)
  case (8 j js)
  show ?case
  proof (cases js')
    case Nil
    with "8.prems" dumps_not_bracket [of j] show ?thesis by auto
  next
    case (Cons j2 js2)
    let ?rest = "\<lambda>js r. (if js = [] then '']'' else '', '' @ dumps_items js) @ r"
    have "delimited (?rest js r)" "delimited (?rest js2 r')" by simp_all
    with "8.IH"(1) [of "?rest js r" j2 "?rest js2 r'"] "8.prems" Cons
    have eq: "j = j2" "?rest js r = ?rest js2 r'" by simp_all
    from eq(2) show ?thesis
      using "8.IH"(2) [of r js2 r'] eq(1) Cons by (auto split: if_splits)
  qed
next
  case (10 k j fs)
  show ?case
  proof (cases fs')
    case Nil
    with "10.prems" show ?thesis by (simp add: quote_def)
  next
    case (Cons kj fs2)
    obtain k2 j2 where kj: "kj = (k2, j2)" by (cases kj)
    let ?rest = "\<lambda>fs r. (if fs = [] then [CHR 0x7D] else '', '' @ dumps_fields fs) @ r"
    have "quote k @ '': '' @ dumps j @ ?rest fs r = quote k2 @ '': '' @ dumps j2 @ ?rest fs2 r'"
      using "10.prems" Cons kj by simp
    from quote_append [OF this] have k: "k = k2" and "dumps j @ ?rest fs r = dumps j2 @ ?rest fs2 r'"
      by auto
    moreover have "delimited (?rest fs r)" "delimited (?rest fs2 r')" by simp_all
    ultimately have eq: "j = j2" "?rest fs r = ?rest fs2 r'"
      using "10.IH"(1) [of "?rest fs r" j2 "?rest fs2 r'"] by simp_all
    from eq(2) show ?thesis
      using "10.IH"(2) [of r fs2 r'] eq(1) k Cons kj by (auto split: if_splits)
  qed
next
  case (3 i)
  from same_tag [OF 3(1)] have "tag j' = 3" by simp
  then obtain i' where j': "j' = JInt i'" using tag_elims(4) by blast
  from 3 int_text_append [of i r i' r'] show ?case unfolding j' by simp
next
  case (4 s)
  from same_tag [OF 4(1)] have "tag j' = 4" by simp
  then obtain s' where j': "j' = JStr s'" using tag_elims(5) by blast
  from 4 quote_append [of s r s' r'] show ?case unfolding j' by simp
next
  case (5 js)
  from same_tag [OF 5(2)] have "tag j' = 5" by simp
  then obtain js' where j': "j' = JList js'" using tag_elims(6) by blast
  from 5(2) have "dumps_items js @ r = dumps_items js' @ r'" unfolding j' by simp
  from 5(1) [OF this] show ?case unfolding j' by simp
next
  case (6 fs)
  from same_tag [OF 6(2)] have "tag j' = 6" by simp
  then obtain fs' where j': "j' = JObj fs'" using tag_elims(7) by blast
  from 6(2) have "dumps_fields fs @ r = dumps_fields fs' @ r'" unfolding j' by simp
  from 6(1) [OF this] show ?case unfolding j' by simp
next
  case 1
  from same_tag [OF 1(1)] have "tag j' = 0" by simp
  from 1 tag_elims(1) [OF this] show ?case by simp
next
  case (2 b)
  from same_tag [OF 2(1)] have "tag j' = tag (JBool b)" by simp
  then have "j' = JBool b" using tag_elims(2,3) by (cases b) simp_all
  with 2 show ?case by simp
next
  case 7
  show ?case
  proof (cases js')
    case (Cons j2 js2)
    with "7.prems" dumps_not_bracket [of j2] show ?thesis by (auto dest: sym)
  qed (use 7 in simp)
next
  case 9
  then show ?case by (cases fs') (auto simp: quote_def)
qed

lemma dumps_inject: "dumps j = dumps j' \<longleftrightarrow> j = j'"
  using dumps_append(1) [of j "[]" j' "[]"] by auto

lemma dumps_sorted_inject: "dumps_sorted j = dumps_sorted j' \<longleftrightarrow> sort_keys j = sort_keys j'"
  by (simp add: dumps_sorted_def dumps_inject)


section \<open>Digests\<close>

text \<open>Two texts with one digest: the alternative outcome of every statement about digests.\<close>

definition collision :: "(string \<Rightarrow> hash) \<Rightarrow> bool" where
  "collision sha \<longleftrightarrow> (\<exists>x y. x \<noteq> y \<and> sha x = sha y)"

section \<open>Reading parsed JSON\<close>

text \<open>\<open>body.get(k, dflt)\<close>; Python's truth value of a parsed value; \<open>x or y\<close>.\<close>

definition field :: "(string \<times> json) list \<Rightarrow> string \<Rightarrow> json \<Rightarrow> json" where
  "field fs k dflt = dget_or fs k dflt"

fun truthy :: "json \<Rightarrow> bool" where
  "truthy JNull = False"
| "truthy (JBool b) = b"
| "truthy (JInt i) = (i \<noteq> 0)"
| "truthy (JStr s) = (s \<noteq> [])"
| "truthy (JList js) = (js \<noteq> [])"
| "truthy (JObj fs) = (fs \<noteq> [])"

definition or_else :: "json \<Rightarrow> json \<Rightarrow> json" where
  "or_else x y = (if truthy x then x else y)"

fun obj_fields :: "json \<Rightarrow> (string \<times> json) list" where
  "obj_fields (JObj fs) = fs"
| "obj_fields _ = []"

fun is_obj :: "json \<Rightarrow> bool" where
  "is_obj (JObj _) = True"
| "is_obj _ = False"

fun is_str :: "json \<Rightarrow> bool" where
  "is_str (JStr _) = True"
| "is_str _ = False"

lemma truthy_or_else [simp]: "truthy (or_else x y) \<longleftrightarrow> truthy x \<or> truthy y"
  by (simp add: or_else_def)

end
