(* ===== verification/AuditChain.thy ===== *)
theory AuditChain
  imports Json
begin

text \<open>
  The audit log: the hash chain of \<open>audit_chain.py\<close>, its extension at flush time
  (\<open>database.py::_chain_audit_log\<close>, \<open>server.py::_audit\<close>), the two verifiers
  (\<open>server.py::verify_audit_chain\<close>, \<open>audit_chain_verify.py::verify_export\<close>), the retention prune
  and the filtered, cursor-paged listing. SHA-256 and the ed25519 functions are arguments; the
  statements about tampering end in a SHA-256 collision instead of assuming there is none.
\<close>

section \<open>Rows and the chain formula\<close>

record audit_row =
  a_id :: nat
  a_ts :: string
  a_username :: "string option"
  a_action :: string
  a_project :: "string option"
  a_status :: "int option"
  a_details :: json
  a_chain :: hash
  a_signature :: "string option"

definition opt_json :: "('a \<Rightarrow> json) \<Rightarrow> 'a option \<Rightarrow> json" where
  "opt_json f x = (case x of None \<Rightarrow> JNull | Some v \<Rightarrow> f v)"

definition chain_payload ::
  "hash option \<Rightarrow> string \<Rightarrow> string option \<Rightarrow> string \<Rightarrow> string option \<Rightarrow> int option \<Rightarrow> json \<Rightarrow> json" where
  "chain_payload prev ts username action project status details =
     JObj [(''prev'', opt_json JStr prev), (''ts'', JStr ts), (''username'', opt_json JStr username),
           (''action'', JStr action), (''project_id'', opt_json JStr project),
           (''status_code'', opt_json JInt status), (''details'', details)]"

definition compute_chain_hash ::
  "(string \<Rightarrow> hash) \<Rightarrow> hash option \<Rightarrow> string \<Rightarrow> string option \<Rightarrow> string \<Rightarrow> string option
   \<Rightarrow> int option \<Rightarrow> json \<Rightarrow> hash" where
  "compute_chain_hash sha prev ts username action project status details =
     sha (dumps_sorted (chain_payload prev ts username action project status details))"

definition row_hash :: "(string \<Rightarrow> hash) \<Rightarrow> hash option \<Rightarrow> audit_row \<Rightarrow> hash" where
  "row_hash sha prev r =
     compute_chain_hash sha prev (a_ts r) (a_username r) (a_action r) (a_project r) (a_status r)
       (a_details r)"

section \<open>Appending\<close>

text \<open>
  A pending row is created by \<open>_audit\<close> with the next value of the sequence counter; the flush
  sorts the pending rows by it and chains them after the stored row with the highest id.
\<close>

record pending_row =
  p_seq :: nat
  p_ts :: "string option"
  p_username :: "string option"
  p_action :: string
  p_project :: "string option"
  p_status :: "int option"
  p_details :: json

record audit_db =
  ad_rows :: "audit_row list"
  ad_next_id :: nat
  ad_next_seq :: nat
  ad_pending :: "pending_row list"

definition audit ::
  "bool \<Rightarrow> string option \<Rightarrow> string \<Rightarrow> string option \<Rightarrow> json \<Rightarrow> int option \<Rightarrow> audit_db \<Rightarrow> audit_db" where
  "audit enabled username action project details status db =
     (if enabled then
        db\<lparr>ad_pending := ad_pending db @
             [\<lparr>p_seq = ad_next_seq db, p_ts = None, p_username = username, p_action = action,
               p_project = project, p_status = status, p_details = details\<rparr>],
           ad_next_seq := Suc (ad_next_seq db)\<rparr>
      else db)"

fun chain_rows ::
  "(string \<Rightarrow> hash) \<Rightarrow> (hash \<Rightarrow> string option) \<Rightarrow> string \<Rightarrow> hash option \<Rightarrow> nat \<Rightarrow> pending_row list
   \<Rightarrow> audit_row list" where
  "chain_rows sha sign now prev i [] = []"
| "chain_rows sha sign now prev i (p # ps) =
     (let ts = (case p_ts p of None \<Rightarrow> now | Some t \<Rightarrow> t);
          h = compute_chain_hash sha prev ts (p_username p) (p_action p) (p_project p) (p_status p)
                (p_details p)
      in \<lparr>a_id = i, a_ts = ts, a_username = p_username p, a_action = p_action p,
           a_project = p_project p, a_status = p_status p, a_details = p_details p,
           a_chain = h, a_signature = sign h\<rparr>
         # chain_rows sha sign now (Some h) (Suc i) ps)"

definition last_chain :: "audit_row list \<Rightarrow> hash option" where
  "last_chain rows = (case rev rows of [] \<Rightarrow> None | r # _ \<Rightarrow> Some (a_chain r))"

definition chain_audit_log ::
  "(string \<Rightarrow> hash) \<Rightarrow> (hash \<Rightarrow> string option) \<Rightarrow> string \<Rightarrow> audit_db \<Rightarrow> audit_db" where
  "chain_audit_log sha sign now db =
     db\<lparr>ad_rows := ad_rows db
          @ chain_rows sha sign now (last_chain (ad_rows db)) (ad_next_id db) (sort_key p_seq (ad_pending db)),
        ad_next_id := ad_next_id db + length (ad_pending db),
        ad_pending := []\<rparr>"

text \<open>The retention sweep, by the prune route and by the garbage collection: rows before the cutoff go.\<close>

definition delete_audit_before :: "(string \<Rightarrow> bool) \<Rightarrow> audit_db \<Rightarrow> audit_db \<times> nat" where
  "delete_audit_before before_cutoff db =
     (db\<lparr>ad_rows := filter (\<lambda>r. \<not> before_cutoff (a_ts r)) (ad_rows db)\<rparr>,
      length (filter (\<lambda>r. before_cutoff (a_ts r)) (ad_rows db)))"

text \<open>
  The prune route. \<open>older d\<close> holds of the time stamps more than \<open>d\<close> days before the request. A dry run
  only counts; a real one deletes, commits, and commits an audit row of its own, at the end of the chain.
\<close>

definition prune_audit_log ::
  "(string \<Rightarrow> hash) \<Rightarrow> (hash \<Rightarrow> string option) \<Rightarrow> string \<Rightarrow> (int \<Rightarrow> string \<Rightarrow> bool) \<Rightarrow> bool \<Rightarrow> string option
   \<Rightarrow> int \<Rightarrow> bool \<Rightarrow> audit_db \<Rightarrow> json \<times> audit_db" where
  "prune_audit_log sha sign now older enabled username before_days dry_run db =
     (case delete_audit_before (older (max before_days 0)) db of (db', n) \<Rightarrow>
        if dry_run
        then (JObj [(''deleted'', JInt 0), (''would_delete'', JInt (int n)), (''dry_run'', JBool True)], db)
        else (JObj [(''deleted'', JInt (int n)), (''dry_run'', JBool False)],
              chain_audit_log sha sign now
                (audit enabled username ''audit.prune'' None
                   (JObj [(''deleted'', JInt (int n)), (''before_days'', JInt before_days)]) (Some 200)
                   (chain_audit_log sha sign now db'))))"

section \<open>Verifying\<close>

record signature_checks =
  sc_verified :: nat
  sc_failed :: nat
  sc_absent :: nat

datatype verdict =
    Broken nat nat signature_checks       \<comment> \<open>id of the first bad row, rows checked before it\<close>
  | Intact nat "nat option" signature_checks  \<comment> \<open>rows checked, last id\<close>

definition no_signatures :: signature_checks where
  "no_signatures = \<lparr>sc_verified = 0, sc_failed = 0, sc_absent = 0\<rparr>"

definition count_signature ::
  "(hash \<Rightarrow> string \<Rightarrow> string \<Rightarrow> bool) \<Rightarrow> string option \<Rightarrow> audit_row \<Rightarrow> signature_checks \<Rightarrow> signature_checks" where
  "count_signature verify_sig pub r sc =
     (case a_signature r of
        Some sig \<Rightarrow>
          (if sig = [] then sc\<lparr>sc_absent := sc_absent sc + 1\<rparr>
           else case pub of
               Some k \<Rightarrow> if k \<noteq> [] \<and> verify_sig (a_chain r) sig k
                          then sc\<lparr>sc_verified := sc_verified sc + 1\<rparr>
                          else sc\<lparr>sc_failed := sc_failed sc + 1\<rparr>
             | None \<Rightarrow> sc\<lparr>sc_failed := sc_failed sc + 1\<rparr>)
      | None \<Rightarrow> sc\<lparr>sc_absent := sc_absent sc + 1\<rparr>)"

fun verify_loop ::
  "(string \<Rightarrow> hash) \<Rightarrow> (hash \<Rightarrow> string \<Rightarrow> string \<Rightarrow> bool) \<Rightarrow> string option \<Rightarrow> nat option \<Rightarrow> hash option
   \<Rightarrow> audit_row list \<Rightarrow> nat \<Rightarrow> nat option \<Rightarrow> signature_checks \<Rightarrow> verdict" where
  "verify_loop sha vs pub dflt prev [] n lid sc =
     Intact n (case lid of None \<Rightarrow> dflt | Some i \<Rightarrow> Some i) sc"
| "verify_loop sha vs pub dflt prev (r # rs) n lid sc =
     (if row_hash sha prev r \<noteq> a_chain r then Broken (a_id r) n sc
      else verify_loop sha vs pub dflt (Some (a_chain r)) rs (Suc n) (Some (a_id r))
             (count_signature vs pub r sc))"

text \<open>\<open>limit = 0\<close> is the whole chain; \<open>since_id = 0\<close> its start.\<close>

definition verify_audit_chain ::
  "(string \<Rightarrow> hash) \<Rightarrow> (hash \<Rightarrow> string \<Rightarrow> string \<Rightarrow> bool) \<Rightarrow> string option \<Rightarrow> nat \<Rightarrow> nat
   \<Rightarrow> audit_row list \<Rightarrow> verdict http" where
  "verify_audit_chain sha vs pub since_id limit rows =
     (let later = filter (\<lambda>r. since_id < a_id r) rows;
          chosen = (if limit = 0 then later else take limit later)
      in if since_id = 0 then Reply 200 (verify_loop sha vs pub None None chosen 0 None no_signatures)
         else case filter (\<lambda>r. a_id r = since_id) rows of
             [] \<Rightarrow> Raise 404 ''no audit row''
           | r # _ \<Rightarrow> Reply 200
               (verify_loop sha vs pub (Some since_id) (Some (a_chain r)) chosen 0 None no_signatures))"

text \<open>The offline verifier over exported rows.\<close>

fun export_loop ::
  "(string \<Rightarrow> hash) \<Rightarrow> (hash \<Rightarrow> string \<Rightarrow> string \<Rightarrow> bool) \<Rightarrow> string option \<Rightarrow> hash option \<Rightarrow> audit_row list
   \<Rightarrow> nat \<Rightarrow> signature_checks \<Rightarrow> (nat \<times> nat \<times> signature_checks) + (nat \<times> signature_checks)" where
  "export_loop sha vs pub prev [] n sc = Inr (n, sc)"
| "export_loop sha vs pub prev (r # rs) n sc =
     (if row_hash sha prev r \<noteq> a_chain r then Inl (a_id r, n, sc)
      else export_loop sha vs pub (Some (a_chain r)) rs (Suc n) (count_signature vs pub r sc))"

definition verify_export ::
  "(string \<Rightarrow> hash) \<Rightarrow> (hash \<Rightarrow> string \<Rightarrow> string \<Rightarrow> bool) \<Rightarrow> string option \<Rightarrow> audit_row list \<Rightarrow> verdict" where
  "verify_export sha vs pub rows =
     (case export_loop sha vs pub None rows 0 no_signatures of
        Inl (i, n, sc) \<Rightarrow> Broken i n sc
      | Inr (n, sc) \<Rightarrow> Intact n (if rows = [] then None else Some (a_id (last rows))) sc)"

section \<open>What a row commits to\<close>

text \<open>The payload with the order of object keys abstracted away.\<close>

definition row_payload :: "hash option \<Rightarrow> audit_row \<Rightarrow> json" where
  "row_payload prev r = sort_keys (chain_payload prev (a_ts r) (a_username r) (a_action r)
     (a_project r) (a_status r) (a_details r))"

text \<open>The recorded content of a row: every field but the id, the chain hash and the signature.\<close>

definition content :: "audit_row \<Rightarrow> string \<times> string option \<times> string \<times> string option \<times> int option \<times> json" where
  "content r = (a_ts r, a_username r, a_action r, a_project r, a_status r, sort_keys (a_details r))"

lemma opt_json_inject:
  "opt_json JStr x = opt_json JStr y \<longleftrightarrow> x = y" "opt_json JInt i = opt_json JInt j \<longleftrightarrow> i = j"
  by (auto simp: opt_json_def split: option.splits)

lemma sort_keys_opt [simp]:
  "sort_keys (opt_json JStr x) = opt_json JStr x" "sort_keys (opt_json JInt i) = opt_json JInt i"
  by (simp_all add: opt_json_def split: option.split)

lemma row_payload_eq:
  "row_payload prev r = JObj [(''action'', JStr (a_action r)), (''details'', sort_keys (a_details r)),
     (''prev'', opt_json JStr prev), (''project_id'', opt_json JStr (a_project r)),
     (''status_code'', opt_json JInt (a_status r)), (''ts'', JStr (a_ts r)),
     (''username'', opt_json JStr (a_username r))]"
  by (simp add: row_payload_def chain_payload_def less_list_code less_char_def)

lemma row_payload_inject: "row_payload p r = row_payload q s \<longleftrightarrow> p = q \<and> content r = content s"
  by (auto simp: row_payload_eq content_def opt_json_inject)

lemma row_hash_collision:
  assumes "row_hash sha p r = row_hash sha q s" and "\<not> (p = q \<and> content r = content s)"
  shows "collision sha"
proof -
  have "row_payload p r \<noteq> row_payload q s" using assms(2) by (simp add: row_payload_inject)
  then have "dumps (row_payload p r) \<noteq> dumps (row_payload q s)" by (simp add: dumps_inject)
  moreover have "sha (dumps (row_payload p r)) = sha (dumps (row_payload q s))"
    using assms(1) by (simp add: row_hash_def compute_chain_hash_def dumps_sorted_def row_payload_def)
  ultimately show ?thesis by (auto simp: collision_def)
qed


section \<open>Chained logs\<close>

fun chained :: "(string \<Rightarrow> hash) \<Rightarrow> hash option \<Rightarrow> audit_row list \<Rightarrow> bool" where
  "chained sha prev [] \<longleftrightarrow> True"
| "chained sha prev (r # rs) \<longleftrightarrow> row_hash sha prev r = a_chain r \<and> chained sha (Some (a_chain r)) rs"

definition chain_end :: "hash option \<Rightarrow> audit_row list \<Rightarrow> hash option" where
  "chain_end prev rows = (if rows = [] then prev else Some (a_chain (last rows)))"

lemma chain_end_simps [simp]:
  "chain_end prev [] = prev" "chain_end prev (r # rs) = chain_end (Some (a_chain r)) rs"
  by (simp_all add: chain_end_def)

lemma chained_append [simp]:
  "chained sha prev (xs @ ys) \<longleftrightarrow> chained sha prev xs \<and> chained sha (chain_end prev xs) ys"
  by (induction xs arbitrary: prev) auto

lemma last_chain_eq: "last_chain rows = chain_end None rows"
  by (cases rows rule: rev_cases) (simp_all add: last_chain_def chain_end_def)

lemma chained_chain_rows: "chained sha prev (chain_rows sha sign now prev i ps)"
  by (induction ps arbitrary: prev i) (simp_all add: Let_def row_hash_def)

lemma verify_loop_chained:
  "chained sha prev rows \<Longrightarrow> \<exists>sc'. verify_loop sha vs pub dflt prev rows n lid sc =
     Intact (n + length rows)
       (if rows = [] then (case lid of None \<Rightarrow> dflt | Some i \<Rightarrow> Some i) else Some (a_id (last rows))) sc'"
proof (induction rows arbitrary: prev n lid sc)
  case (Cons r rows)
  with Cons.IH [of "Some (a_chain r)" "Suc n" "Some (a_id r)" "count_signature vs pub r sc"]
  show ?case by (cases "rows = []") simp_all
qed simp

lemma verify_loop_Intact:
  "verify_loop sha vs pub dflt prev rows n lid sc = Intact m l sc' \<Longrightarrow> chained sha prev rows"
  by (induction rows arbitrary: prev n lid sc) (auto split: if_splits)

lemma verify_loop_broken:
  "chained sha prev pre \<Longrightarrow> row_hash sha (chain_end prev pre) r \<noteq> a_chain r \<Longrightarrow>
     \<exists>sc'. verify_loop sha vs pub dflt prev (pre @ r # post) n lid sc = Broken (a_id r) (n + length pre) sc'"
proof (induction pre arbitrary: prev n lid sc)
  case (Cons a pre)
  with Cons.IH [of "Some (a_chain a)" "Suc n" "Some (a_id a)" "count_signature vs pub a sc"]
  show ?case by simp
qed simp

lemma export_loop_eq:
  "verify_loop sha vs pub None prev rows n lid sc =
     (case export_loop sha vs pub prev rows n sc of
        Inl (i, m, sc') \<Rightarrow> Broken i m sc'
      | Inr (m, sc') \<Rightarrow> Intact m (if rows = [] then lid else Some (a_id (last rows))) sc')"
  by (induction rows arbitrary: prev n lid sc) (auto split: option.split sum.split)

text \<open>
  The two verifiers agree: on the exported rows the offline verifier gives the verdict of the
  registry's own endpoint over the whole chain (same rows in id order starting above 0, same public
  key): the same broken row, the same counts, the same last id.
\<close>

theorem verifiers_agree:
  assumes "\<forall>r \<in> set rows. 0 < a_id r"
  shows "verify_audit_chain sha vs pub 0 0 rows = Reply 200 (verify_export sha vs pub rows)"
  using assms by (simp add: verify_audit_chain_def verify_export_def export_loop_eq Let_def filter_id_conv)

text \<open>The states the registry's own operations produce when nothing is pruned.\<close>

inductive audit_run :: "(string \<Rightarrow> hash) \<Rightarrow> (hash \<Rightarrow> string option) \<Rightarrow> audit_db \<Rightarrow> bool"
  for sha :: "string \<Rightarrow> hash" and sign :: "hash \<Rightarrow> string option" where
  empty: "audit_run sha sign \<lparr>ad_rows = [], ad_next_id = 1, ad_next_seq = 0, ad_pending = []\<rparr>"
| audited: "audit_run sha sign db \<Longrightarrow>
     audit_run sha sign (audit enabled username action project details status db)"
| flushed: "audit_run sha sign db \<Longrightarrow> audit_run sha sign (chain_audit_log sha sign now db)"

lemma chain_rows_ids: "map a_id (chain_rows sha sign now prev i ps) = [i..<i + length ps]"
proof (induction ps arbitrary: prev i)
  case (Cons p ps)
  show ?case by (simp add: Let_def Cons.IH upt_conv_Cons del: upt_Suc)
qed simp

lemma audit_run_invariant:
  assumes "audit_run sha sign db"
  shows "chained sha None (ad_rows db) \<and> map a_id (ad_rows db) = [1..<ad_next_id db] \<and> 1 \<le> ad_next_id db"
  using assms
proof induction
  case (flushed db now)
  have "[1..<ad_next_id db] @ [ad_next_id db..<ad_next_id db + n] = [1..<ad_next_id db + n]" for n
    using flushed.IH by (metis upt_add_eq_append)
  with flushed.IH show ?case
    by (simp add: chain_audit_log_def last_chain_eq chained_chain_rows chain_rows_ids)
qed (auto simp: audit_def)

text \<open>
  C23. What the registry writes verifies: after any sequence of audited requests and flushes (several
  rows per flush, interleaved in any way), the endpoint reports the chain intact, with every row
  checked, from the start and from every recorded id.
\<close>

theorem written_log_verifies:
  assumes "audit_run sha sign db" and "since \<le> length (ad_rows db)"
  shows "\<exists>lid sc. verify_audit_chain sha vs pub since 0 (ad_rows db)
     = Reply 200 (Intact (length (ad_rows db) - since) lid sc)"
proof -
  note inv = audit_run_invariant [OF assms(1)]
  let ?rows = "ad_rows db"
  have nth: "a_id (?rows ! i) = Suc i" if "i < length ?rows" for i
  proof -
    have "length [1..<ad_next_id db] = length ?rows" using inv by (metis length_map)
    then have "map a_id ?rows ! i = Suc i" using inv that by simp
    with that show ?thesis by simp
  qed
  have split: "filter (\<lambda>r. since < a_id r) ?rows = drop since ?rows"
  proof -
    have "filter (\<lambda>r. since < a_id r) (take since ?rows) = []"
      using nth by (auto simp: filter_empty_conv in_set_conv_nth)
    moreover have "filter (\<lambda>r. since < a_id r) (drop since ?rows) = drop since ?rows"
      using nth by (auto simp: filter_id_conv in_set_conv_nth)
    ultimately show ?thesis by (metis append_take_drop_id filter_append append_Nil)
  qed
  have chains: "chained sha (chain_end None (take since ?rows)) (drop since ?rows)"
    using inv by (metis append_take_drop_id chained_append)
  show ?thesis
  proof (cases "since = 0")
    case True
    with verify_loop_chained [OF chains, of vs pub None 0 None no_signatures] split show ?thesis
      by (auto simp: verify_audit_chain_def)
  next
    case False
    with assms(2) nth [of "since - 1"] have at: "?rows ! (since - 1) \<in> set ?rows"
      "a_id (?rows ! (since - 1)) = since" by auto
    then obtain r rest where r: "filter (\<lambda>r. a_id r = since) ?rows = r # rest"
      by (cases "filter (\<lambda>r. a_id r = since) ?rows") (auto simp: filter_empty_conv)
    then have "r \<in> set ?rows" "a_id r = since"
      using filter_eq_Cons_iff [of "\<lambda>r. a_id r = since" ?rows r rest] by auto
    then obtain i where "i < length ?rows" "?rows ! i = r" "Suc i = since"
      using nth by (metis in_set_conv_nth)
    then have "last (take since ?rows) = r" "take since ?rows \<noteq> []"
      by (auto simp: take_Suc_conv_app_nth)
    then have "chain_end None (take since ?rows) = Some (a_chain r)" by (simp add: chain_end_def)
    with verify_loop_chained [OF chains, of vs pub "Some since" 0 None no_signatures] split r False
    show ?thesis by (auto simp: verify_audit_chain_def Let_def)
  qed
qed


section \<open>Tampering\<close>

lemma chains_with_equal_end:
  assumes "chained sha None xs" and "chained sha None ys"
    and "chain_end None xs = chain_end None ys"
  shows "map content xs = map content ys \<or> collision sha"
  using assms
proof (induction xs arbitrary: ys rule: rev_induct)
  case Nil
  then show ?case by (cases ys rule: rev_cases) (auto simp: chain_end_def)
next
  case (snoc x xs)
  show ?case
  proof (cases ys rule: rev_cases)
    case Nil
    with snoc.prems show ?thesis by (simp add: chain_end_def)
  next
    case ys: (snoc ys' y)
    from snoc.prems ys have hx: "row_hash sha (chain_end None xs) x = a_chain x"
      and hy: "row_hash sha (chain_end None ys') y = a_chain y" and "a_chain x = a_chain y"
      by (simp_all add: chain_end_def)
    then have eq: "row_hash sha (chain_end None xs) x = row_hash sha (chain_end None ys') y" by simp
    show ?thesis
    proof (cases "chain_end None xs = chain_end None ys' \<and> content x = content y")
      case True
      with snoc.IH [of ys'] snoc.prems ys show ?thesis by auto
    next
      case False
      with row_hash_collision [OF eq] show ?thesis by blast
    qed
  qed
qed

text \<open>
  C6. The chain is tamper evident: two logs that both verify and end in the same chain hash record
  the same entries in the same order (timestamps, users, actions, projects, status codes and
  details), rows removed, inserted, reordered or edited anywhere included, unless the difference
  exhibits a SHA-256 collision.
\<close>

theorem tamper_evident:
  assumes "verify_export sha vs pub xs = Intact n l sc"
    and "verify_export sha vs' pub' ys = Intact n' l' sc'"
    and "last_chain xs = last_chain ys"
  shows "map content xs = map content ys \<or> collision sha"
proof -
  have "chained sha None xs" if "verify_export sha vs pub xs = Intact n l sc" for xs vs pub n l sc
    using that export_loop_eq [of sha vs pub None xs 0 None no_signatures]
    by (auto simp: verify_export_def split: sum.splits dest!: verify_loop_Intact)
  from this [OF assms(1)] this [OF assms(2)] assms(3) show ?thesis
    by (intro chains_with_equal_end) (simp_all add: last_chain_eq)
qed

text \<open>
  An edit is located: when one row of an intact log is replaced by a row with the same stored
  chain hash and different content, the verifier reports that row as the first broken one, or the
  edit exhibits a SHA-256 collision.
\<close>

theorem edit_located:
  assumes "verify_export sha vs pub (before @ r # later) = Intact n l sc"
    and "a_chain r' = a_chain r" and "content r' \<noteq> content r"
  shows "(\<exists>sc'. verify_export sha vs pub (before @ r' # later) = Broken (a_id r') (length before) sc')
    \<or> collision sha"
proof (cases "row_hash sha (chain_end None before) r' = a_chain r'")
  case True
  have "chained sha None (before @ r # later)"
    using assms(1) export_loop_eq [of sha vs pub None "before @ r # later" 0 None no_signatures]
    by (auto simp: verify_export_def split: sum.splits dest!: verify_loop_Intact)
  then have "row_hash sha (chain_end None before) r' = row_hash sha (chain_end None before) r"
    using True assms(2) by simp
  then show ?thesis using assms(3) row_hash_collision by blast
next
  case False
  have "chained sha None before"
    using assms(1) export_loop_eq [of sha vs pub None "before @ r # later" 0 None no_signatures]
    by (auto simp: verify_export_def split: sum.splits dest!: verify_loop_Intact)
  from verify_loop_broken [OF this False, of vs pub None later 0 None no_signatures]
  show ?thesis using export_loop_eq [of sha vs pub None "before @ r' # later" 0 None no_signatures]
    by (auto simp: verify_export_def split: sum.splits)
qed

lemma first_row_broken:
  "0 < a_id r \<Longrightarrow> row_hash sha None r \<noteq> a_chain r \<Longrightarrow>
     verify_audit_chain sha vs pub 0 0 (r # rows) = Reply 200 (Broken (a_id r) 0 no_signatures)"
  by (simp add: verify_audit_chain_def Let_def)

lemma prune_appends:
  "\<exists>new. ad_rows (snd (prune_audit_log sha sign now older en u days False db))
     = ad_rows (fst (delete_audit_before (older (max days 0)) db)) @ new"
  by (auto simp: prune_audit_log_def delete_audit_before_def chain_audit_log_def audit_def)

text \<open>
  C24. Retention breaks verification: after the retention sweep (of the garbage collection, or of the
  prune route, which then appends an audit row of its own) has removed a nonempty prefix of an intact log
  and left a nonempty rest, the endpoint reports the chain broken at the first remaining row, with nothing
  checked, although no row was tampered with, unless SHA-256 collides.
\<close>

theorem prune_breaks_chain:
  assumes "chained sha None (ad_rows db)" and "ad_rows db = old @ r # rest" and "old \<noteq> []"
    and "\<forall>x \<in> set old. older (max days 0) (a_ts x)" and "\<forall>x \<in> set (r # rest). \<not> older (max days 0) (a_ts x)"
    and "\<forall>x \<in> set (ad_rows db). 0 < a_id x"
  shows "verify_audit_chain sha vs pub 0 0 (ad_rows (fst (delete_audit_before (older (max days 0)) db)))
        = Reply 200 (Broken (a_id r) 0 no_signatures)
      \<and> verify_audit_chain sha vs pub 0 0 (ad_rows (snd (prune_audit_log sha sign now older en u days False db)))
        = Reply 200 (Broken (a_id r) 0 no_signatures)
    \<or> collision sha"
proof -
  have left: "ad_rows (fst (delete_audit_before (older (max days 0)) db)) = r # rest"
    using assms(2,4,5) by (simp add: delete_audit_before_def filter_id_conv)
  have "row_hash sha (chain_end None old) r = a_chain r" using assms(1,2) by simp
  moreover have "chain_end None old \<noteq> None" using assms(3) by (simp add: chain_end_def)
  ultimately have "row_hash sha None r \<noteq> a_chain r \<or> collision sha"
    using row_hash_collision [of sha None r "chain_end None old" r] by auto
  moreover have "0 < a_id r" using assms(2,6) by simp
  moreover obtain new where "ad_rows (snd (prune_audit_log sha sign now older en u days False db)) = r # rest @ new"
    using prune_appends [of sha sign now older en u days db] left by auto
  ultimately show ?thesis using first_row_broken [of r sha vs pub] left by auto
qed

section \<open>A concrete log\<close>

text \<open>The identity stands in for SHA-256: it has no collisions at all.\<close>

definition sample_pending :: "pending_row list" where
  "sample_pending =
     [\<lparr>p_seq = 0, p_ts = Some ''2026-01-01'', p_username = Some ''ann'', p_action = ''ref.update'',
       p_project = Some ''p'', p_status = Some 200, p_details = JNull\<rparr>,
      \<lparr>p_seq = 1, p_ts = Some ''2026-06-01'', p_username = None, p_action = ''commit.push'',
       p_project = None, p_status = Some 201, p_details = JObj [(''hash'', JStr ''ab'')]\<rparr>]"

definition sample_log :: "audit_row list" where
  "sample_log = chain_rows id (\<lambda>_. None) [] None 1 sample_pending"

lemma no_collision_id: "\<not> collision id"
  by (simp add: collision_def)

lemma sample_log_rows:
  obtains r s where "sample_log = [r, s]" "a_id r = 1" "a_id s = 2" "a_action r = ''ref.update''"
    "a_ts r = ''2026-01-01''" "a_ts s = ''2026-06-01''"
  by (simp add: sample_log_def sample_pending_def Let_def)

lemma chained_sample: "chained id None sample_log"
  by (simp add: sample_log_def chained_chain_rows)

lemma verify_export_chained:
  "chained sha None rows \<Longrightarrow> \<exists>n l sc. verify_export sha vs pub rows = Intact n l sc"
  using verify_loop_chained [of sha None rows vs pub None 0 None no_signatures]
    export_loop_eq [of sha vs pub None rows 0 None no_signatures]
  by (auto simp: verify_export_def split: sum.splits)

lemma verifiers_agree_witness:
  "verify_audit_chain id (\<lambda>_ _ _. False) None 0 0 sample_log
     = Reply 200 (verify_export id (\<lambda>_ _ _. False) None sample_log)"
  by (rule verifiers_agree) (simp add: sample_log_def sample_pending_def Let_def)

lemma written_log_verifies_witness:
  "\<exists>lid sc. verify_audit_chain id (\<lambda>_ _ _. False) None 0 0
     (ad_rows (chain_audit_log id (\<lambda>_. None) ''2026-01-01''
        (audit True None ''gc'' None JNull (Some 200)
           \<lparr>ad_rows = [], ad_next_id = 1, ad_next_seq = 0, ad_pending = []\<rparr>)))
     = Reply 200 (Intact 1 lid sc)"
proof -
  have "audit_run id (\<lambda>_. None) (chain_audit_log id (\<lambda>_. None) ''2026-01-01''
        (audit True None ''gc'' None JNull (Some 200)
           \<lparr>ad_rows = [], ad_next_id = 1, ad_next_seq = 0, ad_pending = []\<rparr>))"
    by (intro audit_run.intros)
  from written_log_verifies [OF this, of 0] show ?thesis
    by (simp add: chain_audit_log_def audit_def Let_def)
qed

lemma tamper_evident_witness:
  "map content sample_log = map content sample_log \<or> collision id"
proof -
  obtain n l sc where ok: "verify_export id (\<lambda>_ _ _. False) None sample_log = Intact n l sc"
    using verify_export_chained [OF chained_sample] by blast
  show ?thesis by (rule tamper_evident [OF ok ok refl])
qed

lemma edit_located_witness:
  "\<exists>sc. verify_export id (\<lambda>_ _ _. False) None
     [hd sample_log\<lparr>a_action := ''ref.delete''\<rparr>, last sample_log] = Broken 1 0 sc"
proof -
  obtain r s where rs: "sample_log = [r, s]" "a_id r = 1" "a_action r = ''ref.update''"
    using sample_log_rows by metis
  obtain n l sc where "verify_export id (\<lambda>_ _ _. False) None ([] @ r # [s]) = Intact n l sc"
    using verify_export_chained [OF chained_sample] unfolding rs(1) append_Nil by blast
  from edit_located [OF this, of "r\<lparr>a_action := ''ref.delete''\<rparr>"] rs(2,3) no_collision_id
  show ?thesis by (simp add: content_def rs(1))
qed

lemma prune_breaks_chain_witness:
  "verify_audit_chain id (\<lambda>_ _ _. False) None 0 0
     (ad_rows (snd (prune_audit_log id (\<lambda>_. None) ''2026-06-02'' (\<lambda>_ ts. ts = ''2026-01-01'') True (Some ''ann'') 30 False
        \<lparr>ad_rows = sample_log, ad_next_id = 3, ad_next_seq = 2, ad_pending = []\<rparr>)))
   = Reply 200 (Broken 2 0 no_signatures)"
proof -
  obtain r s where rs: "sample_log = [r, s]" "a_id r = 1" "a_id s = 2"
    "a_ts r = ''2026-01-01''" "a_ts s = ''2026-06-01''" by (rule sample_log_rows) auto
  have "chained id None (ad_rows \<lparr>ad_rows = sample_log, ad_next_id = 3, ad_next_seq = 2, ad_pending = []\<rparr>)"
    using chained_sample by simp
  from prune_breaks_chain [OF this, of "[r]" s "[]" "\<lambda>_ ts. ts = ''2026-01-01''" 30]
    rs(2-5) no_collision_id
  show ?thesis by (simp add: rs(1))
qed

end
