(* ===== verification/Merkle.thy ===== *)
theory Merkle
  imports Json
begin

text \<open>
  The registry's trees: \<open>server.py::build_merkle_tree\<close> turns the flat path dictionary of a commit
  into content-addressed rows, \<open>resolve_trees\<close> walks the rows level by level back to flat
  dictionaries. The theory proves the round trip. SHA-256 is an argument; that its digests are
  nonempty is a hypothesis, and two different contents with one digest are an explicit outcome.
\<close>

section \<open>Rows and entries\<close>

record merkle_row =
  mr_tenant :: string
  mr_tree_hash :: hash
  mr_name :: string
  mr_child :: "hash option"
  mr_object :: json
  mr_type :: json
  mr_size :: json
  mr_layers :: json
  mr_chunks :: json

datatype tree_entry =
    DirEntry string hash
  | FileEntry string json json json json json   \<comment> \<open>name, object hash, type, size, layers, chunks\<close>

fun entry_json :: "tree_entry \<Rightarrow> json" where
  "entry_json (DirEntry n h) =
     JObj [(''name'', JStr n), (''child_hash'', JStr h), (''obj_hash'', JNull),
           (''type'', JStr ''tree''), (''size'', JInt 0)]"
| "entry_json (FileEntry n ob ty sz la ch) =
     JObj [(''name'', JStr n), (''child_hash'', JNull), (''obj_hash'', ob), (''type'', ty),
           (''size'', sz), (''layers'', la), (''chunks'', ch)]"

definition render_entries :: "tree_entry list \<Rightarrow> string" where
  "render_entries es = dumps_sorted (JList (map entry_json es))"

fun entry_row :: "string \<Rightarrow> hash \<Rightarrow> tree_entry \<Rightarrow> merkle_row" where
  "entry_row t th (DirEntry n h) =
     \<lparr>mr_tenant = t, mr_tree_hash = th, mr_name = n, mr_child = Some h, mr_object = JNull,
      mr_type = JStr ''tree'', mr_size = JInt 0, mr_layers = JList [], mr_chunks = JList []\<rparr>"
| "entry_row t th (FileEntry n ob ty sz la ch) =
     \<lparr>mr_tenant = t, mr_tree_hash = th, mr_name = n, mr_child = None, mr_object = ob,
      mr_type = ty, mr_size = sz, mr_layers = la, mr_chunks = ch\<rparr>"

text \<open>
  The values that the typed columns of a row take; the database refuses a row with any other (a number
  in a text column, a text with a zero character, a size that is no 64-bit integer), and with it the
  push. A boolean size, which the driver would store as 0 or 1, counts as refused.
\<close>

fun text_column :: "json \<Rightarrow> bool" where
  "text_column JNull \<longleftrightarrow> True"
| "text_column (JStr s) \<longleftrightarrow> CHR 0x00 \<notin> set s"
| "text_column _ \<longleftrightarrow> False"

fun bigint_column :: "json \<Rightarrow> bool" where
  "bigint_column JNull \<longleftrightarrow> True"
| "bigint_column (JInt i) \<longleftrightarrow> - (2 ^ 63) \<le> i \<and> i < 2 ^ 63"
| "bigint_column _ \<longleftrightarrow> False"

definition columns_fit :: "merkle_row \<Rightarrow> bool" where
  "columns_fit r \<longleftrightarrow> text_column (JStr (mr_name r)) \<and> text_column (mr_object r) \<and> text_column (mr_type r)
     \<and> bigint_column (mr_size r)"

text \<open>A commit's tree: path to info, where the info is an object or a plain hash string.\<close>

type_synonym flat_tree = "(string, json) dict"

text \<open>\<open>None\<close> is the \<open>AttributeError\<close> of an info that is neither an object nor a string.\<close>

fun file_entry :: "string \<Rightarrow> json \<Rightarrow> tree_entry option" where
  "file_entry n (JStr h) =
     Some (FileEntry n (JStr h) (JStr ''code'') (JInt 0) (JList []) (JList []))"
| "file_entry n (JObj fs) =
     Some (FileEntry n (field fs ''hash'' JNull) (field fs ''type'' (JStr ''file''))
       (field fs ''size'' (JInt 0)) (field fs ''layers'' (JList [])) (field fs ''chunks'' (JList [])))"
| "file_entry n _ = None"

section \<open>Grouping paths by first component\<close>

datatype node = NFile json | NDir flat_tree

text \<open>
  One step of the loop over the paths; \<open>None\<close> is the \<open>KeyError\<close> on \<open>nodes[name]["children"]\<close>
  when the name is already a file.
\<close>

definition add_path :: "(string, node) dict \<Rightarrow> string \<Rightarrow> json \<Rightarrow> (string, node) dict option" where
  "add_path nodes path info =
     (case partition_on CHR ''/'' path of
        (name, False, _) \<Rightarrow> Some (dset nodes name (NFile info))
      | (name, True, rest) \<Rightarrow>
          (case dget nodes name of
             None \<Rightarrow> Some (dset nodes name (NDir (dset [] rest info)))
           | Some (NDir ch) \<Rightarrow> Some (dset nodes name (NDir (dset ch rest info)))
           | Some (NFile _) \<Rightarrow> None))"

fun group_paths :: "flat_tree \<Rightarrow> (string, node) dict \<Rightarrow> (string, node) dict option" where
  "group_paths [] nodes = Some nodes"
| "group_paths ((p, i) # t) nodes =
     (case add_path nodes p i of None \<Rightarrow> None | Some nodes' \<Rightarrow> group_paths t nodes')"

fun tree_size :: "flat_tree \<Rightarrow> nat" where
  "tree_size [] = 0"
| "tree_size ((p, i) # t) = Suc (length p) + tree_size t"

fun node_size :: "node \<Rightarrow> nat" where
  "node_size (NFile i) = 1"
| "node_size (NDir ch) = Suc (tree_size ch)"

fun nodes_size :: "(string, node) dict \<Rightarrow> nat" where
  "nodes_size [] = 0"
| "nodes_size ((n, x) # ns) = node_size x + nodes_size ns"

lemma partition_on_parts:
  "partition_on c s = (a, b, r) \<Longrightarrow> c \<notin> set a \<and> s = (if b then a @ c # r else a) \<and> (\<not> b \<longrightarrow> r = [])"
  by (induction s arbitrary: a b r) (auto split: if_splits prod.splits)

lemma partition_on_join: "c \<notin> set a \<Longrightarrow> partition_on c (a @ c # r) = (a, True, r)"
  by (induction a) auto

lemma partition_on_none: "c \<notin> set a \<Longrightarrow> partition_on c a = (a, False, [])"
  by (induction a) auto

lemma tree_size_dset: "tree_size (dset t p i) \<le> Suc (length p) + tree_size t"
  by (induction t) auto

lemma nodes_size_dset_new: "dget ns n = None \<Longrightarrow> nodes_size (dset ns n x) = node_size x + nodes_size ns"
  by (induction ns) (auto split: if_splits)

lemma nodes_size_dset_old:
  "dget ns n = Some y \<Longrightarrow> node_size x \<le> node_size y + k \<Longrightarrow> nodes_size (dset ns n x) \<le> nodes_size ns + k"
  by (induction ns) (auto split: if_splits)

lemma add_path_size:
  assumes "add_path nodes p i = Some nodes'"
  shows "nodes_size nodes' \<le> nodes_size nodes + Suc (length p)"
proof -
  obtain name b rest where part: "partition_on CHR ''/'' p = (name, b, rest)" by (metis prod_cases3)
  note len = partition_on_parts [OF part]
  show ?thesis
  proof (cases b)
    case False
    with part assms have "nodes' = dset nodes name (NFile i)" by (simp add: add_path_def)
    then show ?thesis
      using nodes_size_dset_new [of nodes name "NFile i"] nodes_size_dset_old [of nodes name _ "NFile i" 1]
      by (cases "dget nodes name") fastforce+
  next
    case True
    show ?thesis
    proof (cases "dget nodes name")
      case None
      with part True assms have "nodes' = dset nodes name (NDir [(rest, i)])"
        by (simp add: add_path_def)
      with None len True show ?thesis by (simp add: nodes_size_dset_new)
    next
      case (Some x)
      with part True assms obtain ch where x: "x = NDir ch" "nodes' = dset nodes name (NDir (dset ch rest i))"
        by (auto simp: add_path_def split: node.splits)
      have "node_size (NDir (dset ch rest i)) \<le> node_size x + Suc (length rest)"
        using tree_size_dset [of rest i ch] x by simp
      from nodes_size_dset_old [OF Some this] x len True show ?thesis by simp
    qed
  qed
qed

lemma group_paths_size:
  "group_paths t nodes = Some nodes' \<Longrightarrow> nodes_size nodes' \<le> nodes_size nodes + tree_size t"
proof (induction t nodes rule: group_paths.induct)
  case (2 p i t nodes)
  then obtain ns where "add_path nodes p i = Some ns" "group_paths t ns = Some nodes'"
    by (auto split: option.splits)
  with 2 add_path_size [of nodes p i ns] show ?case by fastforce
qed simp

lemma nodes_size_insort: "nodes_size (insort_key f x ns) = node_size (snd x) + nodes_size ns"
  by (induction ns) (auto simp: split_def, (cases x; simp)+)

lemma nodes_size_sort: "nodes_size (sort_key f ns) = nodes_size ns"
  by (induction ns) (auto simp: nodes_size_insort)

section \<open>Building\<close>

definition tree_exists :: "string option \<Rightarrow> hash \<Rightarrow> merkle_row list \<Rightarrow> bool" where
  "tree_exists cas th db \<longleftrightarrow>
     list_ex (\<lambda>r. mr_tree_hash r = th \<and> (cas = None \<or> cas = Some (mr_tenant r))) db"

definition store_tree ::
  "(string \<Rightarrow> hash) \<Rightarrow> string \<Rightarrow> string option \<Rightarrow> tree_entry list \<Rightarrow> merkle_row list
   \<Rightarrow> merkle_row list \<times> hash" where
  "store_tree sha tenant cas es db =
     (let th = sha (render_entries es)
      in (if tree_exists cas th db then db else db @ map (entry_row tenant th) es, th))"

text \<open>
  The recursive build over the sorted nodes, threading the table; \<open>None\<close> is an exception (the
  request then answers 500 and rolls back).
\<close>

function (sequential) build_merkle_tree ::
  "(string \<Rightarrow> hash) \<Rightarrow> string \<Rightarrow> string option \<Rightarrow> flat_tree \<Rightarrow> merkle_row list
   \<Rightarrow> (merkle_row list \<times> hash) option"
  and build_entries ::
  "(string \<Rightarrow> hash) \<Rightarrow> string \<Rightarrow> string option \<Rightarrow> (string, node) dict \<Rightarrow> merkle_row list
   \<Rightarrow> (merkle_row list \<times> tree_entry list) option" where
  "build_merkle_tree sha tenant cas t db =
     (case group_paths t [] of
        None \<Rightarrow> None
      | Some nodes \<Rightarrow>
          (case build_entries sha tenant cas (sort_key fst nodes) db of
             None \<Rightarrow> None
           | Some (db', es) \<Rightarrow> Some (store_tree sha tenant cas es db')))"
| "build_entries sha tenant cas [] db = Some (db, [])"
| "build_entries sha tenant cas ((n, NDir ch) # ns) db =
     (case build_merkle_tree sha tenant cas ch db of
        None \<Rightarrow> None
      | Some (db', h) \<Rightarrow>
          (case build_entries sha tenant cas ns db' of
             None \<Rightarrow> None
           | Some (db'', es) \<Rightarrow> Some (db'', DirEntry n h # es)))"
| "build_entries sha tenant cas ((n, NFile i) # ns) db =
     (case file_entry n i of
        None \<Rightarrow> None
      | Some e \<Rightarrow>
          (case build_entries sha tenant cas ns db of
             None \<Rightarrow> None
           | Some (db'', es) \<Rightarrow> Some (db'', e # es)))"
  by pat_completeness auto
termination
  by (relation "measure (\<lambda>x. case x of
       Inl (sha, tenant, cas, t, db) \<Rightarrow> Suc (2 * tree_size t)
     | Inr (sha, tenant, cas, ns, db) \<Rightarrow> 2 * nodes_size ns)")
    (auto simp: nodes_size_sort dest!: group_paths_size)


section \<open>Resolving\<close>

record leaf =
  lf_hash :: json
  lf_size :: json
  lf_type :: json
  lf_layers :: json
  lf_chunks :: json

text \<open>\<open>x or []\<close>.\<close>

definition or_list :: "json \<Rightarrow> json" where
  "or_list j = (if j \<in> {JNull, JBool False, JInt 0, JStr [], JList [], JObj []} then JList [] else j)"

definition row_leaf :: "merkle_row \<Rightarrow> leaf" where
  "row_leaf r = \<lparr>lf_hash = mr_object r, lf_size = mr_size r, lf_type = mr_type r,
     lf_layers = or_list (mr_layers r), lf_chunks = or_list (mr_chunks r)\<rparr>"

definition full_path :: "string \<Rightarrow> string \<Rightarrow> string" where
  "full_path prefix name = (if prefix = [] then name else prefix @ ''/'' @ name)"

text \<open>A frontier item: root, tree hash, path prefix. \<open>if entry.child_tree_hash\<close> is a truth test.\<close>

type_synonym frontier = "(hash \<times> hash \<times> string) list"
type_synonym resolved = "(hash, (string, leaf) dict) dict"

definition is_subtree :: "merkle_row \<Rightarrow> bool" where
  "is_subtree r \<longleftrightarrow> (case mr_child r of None \<Rightarrow> False | Some h \<Rightarrow> h \<noteq> [])"

fun visit_rows :: "hash \<Rightarrow> string \<Rightarrow> merkle_row list \<Rightarrow> frontier \<Rightarrow> resolved \<Rightarrow> frontier \<times> resolved" where
  "visit_rows root prefix [] nf res = (nf, res)"
| "visit_rows root prefix (r # rs) nf res =
     (if is_subtree r
      then visit_rows root prefix rs (nf @ [(root, the (mr_child r), full_path prefix (mr_name r))]) res
      else visit_rows root prefix rs nf
             (dset res root (dset (dget_or res root []) (full_path prefix (mr_name r)) (row_leaf r))))"

fun visit_level :: "merkle_row list \<Rightarrow> frontier \<Rightarrow> frontier \<Rightarrow> resolved \<Rightarrow> frontier \<times> resolved" where
  "visit_level db [] nf res = (nf, res)"
| "visit_level db ((root, th, prefix) # fr) nf res =
     (case visit_rows root prefix (filter (\<lambda>r. mr_tree_hash r = th) db) nf res of
        (nf', res') \<Rightarrow> visit_level db fr nf' res')"

text \<open>
  The level loop. Rows could form a cycle only by a hash collision; the fuel bounds the number of
  levels and \<open>None\<close> stands for a walk that does not end within it.
\<close>

fun resolve_levels :: "nat \<Rightarrow> merkle_row list \<Rightarrow> frontier \<Rightarrow> resolved \<Rightarrow> resolved option" where
  "resolve_levels fuel db [] res = Some res"
| "resolve_levels 0 db (f # fr) res = None"
| "resolve_levels (Suc fuel) db (f # fr) res =
     (case visit_level db (f # fr) [] res of (nf, res') \<Rightarrow> resolve_levels fuel db nf res')"

definition resolve_trees :: "nat \<Rightarrow> merkle_row list \<Rightarrow> hash list \<Rightarrow> resolved option" where
  "resolve_trees fuel db roots =
     resolve_levels fuel db
       (map (\<lambda>rh. (rh, rh, [])) (filter (\<lambda>rh. rh \<noteq> []) (rev (remdups (rev roots)))))
       (foldl (\<lambda>d rh. dset d rh []) [] roots)"

definition resolve_tree :: "nat \<Rightarrow> merkle_row list \<Rightarrow> hash \<Rightarrow> (string, leaf) dict option" where
  "resolve_tree fuel db root =
     (if root = [] then Some []
      else map_option (\<lambda>res. dget_or res root []) (resolve_trees fuel db [root]))"

section \<open>What a stored tree means\<close>

text \<open>
  The meaning of a tree hash to depth \<open>n\<close>: the (path, leaf) pairs below it; \<open>deep\<close> says that no
  path is longer.
\<close>

fun meaning :: "merkle_row list \<Rightarrow> nat \<Rightarrow> hash \<Rightarrow> string \<Rightarrow> (string \<times> leaf) set" where
  "meaning db 0 th prefix = {}"
| "meaning db (Suc n) th prefix =
     (\<Union>r \<in> {r \<in> set db. mr_tree_hash r = th}.
        if is_subtree r then meaning db n (the (mr_child r)) (full_path prefix (mr_name r))
        else {(full_path prefix (mr_name r), row_leaf r)})"

fun deep :: "merkle_row list \<Rightarrow> nat \<Rightarrow> hash \<Rightarrow> bool" where
  "deep db 0 th \<longleftrightarrow> False"
| "deep db (Suc n) th \<longleftrightarrow>
     (\<forall>r \<in> set db. mr_tree_hash r = th \<longrightarrow> is_subtree r \<longrightarrow> deep db n (the (mr_child r)))"

lemma deep_mono: "deep db n th \<Longrightarrow> n \<le> m \<Longrightarrow> deep db m th"
proof (induction n arbitrary: m th)
  case (Suc n)
  then obtain m' where "m = Suc m'" "n \<le> m'" by (cases m) auto
  with Suc show ?case by auto
qed simp

lemma meaning_deep: "deep db n th \<Longrightarrow> n \<le> m \<Longrightarrow> meaning db m th prefix = meaning db n th prefix"
proof (induction n arbitrary: m th prefix)
  case (Suc n)
  then obtain m' where m: "m = Suc m'" "n \<le> m'" by (cases m) auto
  with Suc.IH [of _ m'] Suc.prems show ?case by (auto split: if_splits)
qed simp

text \<open>The level walk collects the meanings of its frontier: as a set of writes.\<close>

definition apply_write :: "resolved \<Rightarrow> hash \<times> string \<times> leaf \<Rightarrow> resolved" where
  "apply_write res w = (case w of (root, p, l) \<Rightarrow> dset res root (dset (dget_or res root []) p l))"

lemma apply_write_simp [simp]:
  "apply_write res (root, p, l) = dset res root (dset (dget_or res root []) p l)"
  by (simp add: apply_write_def)

lemma visit_rows_writes:
  "\<exists>ws. visit_rows root prefix rs nf res =
     (nf @ map (\<lambda>r. (root, the (mr_child r), full_path prefix (mr_name r))) (filter is_subtree rs),
      foldl apply_write res ws)
   \<and> set ws = {(root, full_path prefix (mr_name r), row_leaf r) | r. r \<in> set rs \<and> \<not> is_subtree r}"
proof (induction rs arbitrary: nf res)
  case (Cons r rs)
  show ?case
  proof (cases "is_subtree r")
    case True
    with Cons.IH [of "nf @ [(root, the (mr_child r), full_path prefix (mr_name r))]" res]
    show ?thesis by (elim exE conjE, intro exI conjI) auto
  next
    case False
    let ?w = "(root, full_path prefix (mr_name r), row_leaf r)"
    from Cons.IH [of nf "apply_write res ?w"] obtain ws where
      "visit_rows root prefix rs nf (apply_write res ?w) =
        (nf @ map (\<lambda>r. (root, the (mr_child r), full_path prefix (mr_name r))) (filter is_subtree rs),
         foldl apply_write (apply_write res ?w) ws)"
      "set ws = {(root, full_path prefix (mr_name r), row_leaf r) | r. r \<in> set rs \<and> \<not> is_subtree r}"
      by blast
    with False show ?thesis by (intro exI [of _ "?w # ws"]) auto
  qed
qed simp

definition frontier_meaning :: "merkle_row list \<Rightarrow> nat \<Rightarrow> frontier \<Rightarrow> (hash \<times> string \<times> leaf) set" where
  "frontier_meaning db n fr = (\<Union>(root, th, prefix) \<in> set fr. {root} \<times> meaning db n th prefix)"

definition frontier_deep :: "merkle_row list \<Rightarrow> nat \<Rightarrow> frontier \<Rightarrow> bool" where
  "frontier_deep db n fr \<longleftrightarrow> (\<forall>x \<in> set fr. deep db n (fst (snd x)))"

lemma visit_level_writes:
  "\<exists>ws nf'. visit_level db fr nf res = (nf @ nf', foldl apply_write res ws)
   \<and> set ws \<union> frontier_meaning db n nf' = frontier_meaning db (Suc n) fr
   \<and> (frontier_deep db (Suc n) fr \<longrightarrow> frontier_deep db n nf')"
proof (induction fr arbitrary: nf res)
  case Nil
  show ?case by (intro exI [of _ "[]"]) (simp add: frontier_meaning_def frontier_deep_def)
next
  case (Cons f fr)
  obtain root th prefix where f: "f = (root, th, prefix)" by (metis prod_cases3)
  let ?rs = "filter (\<lambda>r. mr_tree_hash r = th) db"
  let ?nf = "map (\<lambda>r. (root, the (mr_child r), full_path prefix (mr_name r))) (filter is_subtree ?rs)"
  obtain ws where ws: "visit_rows root prefix ?rs nf res = (nf @ ?nf, foldl apply_write res ws)"
    "set ws = {(root, full_path prefix (mr_name r), row_leaf r) | r. r \<in> set ?rs \<and> \<not> is_subtree r}"
    using visit_rows_writes [of root prefix ?rs nf res] by blast
  obtain ws2 nf2 where rest: "visit_level db fr (nf @ ?nf) (foldl apply_write res ws)
      = ((nf @ ?nf) @ nf2, foldl apply_write (foldl apply_write res ws) ws2)"
    "set ws2 \<union> frontier_meaning db n nf2 = frontier_meaning db (Suc n) fr"
    "frontier_deep db (Suc n) fr \<longrightarrow> frontier_deep db n nf2"
    using Cons.IH [of "nf @ ?nf" "foldl apply_write res ws"] by blast
  have here: "set ws \<union> frontier_meaning db n ?nf = {root} \<times> meaning db (Suc n) th prefix"
    by (auto simp: ws(2) frontier_meaning_def split: if_splits)
  show ?case
  proof (intro exI [of _ "ws @ ws2"] exI [of _ "?nf @ nf2"] conjI)
    show "visit_level db (f # fr) nf res = (nf @ (?nf @ nf2), foldl apply_write res (ws @ ws2))"
      using ws(1) rest(1) f by simp
    have "frontier_meaning db n (?nf @ nf2) = frontier_meaning db n ?nf \<union> frontier_meaning db n nf2"
      by (simp add: frontier_meaning_def)
    moreover have "frontier_meaning db (Suc n) (f # fr)
        = {root} \<times> meaning db (Suc n) th prefix \<union> frontier_meaning db (Suc n) fr"
      using f by (simp add: frontier_meaning_def)
    ultimately show "set (ws @ ws2) \<union> frontier_meaning db n (?nf @ nf2) = frontier_meaning db (Suc n) (f # fr)"
      using here rest(2) by (auto simp del: meaning.simps)
    show "frontier_deep db (Suc n) (f # fr) \<longrightarrow> frontier_deep db n (?nf @ nf2)"
      using rest(3) f by (auto simp: frontier_deep_def)
  qed
qed

lemma resolve_levels_writes:
  "frontier_deep db n fr \<Longrightarrow>
     \<exists>ws. resolve_levels n db fr res = Some (foldl apply_write res ws) \<and> set ws = frontier_meaning db n fr"
proof (induction n arbitrary: fr res)
  case 0
  then show ?case by (cases fr) (auto simp: frontier_meaning_def frontier_deep_def intro: exI [of _ "[]"])
next
  case (Suc n)
  show ?case
  proof (cases fr)
    case Nil
    then show ?thesis by (auto simp: frontier_meaning_def intro: exI [of _ "[]"])
  next
    case (Cons f fr')
    obtain ws nf where step: "visit_level db fr [] res = (nf, foldl apply_write res ws)"
      "set ws \<union> frontier_meaning db n nf = frontier_meaning db (Suc n) fr"
      "frontier_deep db n nf"
      using visit_level_writes [of db fr "[]" res n] Suc.prems by auto
    from Suc.IH [OF step(3), of "foldl apply_write res ws"] obtain ws2 where
      "resolve_levels n db nf (foldl apply_write res ws) = Some (foldl apply_write res (ws @ ws2))"
      "set ws2 = frontier_meaning db n nf" by auto
    with step Cons show ?thesis by (intro exI [of _ "ws @ ws2"]) simp
  qed
qed

text \<open>Writes whose pairs are single-valued end up as the dictionary of the pairs.\<close>

lemma apply_write_dget:
  "dget (dget_or (apply_write res (r, q, l)) root []) p
     = (if r = root \<and> q = p then Some l else dget (dget_or res root []) p)"
  by simp

lemma foldl_writes_other:
  "(\<forall>l. (root, p, l) \<notin> set ws) \<Longrightarrow>
     dget (dget_or (foldl apply_write res ws) root []) p = dget (dget_or res root []) p"
proof (induction ws arbitrary: res)
  case (Cons w ws)
  obtain r q l where w: "w = (r, q, l)" by (metis prod_cases3)
  have none: "\<forall>l. (root, p, l) \<notin> set ws" using Cons.prems by simp
  have other: "\<not> (r = root \<and> q = p)" using Cons.prems w by (metis list.set_intros(1))
  have "dget (dget_or (foldl apply_write (apply_write res w) ws) root []) p
      = dget (dget_or (apply_write res w) root []) p" by (rule Cons.IH [OF none])
  also have "\<dots> = dget (dget_or res root []) p"
    unfolding w apply_write_dget by (rule if_not_P [OF other])
  finally show ?case by (simp only: foldl_Cons)
qed simp

lemma foldl_writes_own:
  "(root, p, l) \<in> set ws \<Longrightarrow>
     \<exists>l'. (root, p, l') \<in> set ws \<and> dget (dget_or (foldl apply_write res ws) root []) p = Some l'"
proof (induction ws arbitrary: res l)
  case (Cons w ws)
  show ?case
  proof (cases "\<exists>l'. (root, p, l') \<in> set ws")
    case True
    then obtain l' where "(root, p, l') \<in> set ws" by blast
    from Cons.IH [OF this, of "apply_write res w"] show ?thesis
      unfolding foldl_Cons by (meson list.set_intros(2))
  next
    case False
    then have w: "w = (root, p, l)" using set_ConsD [OF Cons.prems] by blast
    from foldl_writes_other [of root p ws] False
    have "dget (dget_or (foldl apply_write (apply_write res w) ws) root []) p
        = dget (dget_or (apply_write res w) root []) p" by blast
    also have "\<dots> = Some l" unfolding w apply_write_dget by (rule if_P) blast
    finally show ?thesis unfolding foldl_Cons using Cons.prems by blast
  qed
next
  case Nil
  then show ?case by (simp only: list.set empty_iff)
qed

section \<open>Contents up to the order of object keys\<close>

definition norm_leaf :: "leaf \<Rightarrow> leaf" where
  "norm_leaf l = \<lparr>lf_hash = sort_keys (lf_hash l), lf_size = sort_keys (lf_size l),
     lf_type = sort_keys (lf_type l), lf_layers = sort_keys (lf_layers l),
     lf_chunks = sort_keys (lf_chunks l)\<rparr>"

text \<open>A row without its tenant and tree hash, its JSON in key order.\<close>

definition strip_row :: "merkle_row \<Rightarrow> merkle_row" where
  "strip_row r = \<lparr>mr_tenant = [], mr_tree_hash = [], mr_name = mr_name r, mr_child = mr_child r,
     mr_object = sort_keys (mr_object r), mr_type = sort_keys (mr_type r),
     mr_size = sort_keys (mr_size r), mr_layers = sort_keys (mr_layers r),
     mr_chunks = sort_keys (mr_chunks r)\<rparr>"

definition content_of :: "merkle_row list \<Rightarrow> hash \<Rightarrow> merkle_row set" where
  "content_of db th = strip_row ` {r \<in> set db. mr_tree_hash r = th}"

definition entries_content :: "tree_entry list \<Rightarrow> merkle_row set" where
  "entries_content es = (\<lambda>e. strip_row (entry_row [] [] e)) ` set es"

definition db_ok :: "(string \<Rightarrow> hash) \<Rightarrow> merkle_row list \<Rightarrow> bool" where
  "db_ok sha db \<longleftrightarrow> (\<forall>r \<in> set db. \<exists>es. sha (render_entries es) = mr_tree_hash r
     \<and> content_of db (mr_tree_hash r) = entries_content es)"

definition no_collision :: "(string \<Rightarrow> hash) \<Rightarrow> bool" where
  "no_collision sha \<longleftrightarrow> (\<forall>x y. sha x = sha y \<longrightarrow> x = y)"

definition keeps :: "merkle_row list \<Rightarrow> merkle_row list \<Rightarrow> bool" where
  "keeps db db' \<longleftrightarrow> (\<forall>h. content_of db h \<noteq> {} \<longrightarrow> content_of db' h = content_of db h)"

lemma strip_row_simps [simp]:
  "mr_name (strip_row r) = mr_name r" "mr_child (strip_row r) = mr_child r"
  "is_subtree (strip_row r) = is_subtree r"
  by (simp_all add: strip_row_def is_subtree_def)

lemma or_list_sort_keys: "or_list (sort_keys j) = sort_keys (or_list j)"
proof (cases j)
  case (JObj fs)
  have "sort_key fst (map (\<lambda>(k, j). (k, sort_keys j)) fs) = [] \<longleftrightarrow> fs = []"
    by (metis length_0_conv length_map length_sort)
  with JObj show ?thesis by (simp add: or_list_def)
qed (auto simp: or_list_def)

lemma row_leaf_strip [simp]: "row_leaf (strip_row r) = norm_leaf (row_leaf r)"
  by (simp add: row_leaf_def norm_leaf_def strip_row_def or_list_sort_keys)

lemma strip_entry_row: "strip_row (entry_row t th e) = strip_row (entry_row [] [] e)"
  by (cases e) (simp_all add: strip_row_def)

lemma sort_entry_json:
  "sort_keys (entry_json (DirEntry n h)) =
     JObj [(''child_hash'', JStr h), (''name'', JStr n), (''obj_hash'', JNull),
           (''size'', JInt 0), (''type'', JStr ''tree'')]"
  "sort_keys (entry_json (FileEntry n ob ty sz la ch)) =
     JObj [(''child_hash'', JNull), (''chunks'', sort_keys ch), (''layers'', sort_keys la),
           (''name'', JStr n), (''obj_hash'', sort_keys ob), (''size'', sort_keys sz),
           (''type'', sort_keys ty)]"
  by (simp_all add: less_list_code less_char_def)

lemma entry_json_strip:
  "sort_keys (entry_json e) = sort_keys (entry_json e') \<Longrightarrow>
     strip_row (entry_row [] [] e) = strip_row (entry_row [] [] e')"
  by (cases e; cases e')
    (simp_all add: sort_entry_json strip_row_def del: entry_json.simps sort_keys.simps(2))

lemma render_entries_content:
  assumes "render_entries es = render_entries es'"
  shows "entries_content es = entries_content es'"
proof -
  have eq: "map (\<lambda>e. sort_keys (entry_json e)) es = map (\<lambda>e. sort_keys (entry_json e)) es'"
    using assms by (simp add: render_entries_def dumps_sorted_inject comp_def)
  show ?thesis using eq
  proof (induction es arbitrary: es')
    case (Cons e es)
    then obtain e' fs where es': "es' = e' # fs" by (cases es') auto
    have "sort_keys (entry_json e) = sort_keys (entry_json e')"
      and rest: "map (\<lambda>e. sort_keys (entry_json e)) es = map (\<lambda>e. sort_keys (entry_json e)) fs"
      using Cons.prems unfolding es' list.map list.inject by blast+
    from entry_json_strip [OF this(1)] Cons.IH [OF rest] show ?case
      by (simp only: es' entries_content_def list.set image_insert)
  qed (simp add: entries_content_def)
qed

lemma content_empty: "content_of db h = {} \<longleftrightarrow> (\<forall>r \<in> set db. mr_tree_hash r \<noteq> h)"
  by (auto simp: content_of_def)

lemma content_append: "content_of (db @ db') h = content_of db h \<union> content_of db' h"
  by (auto simp: content_of_def)

lemma content_rows:
  "content_of (map (entry_row t th) es) h = (if h = th then entries_content es else {})"
proof -
  have "mr_tree_hash (entry_row t th e) = th" for e by (cases e) simp_all
  then have "{r \<in> set (map (entry_row t th) es). mr_tree_hash r = h}
      = (if h = th then entry_row t th ` set es else {})" by auto
  then show ?thesis
    using strip_entry_row [of t th] by (simp add: content_of_def entries_content_def image_image)
qed

lemma db_ok_content:
  assumes "db_ok sha db" and "no_collision sha" and "content_of db (sha (render_entries es)) \<noteq> {}"
  shows "content_of db (sha (render_entries es)) = entries_content es"
proof -
  obtain r where "r \<in> set db" "mr_tree_hash r = sha (render_entries es)"
    using assms(3) by (auto simp: content_empty)
  with assms(1) obtain es' where "sha (render_entries es') = sha (render_entries es)"
    "content_of db (sha (render_entries es)) = entries_content es'" by (auto simp: db_ok_def)
  moreover have "render_entries es' = render_entries es"
    using calculation(1) assms(2) unfolding no_collision_def by blast
  ultimately show ?thesis using render_entries_content by metis
qed

lemma keeps_refl [simp]: "keeps db db"
  by (simp add: keeps_def)

lemma keeps_trans: "keeps a b \<Longrightarrow> keeps b c \<Longrightarrow> keeps a c"
  unfolding keeps_def by metis

lemma store_tree_ok:
  assumes "db_ok sha db" and "no_collision sha" and "store_tree sha tenant cas es db = (db', th)"
  shows "db_ok sha db' \<and> keeps db db' \<and> th = sha (render_entries es)
    \<and> content_of db' th = entries_content es"
proof (cases "tree_exists cas th db")
  case True
  have th: "th = sha (render_entries es)" and db': "db' = db"
    using assms(3) True by (auto simp: store_tree_def Let_def split: if_splits)
  from True have "content_of db th \<noteq> {}" by (auto simp: tree_exists_def content_empty list_ex_iff)
  with db_ok_content [OF assms(1,2)] th db' assms(1) show ?thesis by simp
next
  case False
  have th: "th = sha (render_entries es)" and db': "db' = db @ map (entry_row tenant th) es"
    using assms(3) False by (auto simp: store_tree_def Let_def split: if_splits)
  have content': "content_of db' h = (if h = th then entries_content es else content_of db h)" for h
    using db_ok_content [OF assms(1,2), of es] th
    by (cases "content_of db th = {}") (auto simp: db' content_append content_rows)
  have "db_ok sha db'"
    unfolding db_ok_def
  proof
    fix r
    assume "r \<in> set db'"
    then consider "mr_tree_hash r = th" | "r \<in> set db" "mr_tree_hash r \<noteq> th"
    proof -
      have "mr_tree_hash (entry_row tenant th e) = th" for e by (cases e) simp_all
      with \<open>r \<in> set db'\<close> that show ?thesis unfolding db' by auto
    qed
    then show "\<exists>es. sha (render_entries es) = mr_tree_hash r
        \<and> content_of db' (mr_tree_hash r) = entries_content es"
      using assms(1) th by cases (auto simp: content' db_ok_def)
  qed
  moreover have "keeps db db'"
    using db_ok_content [OF assms(1,2), of es] th by (auto simp: keeps_def content')
  ultimately show ?thesis using th by (simp add: content')
qed


section \<open>Meaning in terms of contents\<close>

fun smeaning :: "(hash \<Rightarrow> merkle_row set) \<Rightarrow> nat \<Rightarrow> hash \<Rightarrow> string \<Rightarrow> (string \<times> leaf) set" where
  "smeaning C 0 th prefix = {}"
| "smeaning C (Suc n) th prefix =
     (\<Union>r \<in> C th. if is_subtree r then smeaning C n (the (mr_child r)) (full_path prefix (mr_name r))
                  else {(full_path prefix (mr_name r), row_leaf r)})"

fun sdeep :: "(hash \<Rightarrow> merkle_row set) \<Rightarrow> nat \<Rightarrow> hash \<Rightarrow> bool" where
  "sdeep C 0 th \<longleftrightarrow> False"
| "sdeep C (Suc n) th \<longleftrightarrow> (\<forall>r \<in> C th. is_subtree r \<longrightarrow> sdeep C n (the (mr_child r)))"

lemma sdeep_deep: "sdeep (content_of db) n th \<longleftrightarrow> deep db n th"
  by (induction n arbitrary: th) (auto simp: content_of_def)

lemma smeaning_meaning:
  "smeaning (content_of db) n th prefix = (\<lambda>(p, l). (p, norm_leaf l)) ` meaning db n th prefix"
proof (induction n arbitrary: th prefix)
  case (Suc n)
  have "smeaning (content_of db) (Suc n) th prefix =
      (\<Union>r \<in> {r \<in> set db. mr_tree_hash r = th}.
         if is_subtree r then smeaning (content_of db) n (the (mr_child r)) (full_path prefix (mr_name r))
         else {(full_path prefix (mr_name r), norm_leaf (row_leaf r))})"
    by (auto simp: content_of_def [of db th] split: if_splits)
  also have "\<dots> = (\<lambda>(p, l). (p, norm_leaf l)) ` meaning db (Suc n) th prefix"
    unfolding Suc.IH meaning.simps(2) image_UN by (rule SUP_cong) auto
  finally show ?case .
qed simp

lemma sdeep_mono: "sdeep C n th \<Longrightarrow> n \<le> m \<Longrightarrow> sdeep C m th"
proof (induction n arbitrary: m th)
  case (Suc n)
  then obtain m' where "m = Suc m'" "n \<le> m'" by (cases m) auto
  with Suc show ?case by auto
qed simp

lemma smeaning_deep: "sdeep C n th \<Longrightarrow> n \<le> m \<Longrightarrow> smeaning C m th prefix = smeaning C n th prefix"
proof (induction n arbitrary: m th prefix)
  case (Suc n)
  then obtain m' where m: "m = Suc m'" "n \<le> m'" by (cases m) auto
  show ?case unfolding m(1) smeaning.simps(2)
  proof (rule SUP_cong [OF refl])
    fix r
    assume "r \<in> C th"
    with Suc.prems(1) Suc.IH [of "the (mr_child r)" m' "full_path prefix (mr_name r)"] m(2)
    show "(if is_subtree r then smeaning C m' (the (mr_child r)) (full_path prefix (mr_name r))
          else {(full_path prefix (mr_name r), row_leaf r)})
        = (if is_subtree r then smeaning C n (the (mr_child r)) (full_path prefix (mr_name r))
          else {(full_path prefix (mr_name r), row_leaf r)})" by simp
  qed
qed simp

section \<open>What a commit's tree means\<close>

text \<open>The leaf an info stands for, missing fields with the defaults of the code.\<close>

fun info_leaf :: "json \<Rightarrow> leaf" where
  "info_leaf (JObj fs) =
     \<lparr>lf_hash = sort_keys (field fs ''hash'' JNull), lf_size = sort_keys (field fs ''size'' (JInt 0)),
      lf_type = sort_keys (field fs ''type'' (JStr ''file'')),
      lf_layers = sort_keys (or_list (field fs ''layers'' (JList []))),
      lf_chunks = sort_keys (or_list (field fs ''chunks'' (JList [])))\<rparr>"
| "info_leaf h =
     \<lparr>lf_hash = h, lf_size = JInt 0, lf_type = JStr ''code'', lf_layers = JList [],
      lf_chunks = JList []\<rparr>"

definition is_info :: "json \<Rightarrow> bool" where
  "is_info i \<longleftrightarrow> (case i of JStr _ \<Rightarrow> True | JObj _ \<Rightarrow> True | _ \<Rightarrow> False)"

text \<open>A tree of paths as file systems have it: no path is also a directory of another.\<close>

definition tree_wf :: "flat_tree \<Rightarrow> bool" where
  "tree_wf t \<longleftrightarrow> dict_wf t \<and> (\<forall>i \<in> snd ` set t. is_info i)
     \<and> (\<forall>p \<in> fst ` set t. \<forall>q \<in> fst ` set t. \<not> startswith q (p @ ''/''))"

definition tree_paths :: "string \<Rightarrow> flat_tree \<Rightarrow> (string \<times> leaf) set" where
  "tree_paths prefix t = (\<lambda>(p, i). (full_path prefix p, info_leaf i)) ` set t"

definition prefix_ok :: "string \<Rightarrow> flat_tree \<Rightarrow> bool" where
  "prefix_ok prefix t \<longleftrightarrow> prefix \<noteq> [] \<or> (\<forall>p \<in> fst ` set t. \<not> startswith p ''/'')"

fun node_paths :: "string \<Rightarrow> string \<times> node \<Rightarrow> (string \<times> leaf) set" where
  "node_paths prefix (n, NFile i) = {(full_path prefix n, info_leaf i)}"
| "node_paths prefix (n, NDir ch) = tree_paths (full_path prefix n) ch"

text \<open>What grouping keeps: the nodes hold exactly the paths consumed so far.\<close>

fun node_files :: "string \<times> node \<Rightarrow> (string \<times> json) set" where
  "node_files (n, NFile i) = {(n, i)}"
| "node_files (n, NDir ch) = (\<lambda>(p, i). (n @ ''/'' @ p, i)) ` set ch"

definition nodes_ok :: "(string, node) dict \<Rightarrow> bool" where
  "nodes_ok ns \<longleftrightarrow> dict_wf ns
     \<and> (\<forall>(n, x) \<in> set ns. CHR ''/'' \<notin> set n \<and> (\<forall>ch. x = NDir ch \<longrightarrow> ch \<noteq> [] \<and> dict_wf ch))"

definition all_files :: "(string, node) dict \<Rightarrow> (string \<times> json) set" where
  "all_files ns = \<Union> (node_files ` set ns)"

lemma dget_in: "dget d k = Some v \<Longrightarrow> (k, v) \<in> set d"
  by (rule map_of_SomeD)

lemma set_dset_new: "dget d k = None \<Longrightarrow> set (dset d k v) = insert (k, v) (set d)"
  by (induction d) (auto split: if_splits)

lemma set_dset_old:
  "dict_wf d \<Longrightarrow> dget d k = Some w \<Longrightarrow> set (dset d k v) = insert (k, v) (set d - {(k, w)})"
proof (induction d)
  case (Cons a d)
  then show ?case by (cases a) (auto simp: dict_wf_def rev_image_eqI split: if_splits)
qed simp

lemma startswith_iff: "startswith s p \<longleftrightarrow> (\<exists>r. s = p @ r)"
  by (metis append_eq_conv_conj append_take_drop_id startswith_def)

lemma add_path_ok:
  assumes "nodes_ok ns" and "(p, i) \<notin> all_files ns" and "\<forall>j. (p, j) \<notin> all_files ns"
    and "\<forall>(q, j) \<in> all_files ns. \<not> startswith q (p @ ''/'') \<and> \<not> startswith p (q @ ''/'')"
  shows "\<exists>ns'. add_path ns p i = Some ns' \<and> nodes_ok ns' \<and> all_files ns' = insert (p, i) (all_files ns)"
proof -
  obtain name b rest where part: "partition_on CHR ''/'' p = (name, b, rest)" by (metis prod_cases3)
  note pp = partition_on_parts [OF part]
  have wf: "dict_wf ns" using assms(1) by (simp add: nodes_ok_def)
  show ?thesis
  proof (cases b)
    case False
    with pp have name: "name = p" by simp
    have new: "dget ns p = None"
    proof (rule ccontr)
      assume "dget ns p \<noteq> None"
      then obtain x where x: "(p, x) \<in> set ns" by (auto dest: dget_in)
      then show False
      proof (cases x)
        case (NFile j)
        with x assms(3) show ?thesis by (force simp: all_files_def)
      next
        case (NDir ch)
        with x assms(1) obtain q j where "(q, j) \<in> set ch" by (fastforce simp: nodes_ok_def neq_Nil_conv)
        with x NDir have "(p @ ''/'' @ q, j) \<in> all_files ns" by (force simp: all_files_def)
        with assms(4) show ?thesis by (fastforce simp: startswith_iff)
      qed
    qed
    have add: "add_path ns p i = Some (dset ns p (NFile i))"
      using part False name by (simp add: add_path_def)
    note set' = set_dset_new [OF new, of "NFile i"]
    have "CHR ''/'' \<notin> set p" using pp unfolding name by (rule conjunct1)
    then have "nodes_ok (dset ns p (NFile i))"
      using assms(1) dict_wf_dset [OF wf] unfolding nodes_ok_def set' by simp
    moreover have "all_files (dset ns p (NFile i)) = insert (p, i) (all_files ns)"
      unfolding all_files_def set' by simp
    ultimately show ?thesis using add by blast
  next
    case True
    with pp have p: "p = name @ ''/'' @ rest" "CHR ''/'' \<notin> set name" by simp_all
    show ?thesis
    proof (cases "dget ns name")
      case None
      with part True have "add_path ns p i = Some (dset ns name (NDir [(rest, i)]))"
        by (simp add: add_path_def)
      moreover note set' = set_dset_new [OF None, of "NDir [(rest, i)]"]
      have "nodes_ok (dset ns name (NDir [(rest, i)]))"
        using assms(1) p(2) dict_wf_dset [OF wf] unfolding nodes_ok_def set' by (simp add: dict_wf_def)
      moreover have "all_files (dset ns name (NDir [(rest, i)])) = insert (p, i) (all_files ns)"
        unfolding all_files_def set' by (simp add: p(1))
      ultimately show ?thesis by blast
    next
      case (Some x)
      note x = dget_in [OF Some]
      show ?thesis
      proof (cases x)
        case (NFile j)
        with x have "(name, j) \<in> all_files ns" by (force simp: all_files_def)
        with assms(4) p show ?thesis by (fastforce simp: startswith_iff)
      next
        case (NDir ch)
        with part True Some have add: "add_path ns p i = Some (dset ns name (NDir (dset ch rest i)))"
          by (simp add: add_path_def)
        have ch: "ch \<noteq> []" "dict_wf ch" using assms(1) x NDir by (auto simp: nodes_ok_def)
        have new: "dget ch rest = None"
        proof (rule ccontr)
          assume "dget ch rest \<noteq> None"
          then obtain j where "(rest, j) \<in> set ch" by (auto dest: dget_in)
          with x NDir p have "(p, j) \<in> all_files ns" by (force simp: all_files_def)
          with assms(3) show False by blast
        qed
        have "nodes_ok (dset ns name (NDir (dset ch rest i)))"
          using assms(1) p(2) dict_wf_dset [OF wf] dict_wf_dset [OF ch(2)]
          unfolding nodes_ok_def set_dset_old [OF wf Some] by (auto simp: update_nonempty)
        moreover have "all_files (dset ns name (NDir (dset ch rest i))) = insert (p, i) (all_files ns)"
        proof -
          have "set ns = insert (name, NDir ch) (set ns - {(name, NDir ch)})" using x NDir by auto
          then have "all_files ns = node_files (name, NDir ch) \<union> \<Union> (node_files ` (set ns - {(name, NDir ch)}))"
            unfolding all_files_def by blast
          then show ?thesis
            by (simp add: all_files_def set_dset_old [OF wf Some] NDir set_dset_new [OF new] p)
        qed
        ultimately show ?thesis using add by blast
      qed
    qed
  qed
qed


lemma tree_wf_dict: "tree_wf t \<Longrightarrow> (p, i) \<in> set t \<Longrightarrow> (p, j) \<in> set t \<Longrightarrow> i = j"
  by (auto simp: tree_wf_def dict_wf_get)

lemma group_paths_ok:
  assumes "tree_wf (before @ t)" and "nodes_ok ns" and "all_files ns = set before"
  shows "\<exists>ns'. group_paths t ns = Some ns' \<and> nodes_ok ns' \<and> all_files ns' = set (before @ t)"
  using assms
proof (induction t arbitrary: before ns)
  case (Cons pi t)
  obtain p i where pi: "pi = (p, i)" by (cases pi)
  have wf: "tree_wf (before @ (p, i) # t)" using Cons.prems(1) pi by simp
  then have fresh: "\<forall>j. (p, j) \<notin> set before" 
    unfolding tree_wf_def dict_wf_def by (auto simp: image_iff)
  have clash: "\<not> startswith q (p @ ''/'') \<and> \<not> startswith p (q @ ''/'')" if "(q, j) \<in> set before" for q j
  proof -
    note nc = wf [unfolded tree_wf_def, THEN conjunct2, THEN conjunct2]
    have "q \<in> fst ` set (before @ (p, i) # t)" "p \<in> fst ` set (before @ (p, i) # t)"
      using that by (force, simp)
    then show ?thesis using nc by blast
  qed
  have clash: "\<forall>(q, j) \<in> set before. \<not> startswith q (p @ ''/'') \<and> \<not> startswith p (q @ ''/'')"
    using clash by blast
  from add_path_ok [OF Cons.prems(2), of p i] fresh clash Cons.prems(3) obtain ns1 where
    ns1: "add_path ns p i = Some ns1" "nodes_ok ns1" "all_files ns1 = insert (p, i) (set before)"
    by auto
  from Cons.IH [of "before @ [(p, i)]" ns1] wf ns1(2,3) obtain ns' where
    "group_paths t ns1 = Some ns'" "nodes_ok ns'" "all_files ns' = set (before @ (p, i) # t)"
    by auto
  with ns1(1) pi show ?case by auto
qed simp

lemma full_path_join:
  "prefix \<noteq> [] \<or> n \<noteq> [] \<Longrightarrow> full_path (full_path prefix n) p = full_path prefix (n @ ''/'' @ p)"
  by (simp add: full_path_def)

lemma node_tree_wf:
  assumes "tree_wf t" and "nodes_ok ns" and "all_files ns = set t" and "(n, NDir ch) \<in> set ns"
  shows "tree_wf ch"
proof -
  have mem: "(n @ ''/'' @ p, i) \<in> set t" if "(p, i) \<in> set ch" for p i
    using that assms(3,4) unfolding all_files_def by force
  have "dict_wf ch" using assms(2,4) unfolding nodes_ok_def by fastforce
  moreover have "is_info i" if "(p, i) \<in> set ch" for p i
    using mem [OF that] assms(1) unfolding tree_wf_def by force
  moreover have "\<not> startswith q (p @ ''/'')" if "(p, i) \<in> set ch" "(q, j) \<in> set ch" for p i q j
  proof
    assume "startswith q (p @ ''/'')"
    then have "startswith (n @ ''/'' @ q) ((n @ ''/'' @ p) @ ''/'')" by (auto simp: startswith_iff)
    with mem [OF that(1)] mem [OF that(2)] assms(1) show False unfolding tree_wf_def by force
  qed
  ultimately show ?thesis unfolding tree_wf_def by force
qed

lemma node_files_paths:
  assumes "prefix \<noteq> [] \<or> n \<noteq> [] \<or> (\<exists>i. x = NFile i)"
  shows "node_paths prefix (n, x) = (\<lambda>(p, i). (full_path prefix p, info_leaf i)) ` node_files (n, x)"
proof (cases x)
  case (NDir ch)
  with assms have "prefix \<noteq> [] \<or> n \<noteq> []" by simp
  note join = full_path_join [OF this]
  from NDir show ?thesis by (auto simp: tree_paths_def image_image join split_def)
qed simp

lemma tree_paths_nodes:
  assumes "nodes_ok ns" and "all_files ns = set t" and "prefix_ok prefix t"
  shows "tree_paths prefix t = (\<Union>nx \<in> set ns. node_paths prefix nx)"
proof -
  have ok: "prefix \<noteq> [] \<or> n \<noteq> [] \<or> (\<exists>i. x = NFile i)" if "(n, x) \<in> set ns" for n x
  proof (cases x)
    case (NDir ch)
    with that assms(1) obtain p i where "(p, i) \<in> set ch" by (fastforce simp: nodes_ok_def neq_Nil_conv)
    with that NDir have "(n @ ''/'' @ p, i) \<in> all_files ns" unfolding all_files_def by force
    with assms(2,3) have "prefix \<noteq> [] \<or> \<not> startswith (n @ ''/'' @ p) ''/''"
      unfolding prefix_ok_def by force
    then show ?thesis by (auto simp: startswith_def)
  qed simp
  have "(\<Union>nx \<in> set ns. node_paths prefix nx)
      = (\<Union>nx \<in> set ns. (\<lambda>(p, i). (full_path prefix p, info_leaf i)) ` node_files nx)"
    using node_files_paths [OF ok] by (intro SUP_cong) auto
  also have "\<dots> = (\<lambda>(p, i). (full_path prefix p, info_leaf i)) ` all_files ns"
    unfolding all_files_def by blast
  finally show ?thesis using assms(2) by (simp add: tree_paths_def)
qed

section \<open>The build stores what the tree means\<close>

definition entry_deep :: "(hash \<Rightarrow> merkle_row set) \<Rightarrow> nat \<Rightarrow> tree_entry \<Rightarrow> bool" where
  "entry_deep C n e \<longleftrightarrow> (case e of DirEntry _ h \<Rightarrow> sdeep C n h | _ \<Rightarrow> True)"

definition entry_meaning ::
  "(hash \<Rightarrow> merkle_row set) \<Rightarrow> nat \<Rightarrow> string \<Rightarrow> tree_entry \<Rightarrow> (string \<times> leaf) set" where
  "entry_meaning C n prefix e =
     (case e of DirEntry name h \<Rightarrow> smeaning C n h (full_path prefix name)
      | FileEntry name _ _ _ _ _ \<Rightarrow> {(full_path prefix name, row_leaf (strip_row (entry_row [] [] e)))})"

lemma entry_row_simps:
  "is_subtree (entry_row t th (DirEntry nm h)) \<longleftrightarrow> h \<noteq> []" "mr_child (entry_row t th (DirEntry nm h)) = Some h"
  "mr_name (entry_row t th (DirEntry nm h)) = nm"
  "\<not> is_subtree (entry_row t th (FileEntry nm ob ty sz la ch))"
  "mr_name (entry_row t th (FileEntry nm ob ty sz la ch)) = nm"
  by (simp_all add: is_subtree_def)

lemma row_meaning:
  assumes "\<forall>nm h. e = DirEntry nm h \<longrightarrow> h \<noteq> []"
  defines "r \<equiv> strip_row (entry_row [] [] e)"
  shows "(if is_subtree r then smeaning C n (the (mr_child r)) (full_path prefix (mr_name r))
          else {(full_path prefix (mr_name r), row_leaf r)}) = entry_meaning C n prefix e"
    and "(is_subtree r \<longrightarrow> sdeep C n (the (mr_child r))) = entry_deep C n e"
proof -
  have "(if is_subtree r then smeaning C n (the (mr_child r)) (full_path prefix (mr_name r))
          else {(full_path prefix (mr_name r), row_leaf r)}) = entry_meaning C n prefix e
      \<and> (is_subtree r \<longrightarrow> sdeep C n (the (mr_child r))) = entry_deep C n e"
  proof (cases e)
    case (DirEntry nm h)
    with assms(1) show ?thesis
      by (simp only: r_def strip_row_simps entry_row_simps entry_meaning_def entry_deep_def
          tree_entry.case option.sel if_True simp_thms)
  next
    case (FileEntry nm ob ty sz la ch)
    show ?thesis
      unfolding r_def FileEntry strip_row_simps
      by (simp only: entry_row_simps entry_meaning_def entry_deep_def tree_entry.case if_False simp_thms)
  qed
  then show "(if is_subtree r then smeaning C n (the (mr_child r)) (full_path prefix (mr_name r))
          else {(full_path prefix (mr_name r), row_leaf r)}) = entry_meaning C n prefix e"
    and "(is_subtree r \<longrightarrow> sdeep C n (the (mr_child r))) = entry_deep C n e" by blast+
qed

lemma entries_meaning:
  assumes "C th = entries_content es" and "\<forall>n h. DirEntry n h \<in> set es \<longrightarrow> h \<noteq> []"
  shows "smeaning C (Suc n) th prefix = (\<Union>e \<in> set es. entry_meaning C n prefix e)"
    and "sdeep C (Suc n) th \<longleftrightarrow> (\<forall>e \<in> set es. entry_deep C n e)"
proof -
  have pos: "\<forall>nm h. e = DirEntry nm h \<longrightarrow> h \<noteq> []" if "e \<in> set es" for e
    using that assms(2) by blast
  show "smeaning C (Suc n) th prefix = (\<Union>e \<in> set es. entry_meaning C n prefix e)"
    unfolding smeaning.simps(2) assms(1) entries_content_def image_image
    by (rule SUP_cong [OF refl]) (rule row_meaning(1) [OF pos])
  show "sdeep C (Suc n) th \<longleftrightarrow> (\<forall>e \<in> set es. entry_deep C n e)"
    unfolding sdeep.simps(2) assms(1) entries_content_def ball_simps
    by (rule ball_cong [OF refl]) (rule row_meaning(2) [OF pos])
qed

lemma or_list_Nil [simp]: "or_list (JList []) = JList []"
  by (simp add: or_list_def)

lemma file_entry_leaf:
  "file_entry n i = Some e \<Longrightarrow> (\<exists>a b c d f. e = FileEntry n a b c d f)
     \<and> row_leaf (strip_row (entry_row [] [] e)) = info_leaf i"
  by (cases i) (auto simp: row_leaf_def norm_leaf_def strip_row_def or_list_sort_keys)

lemma file_entry_Some: "is_info i \<Longrightarrow> \<exists>e. file_entry n i = Some e"
  by (cases i) (auto simp: is_info_def)


text \<open>
  The invariant of the two mutually recursive builders: the table stays consistent and keeps its
  contents, and in every later consistent table the result means the input.
\<close>

definition tree_built ::
  "(string \<Rightarrow> hash) \<Rightarrow> merkle_row list \<Rightarrow> merkle_row list \<Rightarrow> hash \<Rightarrow> flat_tree \<Rightarrow> bool" where
  "tree_built sha db db' th t \<longleftrightarrow> db_ok sha db' \<and> keeps db db' \<and> th \<noteq> [] \<and>
     (\<forall>later. db_ok sha later \<and> keeps db' later \<longrightarrow>
        (\<exists>n. sdeep (content_of later) n th \<and>
           (\<forall>prefix. prefix_ok prefix t \<longrightarrow> smeaning (content_of later) n th prefix = tree_paths prefix t)))"

definition nodes_prefix_ok :: "string \<Rightarrow> (string, node) dict \<Rightarrow> bool" where
  "nodes_prefix_ok prefix ns \<longleftrightarrow> prefix \<noteq> [] \<or> (\<forall>n ch. (n, NDir ch) \<in> set ns \<longrightarrow> n \<noteq> [])"

definition entries_built ::
  "(string \<Rightarrow> hash) \<Rightarrow> merkle_row list \<Rightarrow> merkle_row list \<Rightarrow> tree_entry list \<Rightarrow> (string, node) dict \<Rightarrow> bool" where
  "entries_built sha db db' es ns \<longleftrightarrow> db_ok sha db' \<and> keeps db db'
   \<and> (\<forall>n h. DirEntry n h \<in> set es \<longrightarrow> h \<noteq> []) \<and>
     (\<forall>later. db_ok sha later \<and> keeps db' later \<longrightarrow>
        (\<exists>n. (\<forall>e \<in> set es. entry_deep (content_of later) n e) \<and>
           (\<forall>prefix. nodes_prefix_ok prefix ns \<longrightarrow>
              (\<Union>e \<in> set es. entry_meaning (content_of later) n prefix e)
                = (\<Union>nx \<in> set ns. node_paths prefix nx))))"

definition nodes_wf :: "(string, node) dict \<Rightarrow> bool" where
  "nodes_wf ns \<longleftrightarrow> (\<forall>(n, x) \<in> set ns. case x of NFile i \<Rightarrow> is_info i | NDir ch \<Rightarrow> tree_wf ch)"

lemma entry_deep_mono: "entry_deep C n e \<Longrightarrow> n \<le> m \<Longrightarrow> entry_deep C m e"
  by (cases e) (auto simp: entry_deep_def intro: sdeep_mono)

lemma entry_meaning_deep:
  "entry_deep C n e \<Longrightarrow> n \<le> m \<Longrightarrow> entry_meaning C m prefix e = entry_meaning C n prefix e"
proof (cases e)
  case (DirEntry nm h)
  assume "entry_deep C n e" "n \<le> m"
  then show ?thesis
    unfolding DirEntry entry_deep_def entry_meaning_def tree_entry.case by (rule smeaning_deep)
qed (simp add: entry_meaning_def)

lemma entries_built_Nil: "db_ok sha db \<Longrightarrow> entries_built sha db db [] []"
  by (simp add: entries_built_def)

lemma entries_built_Cons:
  assumes "keeps db db1"
    and rest: "entries_built sha db1 db2 es ns"
    and ne: "\<forall>n h. e = DirEntry n h \<longrightarrow> h \<noteq> []"
    and here: "\<And>later. db_ok sha later \<Longrightarrow> keeps db1 later \<Longrightarrow>
        \<exists>n. entry_deep (content_of later) n e \<and> (\<forall>prefix. nodes_prefix_ok prefix [nx] \<longrightarrow>
          entry_meaning (content_of later) n prefix e = node_paths prefix nx)"
  shows "entries_built sha db db2 (e # es) (nx # ns)"
proof -
  have main: "\<exists>n. (\<forall>x \<in> set (e # es). entry_deep (content_of later) n x) \<and>
      (\<forall>prefix. nodes_prefix_ok prefix (nx # ns) \<longrightarrow>
        (\<Union>x \<in> set (e # es). entry_meaning (content_of later) n prefix x)
          = (\<Union>y \<in> set (nx # ns). node_paths prefix y))"
    if "db_ok sha later" "keeps db2 later" for later
  proof -
    let ?C = "content_of later"
    have "keeps db1 later" using rest that(2) keeps_trans unfolding entries_built_def by blast
    from here [OF that(1) this] obtain n1 where n1: "entry_deep ?C n1 e"
      "\<forall>prefix. nodes_prefix_ok prefix [nx] \<longrightarrow> entry_meaning ?C n1 prefix e = node_paths prefix nx"
      by blast
    from rest that obtain n2 where n2: "\<forall>x \<in> set es. entry_deep ?C n2 x"
      "\<forall>prefix. nodes_prefix_ok prefix ns \<longrightarrow>
         (\<Union>x \<in> set es. entry_meaning ?C n2 prefix x) = (\<Union>y \<in> set ns. node_paths prefix y)"
      unfolding entries_built_def by blast
    let ?n = "max n1 n2"
    have e: "entry_meaning ?C ?n prefix e = entry_meaning ?C n1 prefix e" for prefix
      by (rule entry_meaning_deep [OF n1(1)]) simp
    have es: "(\<Union>x \<in> set es. entry_meaning ?C ?n prefix x) = (\<Union>x \<in> set es. entry_meaning ?C n2 prefix x)"
      for prefix using n2(1) by (intro SUP_cong refl entry_meaning_deep) auto
    have "\<forall>x \<in> set (e # es). entry_deep ?C ?n x"
      using entry_deep_mono [OF n1(1)] entry_deep_mono n2(1) by (metis list.set_cases max.cobounded1 max.cobounded2 set_ConsD)
    moreover have "(\<Union>x \<in> set (e # es). entry_meaning ?C ?n prefix x)
        = (\<Union>y \<in> set (nx # ns). node_paths prefix y)" if "nodes_prefix_ok prefix (nx # ns)" for prefix
    proof -
      have one: "nodes_prefix_ok prefix [nx]" and more: "nodes_prefix_ok prefix ns"
        using that unfolding nodes_prefix_ok_def list.set by blast+
      show ?thesis
        unfolding list.set UN_insert e es n1(2) [rule_format, OF one] n2(2) [rule_format, OF more]
        by (rule refl)
    qed
    ultimately show ?thesis by blast
  qed
  have "keeps db db2" using assms(1) rest keeps_trans unfolding entries_built_def by blast
  moreover have "db_ok sha db2" using rest unfolding entries_built_def by blast
  moreover have "\<forall>n h. DirEntry n h \<in> set es \<longrightarrow> h \<noteq> []"
    using rest unfolding entries_built_def by (elim conjE)
  then have "\<forall>n h. DirEntry n h \<in> set (e # es) \<longrightarrow> h \<noteq> []" using ne by auto
  ultimately show ?thesis unfolding entries_built_def
    by (intro conjI allI impI) (assumption | elim conjE, rule main, assumption+ | blast)+
qed

lemma store_built:
  assumes "no_collision sha" and "\<forall>x. sha x \<noteq> []"
    and "entries_built sha db db1 es ns" and "store_tree sha tenant cas es db1 = (db2, th)"
    and paths: "\<And>prefix. prefix_ok prefix t \<Longrightarrow> nodes_prefix_ok prefix ns
        \<and> tree_paths prefix t = (\<Union>nx \<in> set ns. node_paths prefix nx)"
  shows "tree_built sha db db2 th t"
proof -
  have ok1: "db_ok sha db1" using assms(3) by (simp add: entries_built_def)
  note st = store_tree_ok [OF ok1 assms(1,4)]
  have main: "\<exists>n. sdeep (content_of later) n th \<and>
      (\<forall>prefix. prefix_ok prefix t \<longrightarrow> smeaning (content_of later) n th prefix = tree_paths prefix t)"
    if later: "db_ok sha later" "keeps db2 later" for later
  proof -
    have th: "th = sha (render_entries es)" using st by simp
    have content: "content_of later th = entries_content es"
    proof (cases "content_of later th = {}")
      case True
      then have "entries_content es = {}" using st later(2) unfolding keeps_def by metis
      with True show ?thesis by simp
    next
      case False
      with db_ok_content [OF later(1) assms(1), of es] th show ?thesis by simp
    qed
    have "keeps db1 later" using st later(2) keeps_trans by blast
    with assms(3) later(1) obtain n where n: "\<forall>e \<in> set es. entry_deep (content_of later) n e"
      "\<forall>prefix. nodes_prefix_ok prefix ns \<longrightarrow> (\<Union>e \<in> set es. entry_meaning (content_of later) n prefix e)
         = (\<Union>nx \<in> set ns. node_paths prefix nx)"
      unfolding entries_built_def by blast
    have ne: "\<forall>n h. DirEntry n h \<in> set es \<longrightarrow> h \<noteq> []" using assms(3) by (simp add: entries_built_def)
    note mean = entries_meaning [where C = "content_of later" and th = th and es = es, OF content ne]
    show ?thesis
      using mean n paths by (intro exI [of _ "Suc n"]) (simp del: smeaning.simps sdeep.simps)
  qed
  have "keeps db db2" using assms(3) st keeps_trans unfolding entries_built_def by blast
  moreover have "th \<noteq> []" using st assms(2) by simp
  moreover have "db_ok sha db2" using st by simp
  ultimately show ?thesis unfolding tree_built_def
    by (intro conjI allI impI) (assumption | elim conjE, rule main, assumption+)+
qed


lemma full_path_nonempty: "prefix \<noteq> [] \<or> n \<noteq> [] \<Longrightarrow> full_path prefix n \<noteq> []"
  by (auto simp: full_path_def)

lemma nodes_prefix:
  assumes "nodes_ok ns" and "all_files ns = set t" and "prefix_ok prefix t"
  shows "nodes_prefix_ok prefix ns"
  unfolding nodes_prefix_ok_def
proof (cases "prefix = []")
  case True
  have "n \<noteq> []" if ch: "(n, NDir ch) \<in> set ns" for n ch
  proof
    assume "n = []"
    from ch assms(1) obtain p i where "(p, i) \<in> set ch" by (fastforce simp: nodes_ok_def neq_Nil_conv)
    with ch \<open>n = []\<close> have "(''/'' @ p, i) \<in> all_files ns" unfolding all_files_def by force
    with assms(2,3) True have "\<not> startswith (''/'' @ p) ''/''" unfolding prefix_ok_def by force
    then show False by (simp add: startswith_def)
  qed
  then show "prefix \<noteq> [] \<or> (\<forall>n ch. (n, NDir ch) \<in> set ns \<longrightarrow> n \<noteq> [])" by blast
qed simp

lemma nodes_wf_of_tree:
  assumes "tree_wf t" and "nodes_ok ns" and "all_files ns = set t"
  shows "nodes_wf ns"
  unfolding nodes_wf_def
proof (clarify)
  fix n x
  assume x: "(n, x) \<in> set ns"
  show "case x of NFile i \<Rightarrow> is_info i | NDir ch \<Rightarrow> tree_wf ch"
  proof (cases x)
    case (NFile i)
    with x have "(n, i) \<in> all_files ns" unfolding all_files_def by force
    with NFile assms(1,3) show ?thesis unfolding tree_wf_def by force
  next
    case (NDir ch)
    with node_tree_wf [OF assms] x show ?thesis by simp
  qed
qed

lemma build_ok:
  assumes "no_collision sha" and "\<forall>x. sha x \<noteq> []"
  shows "db_ok sha db \<Longrightarrow> tree_wf t \<Longrightarrow>
      \<exists>db' th. build_merkle_tree sha tenant cas t db = Some (db', th) \<and> tree_built sha db db' th t"
    and "db_ok sha db \<Longrightarrow> nodes_wf ns \<Longrightarrow>
      \<exists>db' es. build_entries sha tenant cas ns db = Some (db', es) \<and> entries_built sha db db' es ns"
  using assms
proof (induction sha tenant cas t db and sha tenant cas ns db
    rule: build_merkle_tree_build_entries.induct)
  case (1 sha tenant cas t db)
  from group_paths_ok [of "[]" t "[]"] "1.prems"(2) obtain ns where
    ns: "group_paths t [] = Some ns" "nodes_ok ns" "all_files ns = set t"
    by (auto simp: nodes_ok_def all_files_def)
  let ?ns = "sort_key fst ns"
  have "nodes_wf ?ns" using nodes_wf_of_tree [OF "1.prems"(2) ns(2,3)] by (simp add: nodes_wf_def)
  from "1.IH" [OF ns(1) "1.prems"(1) this "1.prems"(3,4)] obtain db1 es where
    es: "build_entries sha tenant cas ?ns db = Some (db1, es)" "entries_built sha db db1 es ?ns" by blast
  obtain db2 th where st: "store_tree sha tenant cas es db1 = (db2, th)" by fastforce
  have "tree_built sha db db2 th t"
  proof (rule store_built [OF "1.prems"(3,4) es(2) st])
    fix prefix
    assume "prefix_ok prefix t"
    from nodes_prefix [OF ns(2,3) this] tree_paths_nodes [OF ns(2,3) this]
    show "nodes_prefix_ok prefix ?ns \<and> tree_paths prefix t = (\<Union>nx \<in> set ?ns. node_paths prefix nx)"
      by (simp add: nodes_prefix_ok_def)
  qed
  with ns(1) es(1) st show ?case by simp
next
  case (2 sha tenant cas db)
  then show ?case by (simp add: entries_built_Nil)
next
  case (3 sha tenant cas n ch ns db)
  then have wf: "tree_wf ch" "nodes_wf ns" by (auto simp: nodes_wf_def)
  from "3.IH"(1) [OF "3.prems"(1) wf(1) "3.prems"(3,4)] obtain db1 h where
    h: "build_merkle_tree sha tenant cas ch db = Some (db1, h)" "tree_built sha db db1 h ch" by blast
  have ok1: "db_ok sha db1" "keeps db db1" "h \<noteq> []" using h(2) unfolding tree_built_def by blast+
  from "3.IH"(2) [OF h(1) refl ok1(1) wf(2) "3.prems"(3,4)] obtain db2 es where
    es: "build_entries sha tenant cas ns db1 = Some (db2, es)" "entries_built sha db1 db2 es ns" by blast
  have "entries_built sha db db2 (DirEntry n h # es) ((n, NDir ch) # ns)"
  proof (rule entries_built_Cons [OF ok1(2) es(2)])
    show "\<forall>na ha. DirEntry n h = DirEntry na ha \<longrightarrow> ha \<noteq> []" using ok1(3) by simp
    fix later
    assume "db_ok sha later" "keeps db1 later"
    with h(2) obtain k where k: "sdeep (content_of later) k h"
      "\<And>prefix. prefix_ok prefix ch \<Longrightarrow> smeaning (content_of later) k h prefix = tree_paths prefix ch"
      unfolding tree_built_def by blast
    have "smeaning (content_of later) k h (full_path prefix n) = tree_paths (full_path prefix n) ch"
      if "nodes_prefix_ok prefix [(n, NDir ch)]" for prefix
      by (rule k(2)) (use that in \<open>simp add: nodes_prefix_ok_def prefix_ok_def full_path_nonempty\<close>)
    then show "\<exists>k. entry_deep (content_of later) k (DirEntry n h) \<and>
        (\<forall>prefix. nodes_prefix_ok prefix [(n, NDir ch)] \<longrightarrow>
          entry_meaning (content_of later) k prefix (DirEntry n h) = node_paths prefix (n, NDir ch))"
      using k(1) by (intro exI [of _ k]) (simp add: entry_deep_def entry_meaning_def)
  qed
  with h(1) es(1) show ?case by simp
next
  case (4 sha tenant cas n i ns db)
  then have wf: "is_info i" "nodes_wf ns" by (auto simp: nodes_wf_def)
  obtain e where e: "file_entry n i = Some e" using file_entry_Some [OF wf(1)] by blast
  from "4.IH" [OF e "4.prems"(1) wf(2) "4.prems"(3,4)] obtain db2 es where
    es: "build_entries sha tenant cas ns db = Some (db2, es)" "entries_built sha db db2 es ns" by blast
  from file_entry_leaf [OF e] obtain a b c d f where fe: "e = FileEntry n a b c d f"
    "row_leaf (strip_row (entry_row [] [] e)) = info_leaf i" by blast
  have "entries_built sha db db2 (e # es) ((n, NFile i) # ns)"
  proof (rule entries_built_Cons [OF keeps_refl es(2)])
    have "entry_meaning C k prefix e = node_paths prefix (n, NFile i)" for C k prefix
      using fe(2) unfolding fe(1) entry_meaning_def by simp
    then show "\<exists>k. entry_deep (content_of later) k e \<and>
        (\<forall>prefix. nodes_prefix_ok prefix [(n, NFile i)] \<longrightarrow>
          entry_meaning (content_of later) k prefix e = node_paths prefix (n, NFile i))" for later
      by (simp add: fe(1) entry_deep_def)
  qed (simp add: fe(1))
  with e es(1) show ?case by simp
qed


text \<open>A build that succeeds, of any tree, keeps the contents that are stored.\<close>

lemma build_keeps:
  assumes "no_collision sha"
  shows "build_merkle_tree sha tenant cas t db = Some (db', th) \<Longrightarrow> db_ok sha db \<Longrightarrow> db_ok sha db' \<and> keeps db db'"
    and "build_entries sha tenant cas ns db = Some (db', es) \<Longrightarrow> db_ok sha db \<Longrightarrow> db_ok sha db' \<and> keeps db db'"
  using assms
proof (induction sha tenant cas t db and sha tenant cas ns db arbitrary: db' th and db' es
    rule: build_merkle_tree_build_entries.induct)
  case (1 sha tenant cas t db)
  then obtain ns db1 es where ns: "group_paths t [] = Some ns"
    and es: "build_entries sha tenant cas (sort_key fst ns) db = Some (db1, es)"
    and st: "store_tree sha tenant cas es db1 = (db', th)"
    by (auto split: option.splits)
  from "1.IH" [OF ns es "1.prems"(2,3)] store_tree_ok [OF _ "1.prems"(3) st] keeps_trans show ?case by blast
next
  case (3 sha tenant cas n ch ns db)
  then obtain db1 h es' where h: "build_merkle_tree sha tenant cas ch db = Some (db1, h)"
    and es: "build_entries sha tenant cas ns db1 = Some (db', es')"
    by (auto split: option.splits)
  from "3.IH"(1) [OF h "3.prems"(2,3)] "3.IH"(2) [OF h refl es _ "3.prems"(3)] keeps_trans show ?case by blast
next
  case (4 sha tenant cas n i ns db)
  then obtain e es' where "file_entry n i = Some e" "build_entries sha tenant cas ns db = Some (db', es')"
    by (auto split: option.splits)
  with "4.IH" "4.prems"(2,3) show ?case by blast
qed simp

lemma tree_built_later:
  "tree_built sha db db' th t \<Longrightarrow> keeps db' db'' \<Longrightarrow> db_ok sha db'' \<Longrightarrow> tree_built sha db db'' th t"
  using keeps_trans unfolding tree_built_def by meson

section \<open>The round trip\<close>

lemma resolve_tree_meaning:
  assumes "deep db n root" and "root \<noteq> []"
  shows "\<exists>d. resolve_tree n db root = Some d
    \<and> (\<forall>p. (\<forall>l. (p, l) \<notin> meaning db n root []) \<longrightarrow> dget d p = None)
    \<and> (\<forall>p l. (p, l) \<in> meaning db n root [] \<longrightarrow>
          (\<exists>l'. (p, l') \<in> meaning db n root [] \<and> dget d p = Some l'))"
proof -
  let ?fr = "[(root, root, [])]" and ?res = "[(root, [])]"
  have "frontier_deep db n ?fr" using assms(1) by (simp add: frontier_deep_def)
  from resolve_levels_writes [OF this, of ?res] obtain ws where
    ws: "resolve_levels n db ?fr ?res = Some (foldl apply_write ?res ws)"
    "set ws = frontier_meaning db n ?fr" by blast
  have mem: "(root, p, l) \<in> set ws \<longleftrightarrow> (p, l) \<in> meaning db n root []" for p l
    by (simp add: ws(2) frontier_meaning_def)
  have res: "resolve_tree n db root = Some (dget_or (foldl apply_write ?res ws) root [])"
    using assms(2) ws(1) by (simp add: resolve_tree_def resolve_trees_def)
  have none: "dget (dget_or (foldl apply_write ?res ws) root []) p = None"
    if "\<forall>l. (p, l) \<notin> meaning db n root []" for p
  proof -
    from foldl_writes_other [of root p ws ?res] that mem
    have "dget (dget_or (foldl apply_write ?res ws) root []) p = dget (dget_or ?res root []) p" by blast
    then show ?thesis by (simp add: dget_or_def)
  qed
  moreover have "\<exists>l'. (p, l') \<in> meaning db n root []
      \<and> dget (dget_or (foldl apply_write ?res ws) root []) p = Some l'"
    if "(p, l) \<in> meaning db n root []" for p l
    using foldl_writes_own [of root p l ws ?res] that mem by blast
  ultimately show ?thesis using res by blast
qed

text \<open>A tree read back from the registry: the paths of the commit's tree with their infos.\<close>

definition same_tree :: "(string, leaf) dict \<Rightarrow> flat_tree \<Rightarrow> bool" where
  "same_tree d t \<longleftrightarrow> (\<forall>p. map_option norm_leaf (dget d p) = map_option info_leaf (dget t p))"

lemma tree_built_resolves:
  assumes "tree_built sha db db' th t" and "tree_wf t"
    and "\<forall>p \<in> fst ` set t. \<not> startswith p ''/''"
  shows "\<exists>n. \<forall>fuel \<ge> n. \<exists>d. resolve_tree fuel db' th = Some d \<and> same_tree d t"
proof -
  have ok: "db_ok sha db'" and ne: "th \<noteq> []" using assms(1) by (simp_all add: tree_built_def)
  from assms(1) ok obtain n where n: "sdeep (content_of db') n th"
    "\<And>prefix. prefix_ok prefix t \<Longrightarrow> smeaning (content_of db') n th prefix = tree_paths prefix t"
    unfolding tree_built_def using keeps_refl by blast
  show ?thesis
  proof (intro exI [of _ n] allI impI)
    fix fuel
    assume "n \<le> fuel"
    from sdeep_mono [OF n(1) this] have deep: "deep db' fuel th" by (simp add: sdeep_deep)
    have "prefix_ok [] t" using assms(3) by (simp add: prefix_ok_def)
    from n(2) [OF this] have mean: "(\<lambda>(p, l). (p, norm_leaf l)) ` meaning db' fuel th [] = tree_paths [] t"
      using smeaning_deep [OF n(1) \<open>n \<le> fuel\<close>, of "[]"] by (simp add: smeaning_meaning)
    have paths: "(p, l) \<in> tree_paths [] t \<longleftrightarrow> (\<exists>i. dget t p = Some i \<and> l = info_leaf i)" for p l
    proof -
      have wf: "dict_wf t" using assms(2) by (simp add: tree_wf_def)
      have "(p, l) \<in> tree_paths [] t \<longleftrightarrow> (\<exists>i. (p, i) \<in> set t \<and> l = info_leaf i)"
        unfolding tree_paths_def full_path_def by force
      then show ?thesis unfolding dict_wf_get [OF wf] .
    qed
    from resolve_tree_meaning [OF deep ne] obtain d where d: "resolve_tree fuel db' th = Some d"
      "\<And>p. (\<forall>l. (p, l) \<notin> meaning db' fuel th []) \<Longrightarrow> dget d p = None"
      "\<And>p l. (p, l) \<in> meaning db' fuel th [] \<Longrightarrow>
         \<exists>l'. (p, l') \<in> meaning db' fuel th [] \<and> dget d p = Some l'" by blast
    have "map_option norm_leaf (dget d p) = map_option info_leaf (dget t p)" for p
    proof (cases "dget t p")
      case None
      have "(p, l) \<notin> meaning db' fuel th []" for l
      proof
        assume "(p, l) \<in> meaning db' fuel th []"
        then have "(p, norm_leaf l) \<in> tree_paths [] t" unfolding mean [symmetric] by force
        with None paths show False by simp
      qed
      with d(2) [of p] None show ?thesis by simp
    next
      case (Some i)
      then have "(p, info_leaf i) \<in> tree_paths [] t" using paths by blast
      then obtain l where l: "(p, l) \<in> meaning db' fuel th []" unfolding mean [symmetric] by force
      from d(3) [OF l] obtain l' where l': "(p, l') \<in> meaning db' fuel th []" "dget d p = Some l'" by blast
      then have "(p, norm_leaf l') \<in> tree_paths [] t" unfolding mean [symmetric] by force
      with paths Some l'(2) show ?thesis by simp
    qed
    with d(1) show "\<exists>d. resolve_tree fuel db' th = Some d \<and> same_tree d t"
      by (auto simp: same_tree_def)
  qed
qed

lemma no_collision_iff: "no_collision sha \<longleftrightarrow> \<not> collision sha"
  by (auto simp: no_collision_def collision_def)

text \<open>
  C8. Trees survive the registry: for every tree of files (no path a directory of another, none
  absolute, infos objects or hash strings) the build succeeds on any consistent table, keeps it
  consistent, and resolving the returned root with enough levels of fuel gives back exactly the
  paths of the tree with their hash, size, type, layers and chunks, in both isolation modes; or
  SHA-256 collides. The rows are those handed to the database, which takes the ones that \<open>columns_fit\<close>;
  \<open>push_commit\<close> fails on the others (\<open>Commits.thy\<close>).
\<close>

theorem tree_roundtrip:
  assumes "\<forall>x. sha x \<noteq> []" and "db_ok sha db" and "tree_wf t"
    and "\<forall>p \<in> fst ` set t. \<not> startswith p ''/''"
  shows "(\<exists>db' th n. build_merkle_tree sha tenant cas t db = Some (db', th) \<and> db_ok sha db'
      \<and> (\<forall>fuel \<ge> n. \<exists>d. resolve_tree fuel db' th = Some d \<and> same_tree d t))
    \<or> collision sha"
proof (cases "collision sha")
  case False
  then have nc: "no_collision sha" by (simp add: no_collision_iff)
  from build_ok(1) [OF nc assms(1-3), of tenant cas] obtain db' th where
    b: "build_merkle_tree sha tenant cas t db = Some (db', th)" "tree_built sha db db' th t" by blast
  from tree_built_resolves [OF b(2) assms(3,4)] b show ?thesis
    unfolding tree_built_def by blast
qed simp

text \<open>
  C26. A root hash determines the tree: when two trees are stored one after the other and get the
  same root hash, they have the same paths with the same infos, or SHA-256 collides; so a commit
  cannot be made to point at another tree.
\<close>

theorem root_hash_binds_tree:
  assumes "\<forall>x. sha x \<noteq> []" and "db_ok sha db" and "tree_wf t" and "tree_wf t'"
    and "\<forall>p \<in> fst ` set t \<union> fst ` set t'. \<not> startswith p ''/''"
    and "build_merkle_tree sha tenant cas t db = Some (db1, th)"
    and "build_merkle_tree sha tenant' cas' t' db1 = Some (db2, th)"
  shows "(\<forall>p. map_option info_leaf (dget t p) = map_option info_leaf (dget t' p)) \<or> collision sha"
proof (cases "collision sha")
  case False
  then have nc: "no_collision sha" by (simp add: no_collision_iff)
  from build_ok(1) [OF nc assms(1-3), of tenant cas] assms(6) have b1: "tree_built sha db db1 th t" by auto
  then have ok1: "db_ok sha db1" unfolding tree_built_def by blast
  from build_ok(1) [OF nc assms(1) ok1 assms(4), of tenant' cas'] assms(7)
  have b2: "tree_built sha db1 db2 th t'" by auto
  have "tree_built sha db db2 th t"
    using b1 b2 keeps_trans unfolding tree_built_def by meson
  from tree_built_resolves [OF this assms(3)] assms(5) obtain n1 where
    n1: "\<forall>fuel \<ge> n1. \<exists>d. resolve_tree fuel db2 th = Some d \<and> same_tree d t" by auto
  from tree_built_resolves [OF b2 assms(4)] assms(5) obtain n2 where
    n2: "\<forall>fuel \<ge> n2. \<exists>d. resolve_tree fuel db2 th = Some d \<and> same_tree d t'" by auto
  from n1 [rule_format, of "max n1 n2"] n2 [rule_format, of "max n1 n2"]
  obtain d where "same_tree d t" "same_tree d t'" by auto
  then show ?thesis by (simp add: same_tree_def)
qed simp


section \<open>Concrete trees\<close>

text \<open>An injective stand-in for SHA-256 with nonempty digests.\<close>

definition toy_digest :: "string \<Rightarrow> hash" where
  "toy_digest s = CHR ''h'' # s"

lemma toy_digest_ok: "\<forall>x. toy_digest x \<noteq> []" "\<not> collision toy_digest"
  by (simp_all add: toy_digest_def collision_def)

definition sample_tree :: flat_tree where
  "sample_tree = [(''src/a.py'', JObj [(''hash'', JStr ''aa''), (''size'', JInt 3)]),
     (''src/b.py'', JStr ''bb''), (''model.pt'', JObj [(''hash'', JStr ''cc''), (''type'', JStr ''artifact'')])]"

lemma sample_tree_wf: "tree_wf sample_tree"
  by (simp add: tree_wf_def sample_tree_def dict_wf_def is_info_def startswith_def)

lemma tree_roundtrip_witness:
  "\<exists>db' th n. build_merkle_tree toy_digest ''t'' None sample_tree [] = Some (db', th) \<and> db_ok toy_digest db'
     \<and> (\<forall>fuel \<ge> n. \<exists>d. resolve_tree fuel db' th = Some d \<and> same_tree d sample_tree)"
  using tree_roundtrip [OF toy_digest_ok(1), of "[]" sample_tree "''t''" None] sample_tree_wf toy_digest_ok(2)
  by (simp add: db_ok_def sample_tree_def startswith_def)

lemma root_hash_binds_tree_witness:
  "\<forall>p. map_option info_leaf (dget [(''a'', JStr ''1'')] p)
     = map_option info_leaf (dget [(''a'', JObj [(''hash'', JStr ''1''), (''type'', JStr ''code'')])] p)"
proof -
  let ?t = "[(''a'', JStr ''1'')]" and ?t' = "[(''a'', JObj [(''hash'', JStr ''1''), (''type'', JStr ''code'')])]"
  let ?es = "[FileEntry ''a'' (JStr ''1'') (JStr ''code'') (JInt 0) (JList []) (JList [])]"
  let ?th = "toy_digest (render_entries ?es)"
  have one: "build_merkle_tree toy_digest ''t'' None ?t [] = Some (map (entry_row ''t'' ?th) ?es, ?th)"
    by (simp add: add_path_def store_tree_def tree_exists_def Let_def)
  have two: "build_merkle_tree toy_digest ''t'' None ?t' (map (entry_row ''t'' ?th) ?es)
      = Some (map (entry_row ''t'' ?th) ?es, ?th)"
    by (simp add: add_path_def store_tree_def tree_exists_def Let_def field_def dget_or_def)
  have "tree_wf ?t" "tree_wf ?t'"
    by (simp_all add: tree_wf_def dict_wf_def is_info_def startswith_def)
  from root_hash_binds_tree [OF toy_digest_ok(1) _ this _ one two] toy_digest_ok(2) show ?thesis
    by (simp add: db_ok_def startswith_def)
qed

end
