(* ===== verification/Handlers.thy ===== *)
theory Handlers
  imports AuditChain ObjectStore "HOL-Library.Product_Lexorder"
begin

text \<open>
  What the registry's JSON handlers share: the caller of a request, the reply (a returned body or
  an \<open>HTTPException\<close>), the table primitives of the queries they run, the checks on uploaded
  object ids and the rendering of time stamps. A \<open>datetime\<close> is a number of microseconds since
  1970 in naive UTC, the storage convention of \<open>utcnow_naive\<close>. A text column filled from a
  request body holds the body's JSON value.
\<close>

section \<open>Requests and replies\<close>

text \<open>
  \<open>cl_username\<close>, \<open>cl_scopes\<close> and \<open>cl_tenant\<close> are what \<open>require_token\<close> left on
  \<open>request.state\<close>; \<open>cl_cas_tenant\<close> is \<open>_cas_tenant_id(request)\<close>; \<open>cl_now\<close> the clock
  and \<open>cl_uuid\<close> the identifier \<open>_new_uuid()\<close> would return.
\<close>

type_synonym body = "(string \<times> json) list"
type_synonym datetime = int

record caller =
  cl_username :: "string option"
  cl_scopes :: "string list option"
  cl_tenant :: "string option"
  cl_cas_tenant :: "string option"
  cl_path :: string
  cl_method :: string
  cl_now :: datetime
  cl_uuid :: string

datatype reply = Ok nat json | Fail nat json

fun reply_status :: "reply \<Rightarrow> nat" where
  "reply_status (Ok n _) = n"
| "reply_status (Fail n _) = n"

fun failed :: "reply \<Rightarrow> bool" where
  "failed (Ok _ _) = False"
| "failed (Fail _ _) = True"

fun reply_body :: "reply \<Rightarrow> json" where
  "reply_body (Ok _ j) = j"
| "reply_body (Fail _ j) = j"

abbreviation jopt :: "string option \<Rightarrow> json" where
  "jopt \<equiv> opt_json JStr"

text \<open>A JSON value as the text column of the audit trail.\<close>

fun text_col :: "json \<Rightarrow> string option" where
  "text_col (JStr s) = Some s"
| "text_col _ = None"

section \<open>Time stamps\<close>

definition pad :: "nat \<Rightarrow> int \<Rightarrow> string" where
  "pad n i = (let s = int_text i in replicate (n - length s) CHR ''0'' @ s)"

text \<open>\<open>datetime.isoformat()\<close>: the proleptic Gregorian date of a day number, then the time of day.\<close>

definition civil_date :: "int \<Rightarrow> int \<times> int \<times> int" where
  "civil_date days =
     (let z = days + 719468;
          era = z div 146097;
          doe = z mod 146097;
          yoe = (doe - doe div 1460 + doe div 36524 - doe div 146096) div 365;
          doy = doe - (365 * yoe + yoe div 4 - yoe div 100);
          mp = (5 * doy + 2) div 153;
          d = doy - (153 * mp + 2) div 5 + 1;
          m = (if mp < 10 then mp + 3 else mp - 9)
      in (yoe + era * 400 + (if m \<le> 2 then 1 else 0), m, d))"

definition isoformat :: "datetime \<Rightarrow> string" where
  "isoformat t =
     (let us = t mod 1000000; secs = t div 1000000; sod = secs mod 86400
      in case civil_date (secs div 86400) of (y, m, d) \<Rightarrow>
           pad 4 y @ ''-'' @ pad 2 m @ ''-'' @ pad 2 d @ ''T'' @ pad 2 (sod div 3600) @ '':''
           @ pad 2 (sod div 60 mod 60) @ '':'' @ pad 2 (sod mod 60)
           @ (if us = 0 then [] else ''.'' @ pad 6 us))"

definition iso_opt :: "datetime option \<Rightarrow> json" where
  "iso_opt t = opt_json (\<lambda>d. JStr (isoformat d)) t"

lemma isoformat_sample:
  "isoformat 1785507296000123 = ''2026-07-31T14:14:56.000123''"
  "isoformat (- 1000000) = ''1969-12-31T23:59:59''"
  by code_simp+

section \<open>Tables\<close>

text \<open>
  A table is the list of its rows in insertion order. \<open>select ... where key == k\<close> with
  \<open>scalar_one_or_none\<close> on a primary key, an update of the row in place, a delete.
\<close>

definition find_row :: "('r \<Rightarrow> 'k) \<Rightarrow> 'k \<Rightarrow> 'r list \<Rightarrow> 'r option" where
  "find_row key k rows = find (\<lambda>r. key r = k) rows"

definition upd_row :: "('r \<Rightarrow> 'k) \<Rightarrow> 'k \<Rightarrow> ('r \<Rightarrow> 'r) \<Rightarrow> 'r list \<Rightarrow> 'r list" where
  "upd_row key k f rows = map (\<lambda>r. if key r = k then f r else r) rows"

definition del_row :: "('r \<Rightarrow> 'k) \<Rightarrow> 'k \<Rightarrow> 'r list \<Rightarrow> 'r list" where
  "del_row key k rows = filter (\<lambda>r. key r \<noteq> k) rows"

text \<open>
  \<open>order_by(created_at.desc()).limit(l).offset(o)\<close>. The order of rows with equal time stamps is
  the database's choice; here it is the insertion order.
\<close>

definition newest_first :: "('r \<Rightarrow> datetime) \<Rightarrow> 'r list \<Rightarrow> 'r list" where
  "newest_first at rows = sort_key (\<lambda>r. - at r) rows"

definition page :: "nat \<Rightarrow> nat \<Rightarrow> 'r list \<Rightarrow> 'r list" where
  "page lim off rows = take lim (drop off rows)"

text \<open>An optional filter: \<open>if v: stmt = stmt.where(col == v)\<close>.\<close>

definition matches :: "string option \<Rightarrow> json \<Rightarrow> bool" where
  "matches v col \<longleftrightarrow> (case v of None \<Rightarrow> True | Some s \<Rightarrow> s = [] \<or> col = JStr s)"

text \<open>The envelope of a paged list with a total.\<close>

definition listing :: "string \<Rightarrow> ('r \<Rightarrow> json) \<Rightarrow> ('r \<Rightarrow> datetime) \<Rightarrow> nat \<Rightarrow> nat \<Rightarrow> 'r list \<Rightarrow> reply" where
  "listing name render at lim off rows =
     Ok 200 (JObj [(name, JList (map render (page lim off (newest_first at rows)))),
       (''total'', JInt (int (length rows))), (''limit'', JInt (int lim)), (''offset'', JInt (int off))])"

named_theorems table_simps \<open>lookup after a table update\<close>

lemma find_row_Nil [simp, table_simps]: "find_row key k [] = None"
  by (simp add: find_row_def)

lemma find_row_Cons [simp, table_simps]:
  "find_row key k (r # rs) = (if key r = k then Some r else find_row key k rs)"
  by (simp add: find_row_def)

lemma find_row_SomeD: "find_row key k rows = Some r \<Longrightarrow> r \<in> set rows \<and> key r = k"
  by (auto simp: find_row_def find_Some_iff)

lemma find_row_None_iff: "find_row key k rows = None \<longleftrightarrow> k \<notin> key ` set rows"
  by (auto simp: find_row_def find_None_iff)

lemma find_row_append [table_simps]:
  "find_row key k (rows @ rs) =
     (case find_row key k rows of None \<Rightarrow> find_row key k rs | Some r \<Rightarrow> Some r)"
  by (induction rows) auto

lemma find_row_upd [table_simps]:
  assumes "\<And>r. key (f r) = key r"
  shows "find_row key k (upd_row key k' f rows) =
    (if k = k' then map_option f (find_row key k rows) else find_row key k rows)"
  using assms by (induction rows) (auto simp: upd_row_def)

lemma find_row_del [table_simps]:
  "find_row key k (del_row key k' rows) = (if k = k' then None else find_row key k rows)"
  by (induction rows) (auto simp: del_row_def)

lemma find_row_unique: "distinct (map key rows) \<Longrightarrow> r \<in> set rows \<Longrightarrow> find_row key (key r) rows = Some r"
  by (induction rows) (auto simp: image_iff)

lemma keys_upd_row: "(\<And>r. key (f r) = key r) \<Longrightarrow> map key (upd_row key k f rows) = map key rows"
  by (induction rows) (auto simp: upd_row_def)

lemma set_newest_first [simp]: "set (newest_first at rows) = set rows"
  by (simp add: newest_first_def)

lemma newest_first_map:
  assumes "\<And>r. at (g r) = at r"
  shows "newest_first at (map g rows) = map g (newest_first at rows)"
proof -
  have "insort_key (\<lambda>r. - at r) (g r) (map g rs) = map g (insort_key (\<lambda>r. - at r) r rs)" for r rs
    by (induction rs) (simp_all add: assms)
  then show ?thesis by (induction rows) (simp_all add: newest_first_def)
qed

lemma newest_first_sorted: "sorted (map (\<lambda>r. - at r) (newest_first at rows))"
  by (simp add: newest_first_def)

section \<open>Checks on uploaded objects\<close>

text \<open>\<open>_object_exists\<close> and \<open>_require_uploaded_object_id\<close>; a non-string id is the \<open>TypeError\<close>
  of \<open>re.match\<close>, a 500.\<close>

definition object_row_exists :: "object_row list \<Rightarrow> hash \<Rightarrow> string option \<Rightarrow> bool" where
  "object_row_exists rows h tenant \<longleftrightarrow>
     list_ex (\<lambda>r. or_hash r = h \<and> (case tenant of None \<Rightarrow> True | Some t \<Rightarrow> or_tenant r = t)) rows"

fun require_uploaded_object_id :: "string \<Rightarrow> json \<Rightarrow> reply + hash" where
  "require_uploaded_object_id name (JStr h) =
     (if is_sha256_hex h then Inr h
      else Inl (Fail 422 (JStr (name @ '' must be a sha256 hex hash''))))"
| "require_uploaded_object_id name j =
     Inl (if truthy j then Fail 500 (JStr ''expected string or bytes-like object'')
          else Fail 422 (JStr (name @ '' must be a sha256 hex hash'')))"

lemma require_uploaded_object_id_Inr:
  "require_uploaded_object_id name j = Inr h \<Longrightarrow> j = JStr h \<and> is_sha256_hex h"
  by (cases "(name, j)" rule: require_uploaded_object_id.cases) (auto split: if_splits)

section \<open>Idempotent creation\<close>

text \<open>
  The contract of the create handlers that take a client-generated id: a create whose id is known
  changes nothing, ids are never forgotten, and a create that changes the state makes its id known.
  A client may therefore repeat a create whose answer it lost.
\<close>

definition client_id :: "body \<Rightarrow> json" where
  "client_id b = field b ''id'' JNull"

locale idempotent_create =
  fixes create :: "'rq \<Rightarrow> body \<Rightarrow> 's \<Rightarrow> reply \<times> 's"
    and known :: "'s \<Rightarrow> json \<Rightarrow> bool"
  assumes known_unchanged: "truthy (client_id b) \<Longrightarrow> known s (client_id b) \<Longrightarrow> snd (create rq b s) = s"
    and known_kept: "known s i \<Longrightarrow> known (snd (create rq b s)) i"
    and created_known: "truthy (client_id b) \<Longrightarrow> snd (create rq b s) \<noteq> s \<Longrightarrow> known (snd (create rq b s)) (client_id b)"
begin

lemma known_kept_run: "known s i \<Longrightarrow> known (fold (\<lambda>(rq, b) s. snd (create rq b s)) rs s) i"
  by (induction rs arbitrary: s) (auto simp: known_kept)

text \<open>After a create took effect, no later create with its id does, whatever came between.\<close>

lemma repeated_create_ignored:
  assumes "truthy (client_id b)" and "snd (create rq b s) \<noteq> s" and "client_id b' = client_id b"
    and "s' = fold (\<lambda>(rq, b) s. snd (create rq b s)) rs (snd (create rq b s))"
  shows "snd (create rq' b' s') = s'"
  using known_unchanged [of b' s' rq'] known_kept_run [OF created_known [OF assms(1,2)], of rs] assms by simp

end

text \<open>\<open>body.get("id") or _new_uuid()\<close>.\<close>

definition chosen_id :: "caller \<Rightarrow> body \<Rightarrow> json" where
  "chosen_id cl b = or_else (client_id b) (JStr (cl_uuid cl))"

lemma chosen_id_client [simp]: "truthy (client_id b) \<Longrightarrow> chosen_id cl b = client_id b"
  by (simp add: chosen_id_def or_else_def)

definition has_row :: "('r \<Rightarrow> json) \<Rightarrow> 'r list \<Rightarrow> json \<Rightarrow> bool" where
  "has_row key rows i \<longleftrightarrow> find_row key i rows \<noteq> None"

lemma has_row_append [simp]: "has_row key (rows @ rs) i \<longleftrightarrow> has_row key rows i \<or> has_row key rs i"
  by (simp add: has_row_def find_row_append split: option.split)

lemma has_row_Cons [simp]: "has_row key (r # rs) i \<longleftrightarrow> key r = i \<or> has_row key rs i"
  by (simp add: has_row_def)

section \<open>Parent chains\<close>

text \<open>
  The paged walk up a parent chain that \<open>get_run_lineage\<close> and \<open>get_improver_lineage\<close> share: at most
  \<open>depth\<close> rows from a start row, with a guard against cycles, and the row the next page starts at.
\<close>

fun walk_chain ::
  "('k \<Rightarrow> 'r option) \<Rightarrow> ('r \<Rightarrow> 'k) \<Rightarrow> ('r \<Rightarrow> 'k option) \<Rightarrow> nat \<Rightarrow> 'r option \<Rightarrow> 'k list \<Rightarrow> 'r list \<times> 'r option" where
  "walk_chain fetch key parent 0 node seen = ([], node)"
| "walk_chain fetch key parent (Suc n) None seen = ([], None)"
| "walk_chain fetch key parent (Suc n) (Some r) seen =
     (if key r \<in> set seen then ([], None)
      else case parent r of
          None \<Rightarrow> ([r], None)
        | Some p \<Rightarrow> (case walk_chain fetch key parent n (fetch p) (key r # seen) of
            (rs, next_node) \<Rightarrow> (r # rs, next_node)))"

definition chain_page ::
  "('k \<Rightarrow> 'r option) \<Rightarrow> ('r \<Rightarrow> 'k) \<Rightarrow> ('r \<Rightarrow> 'k option) \<Rightarrow> nat \<Rightarrow> 'r \<Rightarrow> 'r list \<times> 'k option" where
  "chain_page fetch key parent depth r =
     (case walk_chain fetch key parent depth (Some r) [] of
        (rs, next_node) \<Rightarrow>
          (rs, if length rs = depth then map_option key next_node else None))"

text \<open>
  The whole chain, \<open>None\<close> when it does not end within \<open>n\<close> rows; and what a client collects that
  follows the cursors for at most \<open>m\<close> pages, \<open>None\<close> when the last cursor is still set.
\<close>

fun climb :: "('k \<Rightarrow> 'r option) \<Rightarrow> ('r \<Rightarrow> 'k option) \<Rightarrow> nat \<Rightarrow> 'r \<Rightarrow> 'r list option" where
  "climb fetch parent 0 r = None"
| "climb fetch parent (Suc n) r =
     (case parent r of None \<Rightarrow> Some [r]
      | Some p \<Rightarrow> (case fetch p of None \<Rightarrow> Some [r]
                   | Some q \<Rightarrow> map_option (\<lambda>rs. r # rs) (climb fetch parent n q)))"

fun all_pages ::
  "('k \<Rightarrow> 'r option) \<Rightarrow> ('r \<Rightarrow> 'k) \<Rightarrow> ('r \<Rightarrow> 'k option) \<Rightarrow> nat \<Rightarrow> nat \<Rightarrow> 'r \<Rightarrow> 'r list option" where
  "all_pages fetch key parent depth 0 r = None"
| "all_pages fetch key parent depth (Suc m) r =
     (case chain_page fetch key parent depth r of
        (rs, None) \<Rightarrow> Some rs
      | (rs, Some k) \<Rightarrow> (case fetch k of None \<Rightarrow> Some rs
          | Some q \<Rightarrow> map_option (\<lambda>qs. rs @ qs) (all_pages fetch key parent depth m q)))"

locale keyed_rows =
  fixes fetch :: "'k \<Rightarrow> 'r option" and key :: "'r \<Rightarrow> 'k" and parent :: "'r \<Rightarrow> 'k option"
  assumes fetch_key: "fetch k = Some r \<Longrightarrow> key r = k"
begin

lemma climb_nonempty: "climb fetch parent n r = Some rs \<Longrightarrow> \<exists>qs. rs = r # qs"
  by (cases n) (auto split: option.splits)

lemma climb_Suc: "climb fetch parent n r = Some rs \<Longrightarrow> climb fetch parent (Suc n) r = Some rs"
proof (induction n arbitrary: r rs)
  case (Suc n)
  show ?case
  proof (cases "\<exists>p q. parent r = Some p \<and> fetch p = Some q")
    case True
    then obtain p q where pq: "parent r = Some p" "fetch p = Some q" by blast
    with Suc.prems obtain qs where "climb fetch parent n q = Some qs" "rs = r # qs" by auto
    with pq Suc.IH [of q qs] show ?thesis by simp
  next
    case False
    with Suc.prems show ?thesis by (auto split: option.splits)
  qed
qed simp

lemma climb_mono: "climb fetch parent n r = Some rs \<Longrightarrow> n \<le> m \<Longrightarrow> climb fetch parent m r = Some rs"
  by (rule dec_induct [where i = n and j = m]) (simp_all add: climb_Suc del: climb.simps)

lemma climb_fetched:
  "climb fetch parent n r = Some rs \<Longrightarrow> q \<in> set (tl rs) \<Longrightarrow> fetch (key q) = Some q"
proof (induction n arbitrary: r rs)
  case (Suc n)
  show ?case
  proof (cases "parent r")
    case (Some p)
    show ?thesis
    proof (cases "fetch p")
      case (Some q')
      with \<open>parent r = Some p\<close> Suc.prems(1) obtain qs where qs: "climb fetch parent n q' = Some qs" "rs = r # qs" by auto
      moreover from qs(1) obtain qs' where "qs = q' # qs'" using climb_nonempty by blast
      ultimately show ?thesis using Suc.IH [OF qs(1)] Suc.prems(2) Some fetch_key [OF Some] by auto
    qed (use Suc.prems Some in auto)
  qed (use Suc.prems in auto)
qed simp

lemma climb_suffix:
  "climb fetch parent n r = Some rs \<Longrightarrow> q \<in> set rs \<Longrightarrow> \<exists>m qs ps. m \<le> n \<and> climb fetch parent m q = Some qs \<and> rs = ps @ qs"
proof (induction n arbitrary: r rs)
  case (Suc n)
  show ?case
  proof (cases "q = r")
    case True
    with Suc.prems have "climb fetch parent (Suc n) q = Some rs \<and> rs = [] @ rs" by simp
    then show ?thesis by blast
  next
    case False
    with Suc.prems obtain p q' qs where pq: "parent r = Some p" "fetch p = Some q'"
      "climb fetch parent n q' = Some qs" "rs = r # qs" "q \<in> set qs"
      by (auto split: option.splits)
    from Suc.IH [OF pq(3,5)] obtain m qs' ps where "m \<le> n" "climb fetch parent m q = Some qs'" "qs = ps @ qs'"
      by blast
    with pq(4) have "m \<le> Suc n \<and> climb fetch parent m q = Some qs' \<and> rs = (r # ps) @ qs'" by simp
    then show ?thesis by blast
  qed
qed simp

text \<open>A chain that ends repeats no row, so the cycle guard never cuts it.\<close>

lemma climb_tail_fetched:
  "climb fetch parent n r = Some rs \<Longrightarrow> fetch (key r) = Some r \<Longrightarrow> q \<in> set rs \<Longrightarrow> fetch (key q) = Some q"
  using climb_nonempty [of n r rs] climb_fetched [of n r rs q] by auto

lemma climb_distinct:
  "climb fetch parent n r = Some rs \<Longrightarrow> fetch (key r) = Some r \<Longrightarrow> distinct (map key rs)"
proof (induction n arbitrary: r rs)
  case (Suc n)
  show ?case
  proof (cases "\<exists>p q. parent r = Some p \<and> fetch p = Some q")
    case True
    then obtain p q where pq: "parent r = Some p" "fetch p = Some q" by blast
    with Suc.prems obtain qs where qs: "climb fetch parent n q = Some qs" "rs = r # qs" by auto
    have q: "fetch (key q) = Some q" using pq(2) fetch_key [OF pq(2)] by simp
    have "key r \<notin> key ` set qs"
    proof
      assume "key r \<in> key ` set qs"
      then obtain z where z: "z \<in> set qs" "key z = key r" by auto
      have "fetch (key r) = Some z" using climb_tail_fetched [OF qs(1) q z(1)] z(2) by simp
      then have "z = r" using Suc.prems(2) by simp
      with z(1) have "r \<in> set qs" by simp
      from climb_suffix [OF qs(1) this] obtain m zs ps where
        m: "m \<le> n" "climb fetch parent m r = Some zs" "qs = ps @ zs" by blast
      from m(1) climb_mono [OF m(2), of "Suc n"] Suc.prems(1) qs(2) have "zs = r # qs" by simp
      with m(3) have "length qs = length ps + Suc (length qs)" by (metis length_append length_Cons)
      then show False by simp
    qed
    with Suc.IH [OF qs(1) q] qs(2) show ?thesis by simp
  qed (use Suc.prems in \<open>auto split: option.splits\<close>)
qed simp

text \<open>A page is the next stretch of the chain, and its cursor is the row after it.\<close>

lemma walk_chain_climb:
  assumes "climb fetch parent n r = Some rs" and "fetch (key r) = Some r"
    and "set seen \<inter> key ` set rs = {}"
  shows "walk_chain fetch key parent d (Some r) seen =
    (take d rs, if d < length rs then Some (rs ! d) else None)
    \<or> d = length rs \<and> fst (walk_chain fetch key parent d (Some r) seen) = rs
      \<and> snd (walk_chain fetch key parent d (Some r) seen) = None"
  using assms
proof (induction d arbitrary: n r rs seen)
  case 0
  then show ?case using climb_nonempty by fastforce
next
  case (Suc d)
  then obtain k where n: "n = Suc k" by (cases n) auto
  from Suc.prems(3) climb_nonempty [OF Suc.prems(1)] have fresh: "key r \<notin> set seen" by auto
  show ?case
  proof (cases "\<exists>p q. parent r = Some p \<and> fetch p = Some q")
    case True
    then obtain p q where pq: "parent r = Some p" "fetch p = Some q" by blast
    with Suc.prems(1) n obtain qs where qs: "climb fetch parent k q = Some qs" "rs = r # qs" by auto
    have q: "fetch (key q) = Some q" using pq(2) fetch_key [OF pq(2)] by simp
    have "key r \<notin> key ` set qs" using climb_distinct [OF Suc.prems(1,2)] qs(2) by auto
    then have "set (key r # seen) \<inter> key ` set qs = {}" using Suc.prems(3) qs(2) by auto
    from Suc.IH [OF qs(1) q this] show ?thesis
      using fresh pq qs(2) by (auto simp: case_prod_unfold)
  next
    case False
    then have "rs = [r]" using Suc.prems(1) n by (auto split: option.splits)
    moreover have "walk_chain fetch key parent (Suc d) (Some r) seen = ([r], None)"
      using fresh False by (cases d) (auto split: option.split)
    ultimately show ?thesis by simp
  qed
qed

lemma chain_page_climb:
  assumes "climb fetch parent n r = Some rs" and "fetch (key r) = Some r"
  shows "chain_page fetch key parent d r = (take d rs, if d < length rs then Some (key (rs ! d)) else None)"
  using walk_chain_climb [OF assms, of "[]" d] by (auto simp: chain_page_def min_def split: if_splits prod.split)

lemma climb_drop:
  assumes "climb fetch parent n r = Some rs" and "d < length rs"
  shows "\<exists>m. climb fetch parent m (rs ! d) = Some (drop d rs)"
  using assms
proof (induction d arbitrary: n r rs)
  case 0
  then show ?case using climb_nonempty by fastforce
next
  case (Suc d)
  then obtain k p q qs where "parent r = Some p" "fetch p = Some q" "climb fetch parent k q = Some qs" "rs = r # qs"
    by (cases n) (auto split: option.splits)
  with Suc.IH [of k q qs] Suc.prems(2) show ?case by simp
qed

text \<open>
  Following the cursors lists an ending chain completely, in order and without repetition, for every
  page size; at most as many pages as the chain has rows are needed.
\<close>

lemma pages_list_chain:
  assumes "climb fetch parent n r = Some rs" and "fetch (key r) = Some r" and "0 < d" and "length rs \<le> m"
  shows "all_pages fetch key parent d m r = Some rs"
  using assms(1,2,4)
proof (induction m arbitrary: n r rs)
  case 0
  then show ?case using climb_nonempty by fastforce
next
  case (Suc m)
  show ?case
  proof (cases "d < length rs")
    case False
    with chain_page_climb [OF Suc.prems(1,2), of d] show ?thesis by simp
  next
    case True
    then have mem: "rs ! d \<in> set rs" by simp
    have f: "fetch (key (rs ! d)) = Some (rs ! d)" by (rule climb_tail_fetched [OF Suc.prems(1,2) mem])
    obtain k where k: "climb fetch parent k (rs ! d) = Some (drop d rs)" using climb_drop [OF Suc.prems(1) True] by blast
    have "length (drop d rs) \<le> m" using Suc.prems(3) assms(3) True by simp
    from Suc.IH [OF k f this] chain_page_climb [OF Suc.prems(1,2), of d] True f show ?thesis by simp
  qed
qed

end

section \<open>Sequences of requests\<close>

text \<open>A service answers a sequence of requests one after the other; the log pairs each with its reply.\<close>

fun serve :: "('rq \<Rightarrow> 's \<Rightarrow> reply \<times> 's) \<Rightarrow> 'rq list \<Rightarrow> 's \<Rightarrow> ('rq \<times> reply) list \<times> 's" where
  "serve step [] s = ([], s)"
| "serve step (rq # rqs) s =
     (case step rq s of (rep, s') \<Rightarrow> (case serve step rqs s' of (log, t) \<Rightarrow> ((rq, rep) # log, t)))"

lemma serve_append:
  "serve step (rqs @ rqs') s =
     (fst (serve step rqs s) @ fst (serve step rqs' (snd (serve step rqs s))),
      snd (serve step rqs' (snd (serve step rqs s))))"
  by (induction rqs arbitrary: s) (auto simp: case_prod_unfold)

lemma serve_snoc:
  "serve step (rqs @ [rq]) s =
     (fst (serve step rqs s) @ [(rq, fst (step rq (snd (serve step rqs s))))],
      snd (step rq (snd (serve step rqs s))))"
  by (simp add: serve_append case_prod_unfold)

lemma serve_invariant:
  assumes "I s" and "\<And>rq s. I s \<Longrightarrow> I (snd (step rq s))"
  shows "I (snd (serve step rqs s))"
  using assms(1)
proof (induction rqs rule: rev_induct)
  case (snoc rq rqs)
  then show ?case by (simp add: serve_snoc assms(2))
qed simp

text \<open>
  Unwinding: when indistinguishable states stay so under indistinguishable requests, and the
  observer's requests get equal replies in them, what the observer sees of two indistinguishable
  sequences of requests is equal.
\<close>

locale unwinding =
  fixes step :: "'rq \<Rightarrow> 's \<Rightarrow> reply \<times> 's" and low_eq :: "'s \<Rightarrow> 's \<Rightarrow> bool"
    and alike :: "'rq \<Rightarrow> 'rq \<Rightarrow> bool" and observer :: "'rq \<Rightarrow> bool"
  assumes step_low_eq: "low_eq s t \<Longrightarrow> alike a b \<Longrightarrow> low_eq (snd (step a s)) (snd (step b t))"
    and step_reply: "low_eq s t \<Longrightarrow> alike a b \<Longrightarrow> observer a \<Longrightarrow> fst (step a s) = fst (step b t)"
    and alike_observer: "alike a b \<Longrightarrow> observer a = observer b"
begin

definition seen :: "('rq \<times> reply) list \<Rightarrow> reply list" where
  "seen log = map snd (filter (\<lambda>(rq, _). observer rq) log)"

lemma noninterference:
  "list_all2 alike rqs rqs' \<Longrightarrow> low_eq s t \<Longrightarrow>
     seen (fst (serve step rqs s)) = seen (fst (serve step rqs' t))
     \<and> low_eq (snd (serve step rqs s)) (snd (serve step rqs' t))"
proof (induction arbitrary: s t rule: list_all2_induct)
  case Nil
  then show ?case by (simp add: seen_def)
next
  case (Cons a as b bs)
  from Cons.IH [OF step_low_eq [OF Cons.prems Cons.hyps(1)]] step_reply [OF Cons.prems Cons.hyps(1)]
    alike_observer [OF Cons.hyps(1)]
  show ?case by (auto simp: seen_def case_prod_unfold)
qed

end

end
