(* ===== verification/Webhooks.thy ===== *)
theory Webhooks
  imports Handlers
begin

text \<open>
  The event feed and the signed webhook deliveries: \<open>_emit_event\<close>, \<open>_deliver_webhooks\<close>,
  \<open>_deliver_one\<close>, the retry worker \<open>process_due_webhook_deliveries\<close> and the webhook
  handlers of \<open>server.py\<close>. The effects record threaded through these is the part of the
  database every other handler writes to as well: the audit trail, the events, and the background
  tasks an event schedules. An HTTP endpoint is a function of the URL, the body and the headers;
  what it answers is unconstrained, and every request made is recorded in \<open>fx_sent\<close>.
\<close>

section \<open>Rows and state\<close>

record event_row =
  ev_id :: nat
  ev_ts :: datetime
  ev_project :: json
  ev_kind :: string
  ev_payload :: json

record webhook =
  wh_id :: string
  wh_url :: string
  wh_secret :: string
  wh_project :: "string option"
  wh_kinds :: "string list option"
  wh_active :: bool
  wh_created :: datetime
  wh_last_success :: "datetime option"
  wh_last_failure :: "datetime option"
  wh_failures :: nat
  wh_disabled_reason :: "string option"

record delivery =
  dl_id :: nat
  dl_webhook :: string
  dl_event :: "int option"
  dl_kind :: string
  dl_project :: json
  dl_payload :: json
  dl_attempt :: nat
  dl_status :: string
  dl_response :: "int option"
  dl_error :: "string option"
  dl_next_retry :: "datetime option"
  dl_created :: datetime
  dl_updated :: datetime

record hook_event =
  he_id :: int
  he_kind :: string
  he_project :: json
  he_payload :: json

record sent =
  sn_delivery :: nat
  sn_url :: string
  sn_body :: string
  sn_headers :: "(string \<times> string) list"

record effects =
  fx_audit_on :: bool
  fx_audit :: audit_db
  fx_events :: "event_row list"
  fx_next_event :: nat
  fx_tasks :: "hook_event list"
  fx_hooks :: "webhook list"
  fx_deliveries :: "delivery list"
  fx_next_delivery :: nat
  fx_sent :: "sent list"

text \<open>The \<open>AV_WEBHOOK_*\<close> settings.\<close>

record hook_config =
  hc_max_attempts :: nat
  hc_retry_interval :: nat
  hc_retry_max :: nat
  hc_disable_after :: nat

definition SECOND :: int where
  "SECOND = 1000000"

section \<open>Audit and events\<close>

definition note_audit ::
  "string option \<Rightarrow> string \<Rightarrow> json \<Rightarrow> body \<Rightarrow> int \<Rightarrow> 'a effects_scheme \<Rightarrow> 'a effects_scheme" where
  "note_audit user action project details status fx =
     fx\<lparr>fx_audit := audit (fx_audit_on fx) user action (text_col project) (JObj details)
                     (Some status) (fx_audit fx)\<rparr>"

definition emit_event ::
  "datetime \<Rightarrow> json \<Rightarrow> string \<Rightarrow> body \<Rightarrow> 'a effects_scheme \<Rightarrow> 'a effects_scheme" where
  "emit_event now project kind payload fx =
     (let row = \<lparr>ev_id = fx_next_event fx, ev_ts = now, ev_project = project, ev_kind = kind,
                 ev_payload = JObj payload\<rparr>;
          fx1 = fx\<lparr>fx_events := fx_events fx @ [row], fx_next_event := Suc (fx_next_event fx)\<rparr>
      in if list_ex wh_active (fx_hooks fx)
         then fx1\<lparr>fx_tasks := fx_tasks fx1
               @ [\<lparr>he_id = int (ev_id row), he_kind = kind, he_project = project,
                  he_payload = JObj payload\<rparr>]\<rparr>
         else fx1)"

section \<open>One attempt\<close>

definition event_body :: "hook_event \<Rightarrow> string" where
  "event_body e =
     dumps_sorted (JObj [(''id'', JInt (he_id e)), (''kind'', JStr (he_kind e)),
                         (''project_id'', he_project e), (''payload'', he_payload e)])"

definition post_headers :: "(string \<Rightarrow> string \<Rightarrow> string) \<Rightarrow> webhook \<Rightarrow> hook_event \<Rightarrow> (string \<times> string) list" where
  "post_headers hmac hook e =
     [(''Content-Type'', ''application/json''), (''X-AV-Event-Id'', int_text (he_id e)),
      (''X-AV-Event-Kind'', he_kind e), (''X-AV-Signature'', hmac (wh_secret hook) (event_body e))]"

text \<open>What \<open>requests.post\<close> gives: a status code, or the text of the exception.\<close>

type_synonym endpoint = "string \<Rightarrow> string \<Rightarrow> (string \<times> string) list \<Rightarrow> int + string"

definition put_hook :: "webhook \<Rightarrow> 'a effects_scheme \<Rightarrow> 'a effects_scheme" where
  "put_hook h fx = fx\<lparr>fx_hooks := upd_row wh_id (wh_id h) (\<lambda>_. h) (fx_hooks fx)\<rparr>"

definition put_delivery :: "datetime \<Rightarrow> delivery \<Rightarrow> 'a effects_scheme \<Rightarrow> 'a effects_scheme" where
  "put_delivery now d fx =
     fx\<lparr>fx_deliveries := upd_row dl_id (dl_id d) (\<lambda>_. d\<lparr>dl_updated := now\<rparr>) (fx_deliveries fx)\<rparr>"

definition delivery_ok :: "datetime \<Rightarrow> int \<Rightarrow> webhook \<Rightarrow> delivery \<Rightarrow> webhook \<times> delivery" where
  "delivery_ok now code hook d =
     (hook\<lparr>wh_last_success := Some now, wh_failures := 0\<rparr>,
      d\<lparr>dl_status := ''delivered'', dl_response := Some code, dl_error := None, dl_next_retry := None\<rparr>)"

definition backoff :: "hook_config \<Rightarrow> nat \<Rightarrow> nat" where
  "backoff cfg attempt = min (hc_retry_interval cfg * 2 ^ (attempt - 1)) (hc_retry_max cfg)"

definition delivery_failed ::
  "hook_config \<Rightarrow> datetime \<Rightarrow> int + string \<Rightarrow> webhook \<Rightarrow> delivery \<Rightarrow> webhook \<times> delivery" where
  "delivery_failed cfg now result hook d =
     (let attempt = dl_attempt d + 1;
          code = (case result of Inl c \<Rightarrow> Some c | Inr _ \<Rightarrow> None);
          err = (case result of Inl c \<Rightarrow> ''http_'' @ int_text c | Inr e \<Rightarrow> if e = [] then ''http_None'' else e);
          failures = wh_failures hook + 1;
          hook1 = hook\<lparr>wh_last_failure := Some now, wh_failures := failures\<rparr>;
          d1 = d\<lparr>dl_attempt := attempt, dl_response := code, dl_error := Some err\<rparr>;
          d2 = (if hc_max_attempts cfg \<le> attempt then d1\<lparr>dl_status := ''dead''\<rparr>
                else d1\<lparr>dl_status := ''failed'',
                        dl_next_retry := Some (now + int (backoff cfg attempt) * SECOND)\<rparr>);
          hook2 = (if 0 < hc_disable_after cfg \<and> wh_active hook1 \<and> hc_disable_after cfg \<le> failures
                   then hook1\<lparr>wh_active := False,
                          wh_disabled_reason := Some (''auto-disabled after '' @ nat_text failures
                            @ '' consecutive failed deliveries (last: '' @ err @ '')'')\<rparr>
                   else hook1)
      in (hook2, d2))"

definition settle ::
  "hook_config \<Rightarrow> datetime \<Rightarrow> int + string \<Rightarrow> webhook \<Rightarrow> delivery \<Rightarrow> webhook \<times> delivery" where
  "settle cfg now result hook d =
     (case result of
        Inl c \<Rightarrow> if 200 \<le> c \<and> c < 300 then delivery_ok now c hook d
                 else delivery_failed cfg now result hook d
      | Inr _ \<Rightarrow> delivery_failed cfg now result hook d)"

definition deliver_one ::
  "hook_config \<Rightarrow> (string \<Rightarrow> string \<Rightarrow> string) \<Rightarrow> endpoint \<Rightarrow> datetime \<Rightarrow> webhook \<Rightarrow> delivery \<Rightarrow> hook_event
   \<Rightarrow> 'a effects_scheme \<Rightarrow> 'a effects_scheme" where
  "deliver_one cfg hmac post now hook d e fx =
     (let body = event_body e;
          headers = post_headers hmac hook e;
          (hook1, d1) = settle cfg now (post (wh_url hook) body headers) hook d;
          fx1 = put_delivery now d1 (put_hook hook1
                  (fx\<lparr>fx_sent := fx_sent fx @ [\<lparr>sn_delivery = dl_id d, sn_url = wh_url hook,
                        sn_body = body, sn_headers = headers\<rparr>]\<rparr>))
      in if wh_active hook \<and> \<not> wh_active hook1
         then note_audit None ''webhook.auto_disable'' (jopt (wh_project hook))
                [(''webhook_id'', JStr (wh_id hook)), (''consecutive_failures'', JInt (int (wh_failures hook1)))]
                200
              (emit_event now (jopt (wh_project hook)) ''webhook_disabled''
                [(''webhook_id'', JStr (wh_id hook)), (''url'', JStr (wh_url hook)),
                 (''consecutive_failures'', JInt (int (wh_failures hook1)))] fx1)
         else fx1)"

section \<open>The retry worker\<close>

text \<open>
  \<open>select ... where status in (pending, failed) and due ... limit 100 for update skip locked\<close>:
  the rows another replica holds are skipped. A replica holds its batch until it commits.
\<close>

definition is_due :: "datetime \<Rightarrow> delivery \<Rightarrow> bool" where
  "is_due now d \<longleftrightarrow> dl_status d \<in> {''pending'', ''failed''}
     \<and> (case dl_next_retry d of None \<Rightarrow> True | Some t \<Rightarrow> t \<le> now)"

definition claim_batch :: "datetime \<Rightarrow> nat set \<Rightarrow> delivery list \<Rightarrow> delivery list" where
  "claim_batch now locked ds = take 100 (filter (\<lambda>d. is_due now d \<and> dl_id d \<notin> locked) ds)"

definition bury :: "datetime \<Rightarrow> string \<Rightarrow> delivery \<Rightarrow> 'a effects_scheme \<Rightarrow> 'a effects_scheme" where
  "bury now reason d fx = put_delivery now (d\<lparr>dl_status := ''dead'', dl_error := Some reason\<rparr>) fx"

text \<open>\<open>delivery.event_id or -1\<close>.\<close>

definition redelivery_event :: "delivery \<Rightarrow> hook_event" where
  "redelivery_event d =
     \<lparr>he_id = (case dl_event d of None \<Rightarrow> -1 | Some i \<Rightarrow> if i = 0 then -1 else i),
      he_kind = dl_kind d, he_project = dl_project d, he_payload = dl_payload d\<rparr>"

text \<open>\<open>clock i\<close>: the time at which the attempt for row \<open>i\<close> of the batch ended.\<close>

fun process_rows ::
  "hook_config \<Rightarrow> (string \<Rightarrow> string \<Rightarrow> string) \<Rightarrow> endpoint \<Rightarrow> (nat \<Rightarrow> datetime) \<Rightarrow> delivery list
   \<Rightarrow> 'a effects_scheme \<times> nat \<Rightarrow> 'a effects_scheme \<times> nat" where
  "process_rows cfg hmac post clock [] (fx, n) = (fx, n)"
| "process_rows cfg hmac post clock (d # ds) (fx, n) =
     (case find_row wh_id (dl_webhook d) (fx_hooks fx) of
        None \<Rightarrow> process_rows cfg hmac post clock ds (bury (clock (dl_id d)) ''webhook deleted'' d fx, n)
      | Some hook \<Rightarrow>
          if \<not> wh_active hook
          then process_rows cfg hmac post clock ds
                 (bury (clock (dl_id d)) ''webhook deactivated'' d fx, n)
          else process_rows cfg hmac post clock ds
                 (deliver_one cfg hmac post (clock (dl_id d)) hook d (redelivery_event d) fx, Suc n))"

definition process_due_webhook_deliveries ::
  "hook_config \<Rightarrow> (string \<Rightarrow> string \<Rightarrow> string) \<Rightarrow> endpoint \<Rightarrow> (nat \<Rightarrow> datetime) \<Rightarrow> nat set \<Rightarrow> datetime
   \<Rightarrow> 'a effects_scheme \<Rightarrow> 'a effects_scheme \<times> nat" where
  "process_due_webhook_deliveries cfg hmac post clock locked now fx =
     process_rows cfg hmac post clock (claim_batch now locked (fx_deliveries fx)) (fx, 0)"

section \<open>Fan-out of one event\<close>

definition wants :: "hook_event \<Rightarrow> webhook \<Rightarrow> bool" where
  "wants e h \<longleftrightarrow>
     (case wh_project h of None \<Rightarrow> True | Some p \<Rightarrow> he_project e = JStr p)
   \<and> (case wh_kinds h of None \<Rightarrow> True | Some ks \<Rightarrow> he_kind e \<in> set ks)"

definition new_delivery :: "datetime \<Rightarrow> nat \<Rightarrow> webhook \<Rightarrow> hook_event \<Rightarrow> delivery" where
  "new_delivery now i hook e =
     \<lparr>dl_id = i, dl_webhook = wh_id hook, dl_event = (if 0 \<le> he_id e then Some (he_id e) else None),
      dl_kind = he_kind e, dl_project = he_project e, dl_payload = he_payload e, dl_attempt = 1,
      dl_status = ''pending'', dl_response = None, dl_error = None, dl_next_retry = None,
      dl_created = now, dl_updated = now\<rparr>"

definition deliver_to ::
  "hook_config \<Rightarrow> (string \<Rightarrow> string \<Rightarrow> string) \<Rightarrow> endpoint \<Rightarrow> datetime \<Rightarrow> hook_event \<Rightarrow> webhook
   \<Rightarrow> 'a effects_scheme \<Rightarrow> 'a effects_scheme" where
  "deliver_to cfg hmac post now e hook fx =
     (let d = new_delivery now (fx_next_delivery fx) hook e
      in deliver_one cfg hmac post now hook d e
           (fx\<lparr>fx_deliveries := fx_deliveries fx @ [d], fx_next_delivery := Suc (fx_next_delivery fx)\<rparr>))"

definition deliver_webhooks ::
  "hook_config \<Rightarrow> (string \<Rightarrow> string \<Rightarrow> string) \<Rightarrow> endpoint \<Rightarrow> datetime \<Rightarrow> webhook list \<Rightarrow> hook_event
   \<Rightarrow> 'a effects_scheme \<Rightarrow> 'a effects_scheme" where
  "deliver_webhooks cfg hmac post now hooks e fx =
     fold (deliver_to cfg hmac post now e) (filter (wants e) hooks) fx"

text \<open>\<open>_deliver_later\<close>: the oldest scheduled task runs in a session of its own.\<close>

definition run_task ::
  "hook_config \<Rightarrow> (string \<Rightarrow> string \<Rightarrow> string) \<Rightarrow> endpoint \<Rightarrow> datetime \<Rightarrow> 'a effects_scheme
   \<Rightarrow> 'a effects_scheme" where
  "run_task cfg hmac post now fx =
     (case fx_tasks fx of [] \<Rightarrow> fx
      | e # es \<Rightarrow> deliver_webhooks cfg hmac post now (filter wh_active (fx_hooks fx)) e
                    (fx\<lparr>fx_tasks := es\<rparr>))"

section \<open>Handlers\<close>

definition create_webhook ::
  "caller \<Rightarrow> string \<Rightarrow> string \<Rightarrow> string option \<Rightarrow> string list option \<Rightarrow> 'a effects_scheme
   \<Rightarrow> reply \<times> 'a effects_scheme" where
  "create_webhook cl url secret project kinds fx =
     (if \<not> (startswith url ''http://'' \<or> startswith url ''https://'')
      then (Fail 422 (JStr ''url must be http(s)''), fx)
      else let row = \<lparr>wh_id = cl_uuid cl, wh_url = url, wh_secret = secret, wh_project = project,
             wh_kinds = kinds, wh_active = True, wh_created = cl_now cl, wh_last_success = None,
             wh_last_failure = None, wh_failures = 0, wh_disabled_reason = None\<rparr>
           in (Ok 200 (JObj [(''id'', JStr (cl_uuid cl)), (''url'', JStr url), (''active'', JBool True)]),
               note_audit (cl_username cl) ''webhook.create'' (jopt project)
                 [(''webhook_id'', JNull), (''url'', JStr url)] 201
                 (fx\<lparr>fx_hooks := fx_hooks fx @ [row]\<rparr>)))"

definition webhook_dict :: "webhook \<Rightarrow> json" where
  "webhook_dict w =
     JObj [(''id'', JStr (wh_id w)), (''url'', JStr (wh_url w)), (''project_id'', jopt (wh_project w)),
       (''kinds'', opt_json (\<lambda>ks. JList (map JStr ks)) (wh_kinds w)), (''active'', JBool (wh_active w)),
       (''secret'', if wh_secret w = [] then JNull else JStr (take 3 (wh_secret w) @ ''...'')),
       (''last_success_at'', iso_opt (wh_last_success w)),
       (''last_failure_at'', iso_opt (wh_last_failure w)),
       (''consecutive_failures'', JInt (int (wh_failures w))),
       (''disabled_reason'', jopt (wh_disabled_reason w))]"

definition list_webhooks :: "nat \<Rightarrow> nat \<Rightarrow> 'a effects_scheme \<Rightarrow> reply" where
  "list_webhooks lim off fx =
     Ok 200 (JObj [(''webhooks'',
       JList (map webhook_dict (page lim off (newest_first wh_created (fx_hooks fx)))))])"

definition enable_webhook ::
  "caller \<Rightarrow> string \<Rightarrow> 'a effects_scheme \<Rightarrow> reply \<times> 'a effects_scheme" where
  "enable_webhook cl i fx =
     (case find_row wh_id i (fx_hooks fx) of
        None \<Rightarrow> (Fail 404 (JStr ''Webhook not found''), fx)
      | Some w \<Rightarrow> (Ok 200 (JObj [(''status'', JStr ''enabled'')]),
           note_audit (cl_username cl) ''webhook.enable'' (jopt (wh_project w))
             [(''webhook_id'', JStr i)] 200
             (put_hook (w\<lparr>wh_active := True, wh_disabled_reason := None, wh_failures := 0\<rparr>) fx)))"

text \<open>
  \<open>webhook_deliveries.webhook_id\<close> is a foreign key without a cascade: where the database enforces
  it (PostgreSQL does), deleting a webhook with a delivery row is an \<open>IntegrityError\<close>, a 500.
\<close>

definition delete_webhook ::
  "bool \<Rightarrow> caller \<Rightarrow> string \<Rightarrow> 'a effects_scheme \<Rightarrow> reply \<times> 'a effects_scheme" where
  "delete_webhook fk_enforced cl i fx =
     (case find_row wh_id i (fx_hooks fx) of
        None \<Rightarrow> (Fail 404 (JStr ''Webhook not found''), fx)
      | Some w \<Rightarrow>
          if fk_enforced \<and> list_ex (\<lambda>d. dl_webhook d = i) (fx_deliveries fx)
          then (Fail 500 (JStr ''IntegrityError''), fx)
          else (Ok 200 (JObj [(''status'', JStr ''deleted'')]),
             note_audit (cl_username cl) ''webhook.delete'' (jopt (wh_project w))
               [(''webhook_id'', JStr i)] 200
               (fx\<lparr>fx_hooks := del_row wh_id i (fx_hooks fx)\<rparr>)))"

definition test_webhook ::
  "hook_config \<Rightarrow> (string \<Rightarrow> string \<Rightarrow> string) \<Rightarrow> endpoint \<Rightarrow> caller \<Rightarrow> string \<Rightarrow> 'a effects_scheme
   \<Rightarrow> reply \<times> 'a effects_scheme" where
  "test_webhook cfg hmac post cl i fx =
     (case find_row wh_id i (fx_hooks fx) of
        None \<Rightarrow> (Fail 404 (JStr ''Webhook not found''), fx)
      | Some w \<Rightarrow> (Ok 200 (JObj [(''status'', JStr ''delivered'')]),
           note_audit (cl_username cl) ''webhook.test'' (jopt (wh_project w))
             [(''webhook_id'', JStr i)] 200
             (deliver_webhooks cfg hmac post (cl_now cl) [w]
                \<lparr>he_id = -1, he_kind = ''webhook_test'', he_project = jopt (wh_project w),
                 he_payload = JObj [(''ping'', JBool True)]\<rparr> fx)))"

definition delivery_row_dict :: "delivery \<Rightarrow> json" where
  "delivery_row_dict d =
     JObj [(''id'', JInt (int (dl_id d))), (''webhook_id'', JStr (dl_webhook d)),
       (''event_id'', opt_json JInt (dl_event d)), (''event_kind'', JStr (dl_kind d)),
       (''project_id'', dl_project d), (''attempt'', JInt (int (dl_attempt d))),
       (''status'', JStr (dl_status d)), (''response_code'', opt_json JInt (dl_response d)),
       (''last_error'', jopt (dl_error d)), (''next_retry_at'', iso_opt (dl_next_retry d)),
       (''created_at'', JStr (isoformat (dl_created d))),
       (''updated_at'', JStr (isoformat (dl_updated d)))]"

definition replay_webhook_delivery ::
  "caller \<Rightarrow> nat \<Rightarrow> 'a effects_scheme \<Rightarrow> reply \<times> 'a effects_scheme" where
  "replay_webhook_delivery cl i fx =
     (case find_row dl_id i (fx_deliveries fx) of
        None \<Rightarrow> (Fail 404 (JStr ''Delivery not found''), fx)
      | Some d \<Rightarrow>
          if dl_status d \<in> {''delivered'', ''pending''}
          then (Fail 409 (JStr (''Delivery '' @ nat_text i @ '' is '' @ dl_status d)), fx)
          else let d1 = d\<lparr>dl_status := ''pending'', dl_attempt := 0, dl_error := None,
                          dl_next_retry := Some (cl_now cl)\<rparr>
               in (Ok 200 (JObj [(''status'', JStr ''queued''),
                                 (''delivery'', delivery_row_dict (d1\<lparr>dl_updated := cl_now cl\<rparr>))]),
                   note_audit (cl_username cl) ''webhook.delivery_replay'' (dl_project d)
                     [(''delivery_id'', JInt (int i)), (''webhook_id'', JStr (dl_webhook d))] 200
                     (put_delivery (cl_now cl) d1 fx)))"

section \<open>What the operations change\<close>

lemma note_audit_frame [simp]:
  "fx_events (note_audit u a p ds st fx) = fx_events fx"
  "fx_next_event (note_audit u a p ds st fx) = fx_next_event fx"
  "fx_tasks (note_audit u a p ds st fx) = fx_tasks fx"
  "fx_hooks (note_audit u a p ds st fx) = fx_hooks fx"
  "fx_deliveries (note_audit u a p ds st fx) = fx_deliveries fx"
  "fx_next_delivery (note_audit u a p ds st fx) = fx_next_delivery fx"
  "fx_sent (note_audit u a p ds st fx) = fx_sent fx"
  by (simp_all add: note_audit_def)

lemma emit_event_frame [simp]:
  "fx_hooks (emit_event now p k pl fx) = fx_hooks fx"
  "fx_deliveries (emit_event now p k pl fx) = fx_deliveries fx"
  "fx_next_delivery (emit_event now p k pl fx) = fx_next_delivery fx"
  "fx_sent (emit_event now p k pl fx) = fx_sent fx"
  "fx_next_event (emit_event now p k pl fx) = Suc (fx_next_event fx)"
  by (simp_all add: emit_event_def Let_def)

lemma emit_event_tasks:
  "set (fx_tasks (emit_event now p k pl fx)) \<subseteq> insert \<lparr>he_id = int (fx_next_event fx), he_kind = k,
     he_project = p, he_payload = JObj pl\<rparr> (set (fx_tasks fx))"
  by (auto simp: emit_event_def Let_def)

lemma put_frame [simp]:
  "fx_deliveries (put_hook h fx) = fx_deliveries fx" "fx_sent (put_hook h fx) = fx_sent fx"
  "fx_tasks (put_hook h fx) = fx_tasks fx" "fx_next_event (put_hook h fx) = fx_next_event fx"
  "fx_next_delivery (put_hook h fx) = fx_next_delivery fx"
  "fx_hooks (put_hook h fx) = upd_row wh_id (wh_id h) (\<lambda>_. h) (fx_hooks fx)"
  "fx_hooks (put_delivery now d fx) = fx_hooks fx" "fx_sent (put_delivery now d fx) = fx_sent fx"
  "fx_tasks (put_delivery now d fx) = fx_tasks fx"
  "fx_next_event (put_delivery now d fx) = fx_next_event fx"
  "fx_next_delivery (put_delivery now d fx) = fx_next_delivery fx"
  "fx_deliveries (put_delivery now d fx) =
     upd_row dl_id (dl_id d) (\<lambda>_. d\<lparr>dl_updated := now\<rparr>) (fx_deliveries fx)"
  by (simp_all add: put_hook_def put_delivery_def)

text \<open>What an attempt keeps of the row: its key and the snapshot of the event.\<close>

definition same_event :: "delivery \<Rightarrow> delivery \<Rightarrow> bool" where
  "same_event d d' \<longleftrightarrow> dl_id d' = dl_id d \<and> dl_webhook d' = dl_webhook d \<and> dl_event d' = dl_event d
     \<and> dl_kind d' = dl_kind d \<and> dl_project d' = dl_project d \<and> dl_payload d' = dl_payload d"

lemma settle_same_event: "same_event d (snd (settle cfg now r hook d))"
  by (simp add: settle_def delivery_ok_def delivery_failed_def same_event_def Let_def split: sum.split)

lemma settle_hook_id [simp]:
  "wh_id (fst (settle cfg now r hook d)) = wh_id hook"
  by (simp add: settle_def delivery_ok_def delivery_failed_def Let_def split: sum.split)

lemma redelivery_event_same: "same_event d d' \<Longrightarrow> redelivery_event d' = redelivery_event d"
  by (simp add: same_event_def redelivery_event_def)

lemma settle_id [simp]: "dl_id (snd (settle cfg now r hook d)) = dl_id d"
  using settle_same_event [of d cfg now r hook] by (simp add: same_event_def)

lemma deliver_one_frame:
  "fx_deliveries (deliver_one cfg hmac post now hook d e fx) =
     upd_row dl_id (dl_id d) (\<lambda>_. (snd (settle cfg now (post (wh_url hook) (event_body e)
       (post_headers hmac hook e)) hook d))\<lparr>dl_updated := now\<rparr>) (fx_deliveries fx)"
  "fx_sent (deliver_one cfg hmac post now hook d e fx) = fx_sent fx @
     [\<lparr>sn_delivery = dl_id d, sn_url = wh_url hook, sn_body = event_body e,
       sn_headers = post_headers hmac hook e\<rparr>]"
  "fx_next_delivery (deliver_one cfg hmac post now hook d e fx) = fx_next_delivery fx"
  by (simp_all add: deliver_one_def Let_def case_prod_unfold)

lemma deliver_one_next_event:
  "fx_next_event fx \<le> fx_next_event (deliver_one cfg hmac post now hook d e fx)"
  by (simp add: deliver_one_def Let_def case_prod_unfold)

lemma deliver_one_tasks:
  "t \<in> set (fx_tasks (deliver_one cfg hmac post now hook d e fx)) \<Longrightarrow>
     t \<in> set (fx_tasks fx) \<or> he_id t = int (fx_next_event fx)"
  by (auto simp: deliver_one_def Let_def case_prod_unfold dest!: set_mp [OF emit_event_tasks] split: if_splits)

section \<open>The ledger as a state machine\<close>

text \<open>
  Everything that can happen to the webhooks and their deliveries, in any order: events of other
  handlers, scheduled tasks, worker ticks of any replica (which rows other replicas hold is
  arbitrary), the webhook handlers; \<open>ledger_step\<close> adds the operator's replay.
\<close>

inductive hook_step ::
  "hook_config \<Rightarrow> (string \<Rightarrow> string \<Rightarrow> string) \<Rightarrow> 'a effects_scheme \<Rightarrow> 'a effects_scheme \<Rightarrow> bool"
  for cfg hmac where
  emit: "hook_step cfg hmac fx (emit_event now p k pl fx)"
| trail: "hook_step cfg hmac fx (note_audit u a p ds st fx)"
| task: "hook_step cfg hmac fx (run_task cfg hmac post now fx)"
| tick: "hook_step cfg hmac fx
    (fst (process_due_webhook_deliveries cfg hmac post clock locked now fx))"
| create: "hook_step cfg hmac fx (snd (create_webhook cl url secret project kinds fx))"
| enable: "hook_step cfg hmac fx (snd (enable_webhook cl w fx))"
| delete: "hook_step cfg hmac fx (snd (delete_webhook fk cl w fx))"
| test: "hook_step cfg hmac fx (snd (test_webhook cfg hmac post cl w fx))"

inductive ledger_step ::
  "hook_config \<Rightarrow> (string \<Rightarrow> string \<Rightarrow> string) \<Rightarrow> 'a effects_scheme \<Rightarrow> 'a effects_scheme \<Rightarrow> bool"
  for cfg hmac where
  hook: "hook_step cfg hmac fx fx' \<Longrightarrow> ledger_step cfg hmac fx fx'"
| replay: "ledger_step cfg hmac fx (snd (replay_webhook_delivery cl i fx))"

definition open_row :: "delivery \<Rightarrow> bool" where
  "open_row d \<longleftrightarrow> dl_status d \<in> {''pending'', ''failed''}"

text \<open>A fresh row starts with attempt 1, so a setting below 2 gives it one request, as 2 does.\<close>

definition attempt_limit :: "hook_config \<Rightarrow> nat" where
  "attempt_limit cfg = max 2 (hc_max_attempts cfg)"

definition row_ok :: "hook_config \<Rightarrow> delivery \<Rightarrow> bool" where
  "row_ok cfg d \<longleftrightarrow> dl_status d \<in> {''pending'', ''failed'', ''delivered'', ''dead''}
     \<and> dl_attempt d \<le> attempt_limit cfg
     \<and> (dl_status d \<noteq> ''dead'' \<longrightarrow> dl_attempt d < attempt_limit cfg)
     \<and> dl_event d \<noteq> Some 0"

definition ledger_ok :: "hook_config \<Rightarrow> 'a effects_scheme \<Rightarrow> bool" where
  "ledger_ok cfg fx \<longleftrightarrow> 0 < fx_next_event fx \<and> (\<forall>t \<in> set (fx_tasks fx). 0 < he_id t)
     \<and> distinct (map dl_id (fx_deliveries fx))
     \<and> (\<forall>d \<in> set (fx_deliveries fx). dl_id d < fx_next_delivery fx \<and> row_ok cfg d)
     \<and> (\<forall>x \<in> set (fx_sent fx). \<exists>d \<in> set (fx_deliveries fx).
           dl_id d = sn_delivery x \<and> sn_body x = event_body (redelivery_event d))"

text \<open>The number of requests made for a row, and the tally a row keeps when the listed rows were replayed: each
  replay is worth one more budget.\<close>

definition posts :: "nat \<Rightarrow> 'a effects_scheme \<Rightarrow> nat" where
  "posts i fx = length (filter (\<lambda>x. sn_delivery x = i) (fx_sent fx))"

definition spent :: "delivery \<Rightarrow> nat" where
  "spent d = dl_attempt d + (if dl_status d = ''delivered'' then 1 else 0)"

definition tally_ok :: "hook_config \<Rightarrow> nat list \<Rightarrow> 'a effects_scheme \<Rightarrow> bool" where
  "tally_ok cfg rs fx \<longleftrightarrow> (\<forall>d \<in> set (fx_deliveries fx).
     posts (dl_id d) fx + 1 \<le> spent d + attempt_limit cfg * count_list rs (dl_id d)
   \<and> (dl_id d \<notin> set rs \<longrightarrow> posts (dl_id d) fx + 1 = spent d))"

text \<open>One row changes, by an attempt that is recorded or without one.\<close>

definition row_step :: "hook_config \<Rightarrow> delivery \<Rightarrow> delivery \<Rightarrow> bool \<Rightarrow> bool" where
  "row_step cfg d d' posted \<longleftrightarrow> same_event d d' \<and> row_ok cfg d'
     \<and> spent d' = dl_attempt d + (if posted then 1 else 0)
     \<and> (dl_status d' = ''delivered'' \<longrightarrow> posted) \<and> (open_row d' \<longrightarrow> posted)
     \<and> dl_attempt d \<le> dl_attempt d'"

definition row_changed ::
  "hook_config \<Rightarrow> delivery \<Rightarrow> 'a effects_scheme \<Rightarrow> 'a effects_scheme \<Rightarrow> bool" where
  "row_changed cfg d fx fx' \<longleftrightarrow> (\<exists>d' xs.
     row_step cfg d d' (xs \<noteq> [])
     \<and> fx_deliveries fx' = upd_row dl_id (dl_id d) (\<lambda>_. d') (fx_deliveries fx)
     \<and> fx_sent fx' = fx_sent fx @ xs
     \<and> (xs = [] \<or> (\<exists>x. xs = [x] \<and> sn_delivery x = dl_id d \<and> sn_body x = event_body (redelivery_event d)))
     \<and> fx_next_delivery fx' = fx_next_delivery fx \<and> fx_next_event fx \<le> fx_next_event fx'
     \<and> (\<forall>t \<in> set (fx_tasks fx'). t \<in> set (fx_tasks fx) \<or> he_id t = int (fx_next_event fx)))"

lemma row_ok_updated [simp]: "row_ok cfg (d\<lparr>dl_updated := t\<rparr>) = row_ok cfg d"
  by (simp add: row_ok_def open_row_def)

lemma settle_row_step:
  assumes ok: "row_ok cfg d" and opn: "open_row d"
  shows "row_step cfg d ((snd (settle cfg now r hook d))\<lparr>dl_updated := now\<rparr>) True"
proof -
  have failed: "row_step cfg d ((snd (delivery_failed cfg now r hook d))\<lparr>dl_updated := now\<rparr>) True"
    using assms
    by (auto simp: row_step_def delivery_failed_def Let_def same_event_def row_ok_def open_row_def spent_def attempt_limit_def)
  have delivered: "row_step cfg d ((snd (delivery_ok now c hook d))\<lparr>dl_updated := now\<rparr>) True" for c
    using assms by (auto simp: row_step_def delivery_ok_def same_event_def row_ok_def open_row_def spent_def)
  show ?thesis
  proof (cases r)
    case (Inl c)
    with failed delivered [of c] show ?thesis by (cases "200 \<le> c \<and> c < 300") (auto simp: settle_def)
  next
    case (Inr e)
    with failed show ?thesis by (simp add: settle_def)
  qed
qed

lemma bury_row_step:
  "row_ok cfg d \<Longrightarrow> row_step cfg d (d\<lparr>dl_status := ''dead'', dl_error := e, dl_updated := now\<rparr>) False"
  by (simp add: row_step_def same_event_def row_ok_def open_row_def spent_def)

lemma set_upd_row_at:
  assumes "distinct (map dl_id rows)" and "d \<in> set rows" and "dl_id d' = dl_id d"
  shows "set (upd_row dl_id (dl_id d) (\<lambda>_. d') rows) = insert d' (set rows - {d})"
proof -
  have only: "dl_id r = dl_id d \<longleftrightarrow> r = d" if "r \<in> set rows" for r
    using assms(1,2) that by (auto simp: distinct_map inj_on_def)
  have "set (upd_row dl_id (dl_id d) (\<lambda>_. d') rows) = (\<lambda>r. if r = d then d' else r) ` set rows"
    unfolding upd_row_def set_map by (rule image_cong) (simp_all add: only)
  also have "... = insert d' (set rows - {d})" using assms(2) by auto
  finally show ?thesis .
qed

lemma ids_upd_row_at:
  "dl_id d' = dl_id d \<Longrightarrow> map dl_id (upd_row dl_id (dl_id d) (\<lambda>_. d') rows) = map dl_id rows"
  by (induction rows) (auto simp: upd_row_def)

lemma row_written_ok:
  assumes inv: "ledger_ok cfg fx" and d: "d \<in> set (fx_deliveries fx)"
    and same: "same_event d d'" and ok': "row_ok cfg d'"
    and del: "fx_deliveries fx' = upd_row dl_id (dl_id d) (\<lambda>_. d') (fx_deliveries fx)"
    and snt: "\<forall>x \<in> set (fx_sent fx'). x \<in> set (fx_sent fx) \<or>
          sn_delivery x = dl_id d \<and> sn_body x = event_body (redelivery_event d)"
    and nd: "fx_next_delivery fx' = fx_next_delivery fx" and ne: "fx_next_event fx \<le> fx_next_event fx'"
    and tk: "\<forall>t \<in> set (fx_tasks fx'). t \<in> set (fx_tasks fx) \<or> he_id t = int (fx_next_event fx)"
  shows "ledger_ok cfg fx'"
proof -
  from same have ids: "dl_id d' = dl_id d" by (simp add: same_event_def)
  from inv have dist: "distinct (map dl_id (fx_deliveries fx))" by (simp add: ledger_ok_def)
  have rows: "set (fx_deliveries fx') = insert d' (set (fx_deliveries fx) - {d})"
    unfolding del by (rule set_upd_row_at [OF dist d ids])
  have bodies: "\<exists>e \<in> set (fx_deliveries fx'). dl_id e = sn_delivery x
      \<and> sn_body x = event_body (redelivery_event e)" if x: "x \<in> set (fx_sent fx')" for x
  proof -
    have "\<exists>e \<in> set (fx_deliveries fx). dl_id e = sn_delivery x
        \<and> sn_body x = event_body (redelivery_event e)"
    proof (cases "x \<in> set (fx_sent fx)")
      case True
      with inv show ?thesis by (simp add: ledger_ok_def)
    next
      case False
      with bspec [OF snt x] d show ?thesis by auto
    qed
    then obtain e where e: "e \<in> set (fx_deliveries fx)" "dl_id e = sn_delivery x"
      "sn_body x = event_body (redelivery_event e)" by blast
    show ?thesis
    proof (cases "e = d")
      case True
      with e ids redelivery_event_same [OF same] rows show ?thesis by auto
    next
      case False
      with e rows show ?thesis by blast
    qed
  qed
  show ?thesis
    unfolding ledger_ok_def
  proof (intro conjI)
    show "0 < fx_next_event fx'" using inv ne by (simp add: ledger_ok_def)
    show "\<forall>t \<in> set (fx_tasks fx'). 0 < he_id t" using tk inv by (auto simp: ledger_ok_def)
    show "distinct (map dl_id (fx_deliveries fx'))" unfolding del ids_upd_row_at [OF ids] by (rule dist)
    show "\<forall>e \<in> set (fx_deliveries fx'). dl_id e < fx_next_delivery fx' \<and> row_ok cfg e"
      using inv ok' d ids unfolding rows nd by (auto simp: ledger_ok_def)
    show "\<forall>x \<in> set (fx_sent fx'). \<exists>e \<in> set (fx_deliveries fx'). dl_id e = sn_delivery x
        \<and> sn_body x = event_body (redelivery_event e)" using bodies by blast
  qed
qed

lemma row_changed_ok:
  assumes inv: "ledger_ok cfg fx" and d: "d \<in> set (fx_deliveries fx)" and ch: "row_changed cfg d fx fx'"
  shows "ledger_ok cfg fx'"
proof -
  from ch obtain d' xs where step: "row_step cfg d d' (xs \<noteq> [])"
    and del: "fx_deliveries fx' = upd_row dl_id (dl_id d) (\<lambda>_. d') (fx_deliveries fx)"
    and snt: "fx_sent fx' = fx_sent fx @ xs"
    and xs: "xs = [] \<or> (\<exists>x. xs = [x] \<and> sn_delivery x = dl_id d \<and> sn_body x = event_body (redelivery_event d))"
    and nd: "fx_next_delivery fx' = fx_next_delivery fx" and ne: "fx_next_event fx \<le> fx_next_event fx'"
    and tk: "\<forall>t \<in> set (fx_tasks fx'). t \<in> set (fx_tasks fx) \<or> he_id t = int (fx_next_event fx)"
    unfolding row_changed_def by blast
  from step have "same_event d d'" and "row_ok cfg d'" by (simp_all add: row_step_def)
  then show ?thesis
    by (rule row_written_ok [OF inv d _ _ del _ nd ne tk]) (use xs snt in auto)
qed

lemma row_changed_tally:
  assumes inv: "ledger_ok cfg fx" and d: "d \<in> set (fx_deliveries fx)" and opn: "open_row d"
    and ch: "row_changed cfg d fx fx'" and tal: "tally_ok cfg rs fx"
  shows "tally_ok cfg rs fx'"
proof -
  from ch obtain d' xs where step: "row_step cfg d d' (xs \<noteq> [])"
    and del: "fx_deliveries fx' = upd_row dl_id (dl_id d) (\<lambda>_. d') (fx_deliveries fx)"
    and snt: "fx_sent fx' = fx_sent fx @ xs"
    and xs: "xs = [] \<or> (\<exists>x. xs = [x] \<and> sn_delivery x = dl_id d \<and> sn_body x = event_body (redelivery_event d))"
    unfolding row_changed_def by blast
  from step have ids: "dl_id d' = dl_id d" by (simp add: row_step_def same_event_def)
  from inv have dist: "distinct (map dl_id (fx_deliveries fx))" by (simp add: ledger_ok_def)
  have rows: "set (fx_deliveries fx') = insert d' (set (fx_deliveries fx) - {d})"
    unfolding del by (rule set_upd_row_at [OF dist d ids])
  have own: "posts (dl_id d) fx' = posts (dl_id d) fx + (if xs = [] then 0 else 1)"
    using xs by (auto simp: posts_def snt)
  have other: "posts i fx' = posts i fx" if "i \<noteq> dl_id d" for i
    using xs that by (auto simp: posts_def snt)
  have "spent d = dl_attempt d" using opn by (auto simp: spent_def open_row_def)
  then have "posts (dl_id d) fx + 1 \<le> dl_attempt d + attempt_limit cfg * count_list rs (dl_id d)
      \<and> (dl_id d \<notin> set rs \<longrightarrow> posts (dl_id d) fx + 1 = dl_attempt d)"
    using tal d by (auto simp: tally_ok_def)
  with step own have "posts (dl_id d') fx' + 1 \<le> spent d' + attempt_limit cfg * count_list rs (dl_id d')
      \<and> (dl_id d' \<notin> set rs \<longrightarrow> posts (dl_id d') fx' + 1 = spent d')"
    by (auto simp: row_step_def ids split: if_splits)
  moreover have "dl_id e \<noteq> dl_id d" if "e \<in> set (fx_deliveries fx) - {d}" for e
    using that d dist by (auto simp: distinct_map inj_on_def)
  ultimately show ?thesis using tal other unfolding tally_ok_def rows by auto
qed

lemma deliver_one_row_changed:
  assumes "row_ok cfg d" and "open_row d" and "e = redelivery_event d"
  shows "row_changed cfg d fx (deliver_one cfg hmac post now hook d e fx)"
  unfolding row_changed_def
  by (rule exI, rule exI [of _ "[\<lparr>sn_delivery = dl_id d, sn_url = wh_url hook,
      sn_body = event_body e, sn_headers = post_headers hmac hook e\<rparr>]"])
    (use assms deliver_one_tasks [of _ cfg hmac post now hook d e fx]
      deliver_one_next_event [of fx cfg hmac post now hook d e] in
      \<open>auto simp: deliver_one_frame intro!: settle_row_step\<close>)

lemma bury_row_changed:
  assumes "row_ok cfg d"
  shows "row_changed cfg d fx (bury now reason d fx)"
  unfolding row_changed_def
  by (rule exI [of _ "d\<lparr>dl_status := ''dead'', dl_error := Some reason, dl_updated := now\<rparr>"],
      rule exI [of _ "[]"]) (use assms in \<open>auto simp: bury_def intro!: bury_row_step\<close>)

text \<open>
  The batch of a tick: distinct open rows of the table, each handled once. Whatever holds of the
  state after each handled row holds after the batch.
\<close>

definition batch_ok :: "delivery list \<Rightarrow> 'a effects_scheme \<Rightarrow> bool" where
  "batch_ok ds fx \<longleftrightarrow> distinct (map dl_id ds) \<and> set ds \<subseteq> set (fx_deliveries fx) \<and> (\<forall>d \<in> set ds. open_row d)"

lemma batch_ok_tail:
  assumes inv: "ledger_ok cfg fx" and b: "batch_ok (d # ds) fx" and ch: "row_changed cfg d fx fx'"
  shows "batch_ok ds fx'"
proof -
  from ch obtain d' and xs :: "sent list" where step: "row_step cfg d d' (xs \<noteq> [])"
    and del: "fx_deliveries fx' = upd_row dl_id (dl_id d) (\<lambda>_. d') (fx_deliveries fx)"
    unfolding row_changed_def by blast
  from step have ids: "dl_id d' = dl_id d" by (simp add: row_step_def same_event_def)
  have "set (fx_deliveries fx') = insert d' (set (fx_deliveries fx) - {d})"
    unfolding del by (rule set_upd_row_at [OF _ _ ids]) (use inv b in \<open>auto simp: ledger_ok_def batch_ok_def\<close>)
  with b show ?thesis by (auto simp: batch_ok_def)
qed

definition handled ::
  "hook_config \<Rightarrow> (string \<Rightarrow> string \<Rightarrow> string) \<Rightarrow> endpoint \<Rightarrow> (nat \<Rightarrow> datetime) \<Rightarrow> delivery
   \<Rightarrow> 'a effects_scheme \<Rightarrow> 'a effects_scheme \<Rightarrow> bool" where
  "handled cfg hmac post clock d fx fx' \<longleftrightarrow> (\<exists>r. fx' = bury (clock (dl_id d)) r d fx)
     \<or> (\<exists>hook. fx' = deliver_one cfg hmac post (clock (dl_id d)) hook d (redelivery_event d) fx)"

lemma handled_intros:
  "handled cfg hmac post clock d fx (bury (clock (dl_id d)) r d fx)"
  "handled cfg hmac post clock d fx
     (deliver_one cfg hmac post (clock (dl_id d)) hook d (redelivery_event d) fx)"
  by (auto simp: handled_def)

lemma process_rows_induct:
  assumes "ledger_ok cfg fx" and "batch_ok ds fx" and "P fx"
    and step: "\<And>d fx fx'. ledger_ok cfg fx \<Longrightarrow> d \<in> set (fx_deliveries fx) \<Longrightarrow> open_row d \<Longrightarrow> d \<in> set ds
       \<Longrightarrow> row_changed cfg d fx fx' \<Longrightarrow> handled cfg hmac post clock d fx fx' \<Longrightarrow> P fx \<Longrightarrow> P fx'"
  shows "ledger_ok cfg (fst (process_rows cfg hmac post clock ds (fx, n)))
       \<and> P (fst (process_rows cfg hmac post clock ds (fx, n)))"
  using assms
proof (induction ds arbitrary: fx n)
  case (Cons d ds)
  from Cons.prems(2) have d: "d \<in> set (fx_deliveries fx)" and opn: "open_row d" by (auto simp: batch_ok_def)
  with Cons.prems(1) have ok: "row_ok cfg d" by (simp add: ledger_ok_def)
  have next': "ledger_ok cfg (fst (process_rows cfg hmac post clock ds (fx', m)))
       \<and> P (fst (process_rows cfg hmac post clock ds (fx', m)))"
    if ch: "row_changed cfg d fx fx'" and h: "handled cfg hmac post clock d fx fx'" for fx' m
  proof (rule Cons.IH)
    show "ledger_ok cfg fx'" by (rule row_changed_ok [OF Cons.prems(1) d ch])
    show "batch_ok ds fx'" by (rule batch_ok_tail [OF Cons.prems(1,2) ch])
    show "P fx'" by (rule Cons.prems(4) [OF Cons.prems(1) d opn _ ch h Cons.prems(3)]) simp
  qed (rule Cons.prems(4); simp)
  show ?case
    using next' [OF bury_row_changed [OF ok] handled_intros(1)]
      next' [OF deliver_one_row_changed [OF ok opn refl] handled_intros(2)]
    by (simp split: option.split)
qed simp

lemma claim_batch_ok:
  assumes "ledger_ok cfg fx"
  shows "batch_ok (claim_batch now locked (fx_deliveries fx)) fx"
proof -
  have "distinct (map dl_id (claim_batch now locked (fx_deliveries fx)))"
    using assms by (simp add: claim_batch_def ledger_ok_def distinct_map_filter take_map [symmetric])
  then show ?thesis
    by (auto simp: batch_ok_def claim_batch_def is_due_def open_row_def dest: in_set_takeD)
qed

lemma ledger_ok_fresh:
  assumes "ledger_ok cfg fx" and "d = new_delivery now (fx_next_delivery fx) hook e"
    and "he_id e \<noteq> 0"
  shows "ledger_ok cfg (fx\<lparr>fx_deliveries := fx_deliveries fx @ [d], fx_next_delivery := Suc (fx_next_delivery fx)\<rparr>)"
  using assms
  by (fastforce simp: ledger_ok_def row_ok_def new_delivery_def open_row_def attempt_limit_def)

lemma tally_ok_fresh:
  assumes "ledger_ok cfg fx" and "tally_ok cfg rs fx" and "d = new_delivery now (fx_next_delivery fx) hook e"
  shows "tally_ok cfg rs (fx\<lparr>fx_deliveries := fx_deliveries fx @ [d], fx_next_delivery := Suc (fx_next_delivery fx)\<rparr>)"
proof -
  have "\<forall>x \<in> set (fx_sent fx). sn_delivery x < fx_next_delivery fx"
    using assms(1) by (fastforce simp: ledger_ok_def)
  then have "filter (\<lambda>x. sn_delivery x = fx_next_delivery fx) (fx_sent fx) = []"
    by (auto simp: filter_empty_conv)
  with assms(2,3) show ?thesis by (auto simp: tally_ok_def posts_def new_delivery_def spent_def)
qed

lemma redelivery_event_new:
  "he_id e = -1 \<or> 0 < he_id e \<Longrightarrow> redelivery_event (new_delivery now i hook e) = e"
  by (auto simp: redelivery_event_def new_delivery_def)

text \<open>The part of the state the ledger's invariants read; a step that keeps it keeps them.\<close>

definition same_ledger :: "'a effects_scheme \<Rightarrow> 'a effects_scheme \<Rightarrow> bool" where
  "same_ledger fx fx' \<longleftrightarrow> fx_deliveries fx' = fx_deliveries fx \<and> fx_sent fx' = fx_sent fx
     \<and> fx_next_delivery fx' = fx_next_delivery fx \<and> fx_next_event fx \<le> fx_next_event fx'
     \<and> (\<forall>t \<in> set (fx_tasks fx'). t \<in> set (fx_tasks fx) \<or> he_id t = int (fx_next_event fx))"

definition ledger_and_tally :: "hook_config \<Rightarrow> nat list \<Rightarrow> 'a effects_scheme \<Rightarrow> bool" where
  "ledger_and_tally cfg rs fx \<longleftrightarrow> ledger_ok cfg fx \<and> tally_ok cfg rs fx"

lemma same_ledger_ok: "ledger_ok cfg fx \<Longrightarrow> same_ledger fx fx' \<Longrightarrow> ledger_ok cfg fx'"
  unfolding ledger_ok_def same_ledger_def by auto

lemma same_ledger_tally: "tally_ok cfg rs fx \<Longrightarrow> same_ledger fx fx' \<Longrightarrow> tally_ok cfg rs fx'"
  unfolding tally_ok_def same_ledger_def posts_def by auto

lemma same_ledger_simps [intro, simp]:
  "same_ledger fx fx" "same_ledger fx (note_audit u a p ds st fx)"
  "same_ledger fx (put_hook h fx)" "same_ledger fx (fx\<lparr>fx_hooks := hs\<rparr>)"
  "same_ledger fx (note_audit u a p ds st (put_hook h fx))"
  "same_ledger fx (note_audit u a p ds st (fx\<lparr>fx_hooks := hs\<rparr>))"
  by (simp_all add: same_ledger_def)

lemma same_ledger_emit: "same_ledger fx (emit_event now p k pl fx)"
  using emit_event_tasks [of now p k pl fx] by (auto simp: same_ledger_def)

text \<open>
  A predicate on states that fresh rows, attempts on open rows and steps outside the ledger keep is
  kept by every hook step. Both invariants are instances.
\<close>

lemma deliver_webhooks_keeps:
  assumes "\<And>fx d hook. P fx \<Longrightarrow> d = new_delivery now (fx_next_delivery fx) hook e \<Longrightarrow>
      P (deliver_one cfg hmac post now hook d e
          (fx\<lparr>fx_deliveries := fx_deliveries fx @ [d], fx_next_delivery := Suc (fx_next_delivery fx)\<rparr>))"
    and "P fx"
  shows "P (deliver_webhooks cfg hmac post now hooks e fx)"
proof -
  have "P (fold (deliver_to cfg hmac post now e) hs fx)" if "P fx" for hs fx
    using that by (induction hs arbitrary: fx) (simp_all add: deliver_to_def Let_def assms(1))
  with assms(2) show ?thesis by (simp add: deliver_webhooks_def)
qed

lemma deliver_webhooks_ok:
  assumes ev: "he_id e = -1 \<or> 0 < he_id e" and inv: "ledger_ok cfg fx"
  shows "ledger_ok cfg (deliver_webhooks cfg hmac post now hooks e fx)"
proof (rule deliver_webhooks_keeps [where P = "ledger_ok cfg", OF _ inv])
  fix fx :: "'a effects_scheme" and d hook
  assume P: "ledger_ok cfg fx" and d: "d = new_delivery now (fx_next_delivery fx) hook e"
  let ?fx = "fx\<lparr>fx_deliveries := fx_deliveries fx @ [d], fx_next_delivery := Suc (fx_next_delivery fx)\<rparr>"
  have ok: "ledger_ok cfg ?fx" by (rule ledger_ok_fresh [OF P d]) (use ev in auto)
  then have row: "row_ok cfg d" by (simp add: ledger_ok_def)
  have opn: "open_row d" by (simp add: d open_row_def new_delivery_def)
  have "row_changed cfg d ?fx (deliver_one cfg hmac post now hook d e ?fx)"
    by (rule deliver_one_row_changed [OF row opn]) (use ev in \<open>simp add: d redelivery_event_new\<close>)
  then show "ledger_ok cfg (deliver_one cfg hmac post now hook d e ?fx)"
    by (rule row_changed_ok [OF ok, rotated]) simp
qed

lemma deliver_webhooks_tally:
  assumes ev: "he_id e = -1 \<or> 0 < he_id e"
    and inv: "ledger_and_tally cfg rs fx"
  shows "ledger_and_tally cfg rs (deliver_webhooks cfg hmac post now hooks e fx)"
proof (rule deliver_webhooks_keeps [where P = "ledger_and_tally cfg rs", OF _ inv])
  fix fx :: "'a effects_scheme" and d hook
  assume "ledger_and_tally cfg rs fx" and d: "d = new_delivery now (fx_next_delivery fx) hook e"
  then have P: "ledger_ok cfg fx" and T: "tally_ok cfg rs fx" by (simp_all add: ledger_and_tally_def)
  let ?fx = "fx\<lparr>fx_deliveries := fx_deliveries fx @ [d], fx_next_delivery := Suc (fx_next_delivery fx)\<rparr>"
  have ok: "ledger_ok cfg ?fx" by (rule ledger_ok_fresh [OF P d]) (use ev in auto)
  have tal: "tally_ok cfg rs ?fx" by (rule tally_ok_fresh [OF P T d])
  from ok have row: "row_ok cfg d" by (simp add: ledger_ok_def)
  have opn: "open_row d" by (simp add: d open_row_def new_delivery_def)
  have ch: "row_changed cfg d ?fx (deliver_one cfg hmac post now hook d e ?fx)"
    by (rule deliver_one_row_changed [OF row opn]) (use ev in \<open>simp add: d redelivery_event_new\<close>)
  have mem: "d \<in> set (fx_deliveries ?fx)" by simp
  show "ledger_and_tally cfg rs (deliver_one cfg hmac post now hook d e ?fx)"
    unfolding ledger_and_tally_def
    using row_changed_ok [OF ok mem ch] row_changed_tally [OF ok mem opn ch tal] by blast
qed

lemma tick_ok:
  assumes "ledger_ok cfg fx"
  shows "ledger_ok cfg (fst (process_due_webhook_deliveries cfg hmac post clock locked now fx))"
  unfolding process_due_webhook_deliveries_def
  using process_rows_induct [OF assms claim_batch_ok [OF assms], where P = "\<lambda>_. True"] by blast

lemma tick_tally:
  assumes "ledger_and_tally cfg rs fx"
  shows "ledger_and_tally cfg rs (fst (process_due_webhook_deliveries cfg hmac post clock locked now fx))"
proof -
  from assms have inv: "ledger_ok cfg fx" and tal: "tally_ok cfg rs fx" by (simp_all add: ledger_and_tally_def)
  show ?thesis
    unfolding process_due_webhook_deliveries_def ledger_and_tally_def
    by (rule process_rows_induct [where P = "tally_ok cfg rs", OF inv claim_batch_ok [OF inv] tal])
      (rule row_changed_tally)
qed

lemma pop_task_ok:
  assumes "fx_tasks fx = e # es"
  shows "ledger_ok cfg fx \<Longrightarrow> ledger_ok cfg (fx\<lparr>fx_tasks := es\<rparr>) \<and> 0 < he_id e"
    and "ledger_and_tally cfg rs fx \<Longrightarrow> ledger_and_tally cfg rs (fx\<lparr>fx_tasks := es\<rparr>) \<and> 0 < he_id e"
  using assms by (simp_all add: ledger_and_tally_def ledger_ok_def tally_ok_def posts_def)

lemma run_task_ok:
  shows "ledger_ok cfg fx \<Longrightarrow> ledger_ok cfg (run_task cfg hmac post now fx)"
    and "ledger_and_tally cfg rs fx \<Longrightarrow> ledger_and_tally cfg rs (run_task cfg hmac post now fx)"
  by (auto simp: run_task_def pop_task_ok split: list.split
      intro!: deliver_webhooks_ok deliver_webhooks_tally)

lemma handler_same_ledger:
  "same_ledger fx (snd (create_webhook cl url secret project kinds fx))"
  "same_ledger fx (snd (enable_webhook cl w fx))"
  "same_ledger fx (snd (delete_webhook fk cl w fx))"
  by (simp_all add: create_webhook_def enable_webhook_def delete_webhook_def Let_def split: option.split)

lemma test_webhook_ledger:
  "snd (test_webhook cfg hmac post cl w fx) = fx \<or>
   (\<exists>hook u a p ds st. snd (test_webhook cfg hmac post cl w fx) = note_audit u a p ds st
     (deliver_webhooks cfg hmac post (cl_now cl) [hook] \<lparr>he_id = -1, he_kind = ''webhook_test'',
        he_project = jopt (wh_project hook), he_payload = JObj [(''ping'', JBool True)]\<rparr> fx))"
proof (cases "find_row wh_id w (fx_hooks fx)")
  case (Some hook)
  then have "snd (test_webhook cfg hmac post cl w fx) =
    note_audit (cl_username cl) ''webhook.test'' (jopt (wh_project hook)) [(''webhook_id'', JStr w)] 200
     (deliver_webhooks cfg hmac post (cl_now cl) [hook] \<lparr>he_id = -1, he_kind = ''webhook_test'',
        he_project = jopt (wh_project hook), he_payload = JObj [(''ping'', JBool True)]\<rparr> fx)"
    by (simp add: test_webhook_def)
  then show ?thesis by blast
qed (simp add: test_webhook_def)

lemma hook_step_ok:
  assumes "hook_step cfg hmac fx fx'" and "ledger_ok cfg fx"
  shows "ledger_ok cfg fx'"
  using assms
proof cases
  case (test post cl w)
  show ?thesis
    using test_webhook_ledger [of cfg hmac post cl w fx] deliver_webhooks_ok [OF _ assms(2)]
    by (auto simp: test intro!: same_ledger_ok [OF _ same_ledger_simps(2)] assms(2))
qed (auto intro: same_ledger_ok [OF _ same_ledger_emit] same_ledger_ok [OF _ same_ledger_simps(2)]
      same_ledger_ok [OF _ handler_same_ledger(1)] same_ledger_ok [OF _ handler_same_ledger(2)]
      same_ledger_ok [OF _ handler_same_ledger(3)] tick_ok run_task_ok(1))

lemma same_ledger_both: "ledger_and_tally cfg rs fx \<Longrightarrow> same_ledger fx fx' \<Longrightarrow> ledger_and_tally cfg rs fx'"
  by (auto simp: ledger_and_tally_def intro: same_ledger_ok same_ledger_tally)

lemma hook_step_both:
  assumes "hook_step cfg hmac fx fx'" and "ledger_and_tally cfg rs fx"
  shows "ledger_and_tally cfg rs fx'"
  using assms
proof cases
  case (test post cl w)
  show ?thesis
    using test_webhook_ledger [of cfg hmac post cl w fx] deliver_webhooks_tally [OF _ assms(2)]
    by (auto simp: test intro!: same_ledger_both [OF _ same_ledger_simps(2)] assms(2))
qed (auto intro: same_ledger_both [OF _ same_ledger_emit] same_ledger_both [OF _ same_ledger_simps(2)]
      same_ledger_both [OF _ handler_same_ledger(1)] same_ledger_both [OF _ handler_same_ledger(2)]
      same_ledger_both [OF _ handler_same_ledger(3)] tick_tally run_task_ok(2))

lemma replay_ok:
  assumes inv: "ledger_ok cfg fx"
  shows "ledger_ok cfg (snd (replay_webhook_delivery cl i fx))"
proof (cases "find_row dl_id i (fx_deliveries fx)")
  case (Some d)
  then have d: "d \<in> set (fx_deliveries fx)" "dl_id d = i" by (auto dest: find_row_SomeD)
  let ?d = "d\<lparr>dl_status := ''pending'', dl_attempt := 0, dl_error := None, dl_next_retry := Some (cl_now cl)\<rparr>"
  have "ledger_ok cfg (put_delivery (cl_now cl) ?d fx)"
  proof (rule row_written_ok [OF inv d(1)])
    show "same_event d (?d\<lparr>dl_updated := cl_now cl\<rparr>)" by (simp add: same_event_def)
    show "row_ok cfg (?d\<lparr>dl_updated := cl_now cl\<rparr>)"
      using inv d(1) by (simp add: row_ok_def ledger_ok_def attempt_limit_def)
  qed simp_all
  with Some inv show ?thesis
    by (auto simp: replay_webhook_delivery_def Let_def intro: same_ledger_ok [OF _ same_ledger_simps(2)])
qed (use inv in \<open>simp add: replay_webhook_delivery_def\<close>)

lemma ledger_step_ok:
  assumes "ledger_step cfg hmac fx fx'" and "ledger_ok cfg fx"
  shows "ledger_ok cfg fx'"
  using assms by cases (auto intro: hook_step_ok replay_ok)

text \<open>A registry on which nothing has been delivered yet.\<close>

definition fresh_ledger :: "'a effects_scheme \<Rightarrow> bool" where
  "fresh_ledger fx \<longleftrightarrow> fx_deliveries fx = [] \<and> fx_sent fx = [] \<and> fx_tasks fx = [] \<and> 0 < fx_next_event fx"

lemma fresh_ledger_ok: "fresh_ledger fx \<Longrightarrow> ledger_and_tally cfg rs fx"
  by (simp add: fresh_ledger_def ledger_and_tally_def ledger_ok_def tally_ok_def)

lemma reachable_ledger_ok:
  assumes "fresh_ledger fx0" and "(ledger_step cfg hmac)\<^sup>*\<^sup>* fx0 fx"
  shows "ledger_ok cfg fx"
  using assms(2)
  by (induction rule: rtranclp_induct)
    (use fresh_ledger_ok [OF assms(1)] ledger_step_ok in \<open>auto simp: ledger_and_tally_def\<close>)

text \<open>A history with the rows whose replay was accepted, one entry for each replay.\<close>

inductive ledger_run ::
  "hook_config \<Rightarrow> (string \<Rightarrow> string \<Rightarrow> string) \<Rightarrow> 'a effects_scheme \<Rightarrow> nat list \<Rightarrow> 'a effects_scheme \<Rightarrow> bool"
  for cfg hmac fx0 where
  start: "ledger_run cfg hmac fx0 [] fx0"
| hook: "ledger_run cfg hmac fx0 rs fx \<Longrightarrow> hook_step cfg hmac fx fx' \<Longrightarrow> ledger_run cfg hmac fx0 rs fx'"
| replay: "ledger_run cfg hmac fx0 rs fx \<Longrightarrow> replay_webhook_delivery cl i fx = (r, fx')
    \<Longrightarrow> ledger_run cfg hmac fx0 (if reply_status r = 200 then i # rs else rs) fx'"

lemma replay_tally:
  assumes both: "ledger_and_tally cfg rs fx" and "replay_webhook_delivery cl i fx = (r, fx')"
  shows "ledger_and_tally cfg (if reply_status r = 200 then i # rs else rs) fx'"
proof (cases "\<exists>d. find_row dl_id i (fx_deliveries fx) = Some d \<and> dl_status d \<notin> {''delivered'', ''pending''}")
  case False
  then have "fx' = fx" "reply_status r \<noteq> 200"
    using assms(2) by (auto simp: replay_webhook_delivery_def split: option.splits if_splits)
  then show ?thesis using both by simp
next
  case True
  then obtain d where find: "find_row dl_id i (fx_deliveries fx) = Some d"
    and st: "dl_status d \<notin> {''delivered'', ''pending''}" by blast
  from find have d: "d \<in> set (fx_deliveries fx)" "dl_id d = i" by (auto dest: find_row_SomeD)
  define e where "e = d\<lparr>dl_status := ''pending'', dl_attempt := 0, dl_error := None,
    dl_next_retry := Some (cl_now cl), dl_updated := cl_now cl\<rparr>"
  have ok: "ledger_ok cfg fx'" and r: "reply_status r = 200"
    and rows: "fx_deliveries fx' = upd_row dl_id (dl_id d) (\<lambda>_. e) (fx_deliveries fx)"
    and sent: "fx_sent fx' = fx_sent fx"
    using both assms(2) replay_ok [of cfg fx cl i] find st
    by (auto simp: ledger_and_tally_def replay_webhook_delivery_def Let_def e_def)
  have dist: "distinct (map dl_id (fx_deliveries fx))" and row: "row_ok cfg d"
    using both d by (simp_all add: ledger_and_tally_def ledger_ok_def)
  have "dl_id e = dl_id d" by (simp add: e_def)
  from set_upd_row_at [OF dist d(1) this]
  have set': "set (fx_deliveries fx') = insert e (set (fx_deliveries fx) - {d})" unfolding rows .
  have "posts i fx + 1 \<le> spent d + attempt_limit cfg * count_list rs i"
    using both d by (auto simp: ledger_and_tally_def tally_ok_def)
  moreover have "spent d \<le> attempt_limit cfg" using row st by (auto simp: spent_def row_ok_def)
  ultimately have mine: "posts i fx + 1 \<le> spent e + attempt_limit cfg * count_list (i # rs) i"
    by (simp add: e_def)
  have "dl_id x \<noteq> i" if "x \<in> set (fx_deliveries fx) - {d}" for x
    using that d dist by (auto simp: distinct_map inj_on_def)
  then have "tally_ok cfg (i # rs) fx'"
    using both mine d(2) unfolding tally_ok_def set' ledger_and_tally_def
    by (auto simp: posts_def sent e_def)
  then show ?thesis using ok r by (simp add: ledger_and_tally_def)
qed

lemma ledger_run_tally:
  assumes "ledger_run cfg hmac fx0 rs fx" and "fresh_ledger fx0"
  shows "ledger_and_tally cfg rs fx"
  using assms(1)
proof (induction rule: ledger_run.induct)
  case start
  show ?case by (rule fresh_ledger_ok [OF assms(2)])
next
  case (hook rs fx fx')
  show ?case by (rule hook_step_both [OF hook(2,3)])
next
  case (replay rs fx cl i r fx')
  show ?case by (rule replay_tally [OF replay(3,2)])
qed

lemma hook_steps_run: "(hook_step cfg hmac)\<^sup>*\<^sup>* fx0 fx \<Longrightarrow> ledger_run cfg hmac fx0 [] fx"
  by (induction rule: rtranclp_induct) (auto intro: ledger_run.intros)

section \<open>Properties\<close>

text \<open>
  C11. A retry sends the bytes of the first attempt: whatever happens between them (other events,
  worker ticks of any replica, operator replays, webhooks enabled, disabled or deleted), all
  requests made for one delivery row carry the same body.
\<close>

theorem retries_send_identical_body:
  assumes "fresh_ledger fx0" and "(ledger_step cfg hmac)\<^sup>*\<^sup>* fx0 fx"
    and "x \<in> set (fx_sent fx)" and "y \<in> set (fx_sent fx)" and "sn_delivery x = sn_delivery y"
  shows "sn_body x = sn_body y"
proof -
  have inv: "ledger_ok cfg fx" by (rule reachable_ledger_ok [OF assms(1,2)])
  then obtain d e where "d \<in> set (fx_deliveries fx)" "dl_id d = sn_delivery x"
      "sn_body x = event_body (redelivery_event d)" "e \<in> set (fx_deliveries fx)" "dl_id e = sn_delivery y"
      "sn_body y = event_body (redelivery_event e)"
    using assms(3,4) unfolding ledger_ok_def by metis
  moreover have "inj_on dl_id (set (fx_deliveries fx))" using inv by (simp add: ledger_ok_def distinct_map)
  ultimately show ?thesis using assms(5) by (metis inj_onD)
qed

text \<open>
  C27. The attempt budget. Write N for \<open>AV_WEBHOOK_MAX_ATTEMPTS\<close>, or 2 if the setting is smaller: the
  counter starts at 1 before the first request, so a setting of 1 also allows one request and its
  counter reaches 2. In every history, replays by the operator included, a delivery row has one of the
  four documented states and its counter is at most N, below it unless the row is dead; the requests
  made for the row are fewer than N for its creation and at most N more for each accepted replay of it.
  A row that was never replayed and used its budget up got exactly N - 1 requests.
\<close>

theorem attempt_budget:
  assumes "fresh_ledger fx0" and "ledger_run cfg hmac fx0 replayed fx" and "d \<in> set (fx_deliveries fx)"
  shows "dl_status d \<in> {''pending'', ''failed'', ''delivered'', ''dead''}
    \<and> dl_attempt d \<le> max 2 (hc_max_attempts cfg)
    \<and> (dl_status d \<noteq> ''dead'' \<longrightarrow> dl_attempt d < max 2 (hc_max_attempts cfg))
    \<and> posts (dl_id d) fx < max 2 (hc_max_attempts cfg) * (count_list replayed (dl_id d) + 1)
    \<and> (dl_id d \<notin> set replayed \<and> dl_attempt d = max 2 (hc_max_attempts cfg)
         \<longrightarrow> posts (dl_id d) fx = max 2 (hc_max_attempts cfg) - 1)"
proof -
  have "ledger_and_tally cfg replayed fx" by (rule ledger_run_tally [OF assms(2,1)])
  then have row: "row_ok cfg d"
    and tal: "posts (dl_id d) fx + 1 \<le> spent d + attempt_limit cfg * count_list replayed (dl_id d)"
      "dl_id d \<notin> set replayed \<longrightarrow> posts (dl_id d) fx + 1 = spent d"
    using assms(3) by (auto simp: ledger_and_tally_def ledger_ok_def tally_ok_def)
  from row have status: "dl_status d \<in> {''pending'', ''failed'', ''delivered'', ''dead''}"
    and att: "dl_attempt d \<le> attempt_limit cfg"
    and alive: "dl_status d \<noteq> ''dead'' \<longrightarrow> dl_attempt d < attempt_limit cfg"
    by (simp_all add: row_ok_def)
  have "spent d \<le> attempt_limit cfg" using att alive by (auto simp: spent_def)
  then have "posts (dl_id d) fx < attempt_limit cfg * (count_list replayed (dl_id d) + 1)" using tal(1) by simp
  moreover have "posts (dl_id d) fx = attempt_limit cfg - 1"
    if "dl_id d \<notin> set replayed" "dl_attempt d = attempt_limit cfg"
    using tal(2) that alive by (auto simp: spent_def)
  ultimately show ?thesis using status att alive unfolding attempt_limit_def by blast
qed

section \<open>The worker settles every delivery\<close>

text \<open>
  What the open rows may still cost. Every handled row lowers it, so as many ticks as the budget
  settle everything, if each tick comes late enough: no earlier than the tick before, and
  \<open>AV_WEBHOOK_RETRY_MAX_SECS\<close> after the attempts of the tick before ended.
\<close>

definition cost :: "hook_config \<Rightarrow> delivery \<Rightarrow> nat" where
  "cost cfg d = (if open_row d then attempt_limit cfg - dl_attempt d else 0)"

definition budget :: "hook_config \<Rightarrow> 'a effects_scheme \<Rightarrow> nat" where
  "budget cfg fx = sum_list (map (cost cfg) (fx_deliveries fx))"

record tick =
  tk_post :: endpoint
  tk_clock :: "nat \<Rightarrow> datetime"
  tk_now :: datetime

definition run_tick ::
  "hook_config \<Rightarrow> (string \<Rightarrow> string \<Rightarrow> string) \<Rightarrow> tick \<Rightarrow> 'a effects_scheme \<Rightarrow> 'a effects_scheme" where
  "run_tick cfg hmac t fx =
     fst (process_due_webhook_deliveries cfg hmac (tk_post t) (tk_clock t) {} (tk_now t) fx)"

definition all_due :: "datetime \<Rightarrow> 'a effects_scheme \<Rightarrow> bool" where
  "all_due now fx \<longleftrightarrow> (\<forall>d \<in> set (fx_deliveries fx). open_row d \<longrightarrow>
     (case dl_next_retry d of None \<Rightarrow> True | Some t \<Rightarrow> t \<le> now))"

fun spaced :: "hook_config \<Rightarrow> tick list \<Rightarrow> bool" where
  "spaced cfg (t # t' # ts) \<longleftrightarrow> tk_now t \<le> tk_now t'
     \<and> (\<forall>i. tk_clock t i + int (hc_retry_max cfg) * SECOND \<le> tk_now t') \<and> spaced cfg (t' # ts)"
| "spaced cfg _ \<longleftrightarrow> True"

lemma sum_upd_row:
  fixes w :: "delivery \<Rightarrow> nat"
  assumes "distinct (map dl_id rows)" and "d \<in> set rows" and "dl_id d' = dl_id d"
  shows "sum_list (map w (upd_row dl_id (dl_id d) (\<lambda>_. d') rows)) + w d = sum_list (map w rows) + w d'"
  using assms(1,2)
proof (induction rows)
  case (Cons r rows)
  show ?case
  proof (cases "r = d")
    case True
    with Cons.prems have "\<forall>e \<in> set rows. dl_id e \<noteq> dl_id d" by (force simp: image_iff)
    then have "upd_row dl_id (dl_id d) (\<lambda>_. d') rows = rows" by (simp add: upd_row_def map_idI)
    with True show ?thesis by (simp add: upd_row_def)
  next
    case False
    with Cons.prems have "d \<in> set rows" "dl_id r \<noteq> dl_id d" by auto
    with Cons show ?thesis by (simp add: upd_row_def)
  qed
qed simp

lemma row_step_cost:
  assumes "row_step cfg d d' posted" and "open_row d" and "row_ok cfg d"
  shows "cost cfg d' < cost cfg d"
proof -
  from assms(2,3) have "dl_attempt d < attempt_limit cfg" by (auto simp: row_ok_def open_row_def)
  with assms show ?thesis by (auto simp: row_step_def cost_def open_row_def spent_def split: if_splits)
qed

lemma row_changed_budget:
  assumes inv: "ledger_ok cfg fx" and d: "d \<in> set (fx_deliveries fx)" and opn: "open_row d"
    and ch: "row_changed cfg d fx fx'"
  shows "budget cfg fx' < budget cfg fx"
proof -
  from ch obtain d' and xs :: "sent list" where step: "row_step cfg d d' (xs \<noteq> [])"
    and del: "fx_deliveries fx' = upd_row dl_id (dl_id d) (\<lambda>_. d') (fx_deliveries fx)"
    unfolding row_changed_def by blast
  from step have ids: "dl_id d' = dl_id d" by (simp add: row_step_def same_event_def)
  have "cost cfg d' < cost cfg d"
    by (rule row_step_cost [OF step opn]) (use inv d in \<open>simp add: ledger_ok_def\<close>)
  with sum_upd_row [of "fx_deliveries fx" d d' "cost cfg", OF _ d ids] inv show ?thesis
    by (simp add: budget_def del ledger_ok_def)
qed

lemma process_rows_budget:
  assumes "ledger_ok cfg fx" and "batch_ok ds fx" and "ds \<noteq> []"
  shows "budget cfg (fst (process_rows cfg hmac post clock ds (fx, n))) < budget cfg fx"
proof -
  from assms(3) obtain d ds' where ds: "ds = d # ds'" by (cases ds) auto
  from assms(2) have d: "d \<in> set (fx_deliveries fx)" and opn: "open_row d" by (auto simp: batch_ok_def ds)
  with assms(1) have ok: "row_ok cfg d" by (simp add: ledger_ok_def)
  have rest: "budget cfg (fst (process_rows cfg hmac post clock ds' (fx', m))) < budget cfg fx"
    if ch: "row_changed cfg d fx fx'" for fx' m
  proof -
    have "budget cfg fx' < budget cfg fx" by (rule row_changed_budget [OF assms(1) d opn ch])
    moreover have "budget cfg (fst (process_rows cfg hmac post clock ds' (fx', m))) \<le> budget cfg fx'"
      by (rule conjunct2 [OF process_rows_induct [where P = "\<lambda>s. budget cfg s \<le> budget cfg fx'"]])
        (use row_changed_ok [OF assms(1) d ch] batch_ok_tail [OF assms(1) assms(2)[unfolded ds] ch]
          in \<open>auto dest: row_changed_budget\<close>)
    ultimately show ?thesis by simp
  qed
  show ?thesis
    using rest [OF bury_row_changed [OF ok]] rest [OF deliver_one_row_changed [OF ok opn refl]]
    by (simp add: ds split: option.split)
qed

lemma run_tick_budget:
  assumes "ledger_ok cfg fx" and "all_due (tk_now t) fx"
  shows "budget cfg (run_tick cfg hmac t fx) < budget cfg fx
    \<or> budget cfg fx = 0 \<and> run_tick cfg hmac t fx = fx"
proof (cases "claim_batch (tk_now t) {} (fx_deliveries fx) = []")
  case True
  then have "filter (is_due (tk_now t)) (fx_deliveries fx) = []" by (simp add: claim_batch_def)
  with assms(2) have "\<forall>d \<in> set (fx_deliveries fx). \<not> open_row d"
    by (auto simp: filter_empty_conv is_due_def all_due_def open_row_def)
  then have "budget cfg fx = 0" by (auto simp: budget_def cost_def)
  with True show ?thesis by (simp add: run_tick_def process_due_webhook_deliveries_def)
next
  case False
  then show ?thesis
    using process_rows_budget [OF assms(1) claim_batch_ok [OF assms(1)] False]
    by (simp add: run_tick_def process_due_webhook_deliveries_def)
qed

lemma settle_next_retry:
  assumes "open_row (snd (settle cfg now r hook d))" and "open_row d"
  shows "\<exists>t. dl_next_retry (snd (settle cfg now r hook d)) = Some t \<and> t \<le> now + int (hc_retry_max cfg) * SECOND"
  using assms
  by (auto simp: settle_def delivery_failed_def delivery_ok_def Let_def open_row_def backoff_def SECOND_def
      split: sum.splits if_splits)

lemma handled_due:
  assumes inv: "ledger_ok cfg fx" and d: "d \<in> set (fx_deliveries fx)" and opn: "open_row d"
    and h: "handled cfg hmac post clock d fx fx'"
    and late: "clock (dl_id d) + int (hc_retry_max cfg) * SECOND \<le> now" and due: "all_due now fx"
  shows "all_due now fx'"
proof -
  from inv have dist: "distinct (map dl_id (fx_deliveries fx))" by (simp add: ledger_ok_def)
  from h consider r where "fx' = bury (clock (dl_id d)) r d fx"
    | hook where "fx' = deliver_one cfg hmac post (clock (dl_id d)) hook d (redelivery_event d) fx"
    unfolding handled_def by blast
  then show ?thesis
  proof cases
    case 1
    with due show ?thesis
      using set_upd_row_at [OF dist d, of "d\<lparr>dl_status := ''dead'', dl_error := Some r, dl_updated := clock (dl_id d)\<rparr>"]
      by (auto simp: bury_def all_due_def open_row_def)
  next
    case 2
    let ?r = "post (wh_url hook) (event_body (redelivery_event d)) (post_headers hmac hook (redelivery_event d))"
    let ?d = "snd (settle cfg (clock (dl_id d)) ?r hook d)"
    have "set (fx_deliveries fx') = insert (?d\<lparr>dl_updated := clock (dl_id d)\<rparr>) (set (fx_deliveries fx) - {d})"
      unfolding 2 deliver_one_frame by (rule set_upd_row_at [OF dist d]) simp
    moreover have "case dl_next_retry ?d of None \<Rightarrow> True | Some t \<Rightarrow> t \<le> now" if "open_row ?d"
      using settle_next_retry [OF that opn] late by fastforce
    ultimately show ?thesis using due by (auto simp: all_due_def open_row_def)
  qed
qed

lemma run_tick_due:
  assumes inv: "ledger_ok cfg fx" and "all_due (tk_now t) fx" and "tk_now t \<le> now"
    and "\<forall>i. tk_clock t i + int (hc_retry_max cfg) * SECOND \<le> now"
  shows "all_due now (run_tick cfg hmac t fx)"
proof -
  from assms(2,3) have "all_due now fx" by (force simp: all_due_def split: option.splits)
  then show ?thesis
    unfolding run_tick_def process_due_webhook_deliveries_def
    by (rule conjunct2 [OF process_rows_induct [where P = "all_due now", OF inv claim_batch_ok [OF inv]]])
      (use assms(4) in \<open>blast intro: handled_due\<close>)
qed

lemma run_tick_ok: "ledger_ok cfg fx \<Longrightarrow> ledger_ok cfg (run_tick cfg hmac t fx)"
  unfolding run_tick_def by (rule tick_ok)

lemma ticks_settle:
  "ledger_ok cfg fx \<Longrightarrow> spaced cfg ts \<Longrightarrow> (ts \<noteq> [] \<longrightarrow> all_due (tk_now (hd ts)) fx) \<Longrightarrow> budget cfg fx \<le> length ts
     \<Longrightarrow> budget cfg (fold (run_tick cfg hmac) ts fx) = 0"
proof (induction ts arbitrary: fx)
  case (Cons t ts)
  then have ok: "ledger_ok cfg (run_tick cfg hmac t fx)" by (simp add: run_tick_ok)
  have sp: "spaced cfg ts" using Cons.prems(2) by (cases ts) auto
  have due: "ts \<noteq> [] \<longrightarrow> all_due (tk_now (hd ts)) (run_tick cfg hmac t fx)"
    using Cons.prems by (cases ts) (auto intro!: run_tick_due)
  have "budget cfg (run_tick cfg hmac t fx) \<le> length ts"
    using run_tick_budget [of cfg fx t hmac] Cons.prems by auto
  with Cons.IH [OF ok sp due] show ?case by simp
qed simp

text \<open>
  C7. The retry worker settles every delivery, whatever the endpoints answer: from any reachable
  ledger, after as many worker ticks as the open rows have attempts left (each tick late enough for
  the back-off of the one before, and nothing else happening), every delivery row is delivered or
  dead.
\<close>

theorem workers_settle_every_delivery:
  assumes "fresh_ledger fx0" and "(ledger_step cfg hmac)\<^sup>*\<^sup>* fx0 fx"
    and "spaced cfg ts" and "ts \<noteq> [] \<longrightarrow> all_due (tk_now (hd ts)) fx" and "budget cfg fx \<le> length ts"
  shows "\<forall>d \<in> set (fx_deliveries (fold (run_tick cfg hmac) ts fx)). dl_status d \<in> {''delivered'', ''dead''}"
proof
  fix d assume d: "d \<in> set (fx_deliveries (fold (run_tick cfg hmac) ts fx))"
  have inv: "ledger_ok cfg fx" by (rule reachable_ledger_ok [OF assms(1,2)])
  have inv': "ledger_ok cfg (fold (run_tick cfg hmac) ts fx)" for ts
    using inv by (induction ts arbitrary: fx) (simp_all add: run_tick_ok)
  have "row_ok cfg d" using inv' d by (simp add: ledger_ok_def)
  moreover have "cost cfg d = 0"
    using ticks_settle [OF inv assms(3-5)] d by (simp add: budget_def)
  ultimately show "dl_status d \<in> {''delivered'', ''dead''}" by (auto simp: row_ok_def cost_def open_row_def)
qed

text \<open>
  Replicas that tick at the same time claim disjoint batches, and no tick touches a row another one
  holds.
\<close>

lemma claims_disjoint:
  "set (claim_batch now1 locked ds) \<inter> set (claim_batch now2 (dl_id ` set (claim_batch now1 locked ds)) ds) = {}"
proof -
  have "dl_id d \<notin> L" if "d \<in> set (claim_batch now2 L ds)" for d L
    using in_set_takeD [OF that[unfolded claim_batch_def]] by simp
  then show ?thesis by blast
qed

text \<open>
  A webhook with a delivery row cannot be deleted on a database that enforces the foreign key, so
  there the dead-lettering of orphans is never reached.
\<close>

lemma used_webhook_cannot_be_deleted:
  assumes "find_row wh_id w (fx_hooks fx) \<noteq> None" and "d \<in> set (fx_deliveries fx)" and "dl_webhook d = w"
  shows "delete_webhook True cl w fx = (Fail 500 (JStr ''IntegrityError''), fx)"
  using assms by (auto simp: delete_webhook_def list_ex_iff)

section \<open>Concrete runs\<close>

definition demo_cfg :: hook_config where
  "demo_cfg = \<lparr>hc_max_attempts = 3, hc_retry_interval = 30, hc_retry_max = 3600, hc_disable_after = 0\<rparr>"

definition demo_caller :: caller where
  "demo_caller = \<lparr>cl_username = Some ''ada'', cl_scopes = None, cl_tenant = None, cl_cas_tenant = None,
     cl_path = ''/api/webhooks'', cl_method = ''POST'', cl_now = 0, cl_uuid = ''hook''\<rparr>"

definition empty_effects :: effects where
  "empty_effects = \<lparr>fx_audit_on = True,
     fx_audit = \<lparr>ad_rows = [], ad_next_id = 1, ad_next_seq = 0, ad_pending = []\<rparr>,
     fx_events = [], fx_next_event = 1, fx_tasks = [], fx_hooks = [], fx_deliveries = [],
     fx_next_delivery = 1, fx_sent = []\<rparr>"

definition down :: endpoint where
  "down url body headers = Inr ''connection refused''"

definition demo_hmac :: "string \<Rightarrow> string \<Rightarrow> string" where
  "demo_hmac secret body = secret"

definition demo_tick :: "int \<Rightarrow> tick" where
  "demo_tick now = \<lparr>tk_post = down, tk_clock = (\<lambda>_. now), tk_now = now\<rparr>"

definition demo_start :: effects where
  "demo_start = run_task demo_cfg demo_hmac down 0
     (emit_event 0 (JStr ''p'') ''commit'' [(''hash'', JStr ''c1'')]
       (snd (create_webhook demo_caller ''http://ci'' ''s3cret'' None None empty_effects)))"

definition demo_end :: effects where
  "demo_end = run_tick demo_cfg demo_hmac (demo_tick 4000000000) demo_start"

lemma demo_steps:
  "(hook_step demo_cfg demo_hmac)\<^sup>*\<^sup>* empty_effects demo_start"
  "(hook_step demo_cfg demo_hmac)\<^sup>*\<^sup>* empty_effects demo_end"
proof -
  have "(hook_step demo_cfg demo_hmac)\<^sup>*\<^sup>* empty_effects
      (snd (create_webhook demo_caller ''http://ci'' ''s3cret'' None None empty_effects))"
    by (rule r_into_rtranclp) (rule hook_step.create)
  then have "(hook_step demo_cfg demo_hmac)\<^sup>*\<^sup>* empty_effects
      (emit_event 0 (JStr ''p'') ''commit'' [(''hash'', JStr ''c1'')]
       (snd (create_webhook demo_caller ''http://ci'' ''s3cret'' None None empty_effects)))"
    by (rule rtranclp.rtrancl_into_rtrancl) (rule hook_step.emit)
  then show start: "(hook_step demo_cfg demo_hmac)\<^sup>*\<^sup>* empty_effects demo_start"
    unfolding demo_start_def by (rule rtranclp.rtrancl_into_rtrancl) (rule hook_step.task)
  then show "(hook_step demo_cfg demo_hmac)\<^sup>*\<^sup>* empty_effects demo_end"
    unfolding demo_end_def run_tick_def by (rule rtranclp.rtrancl_into_rtrancl) (rule hook_step.tick)
qed

lemma demo_fresh: "fresh_ledger empty_effects" "2 \<le> hc_max_attempts demo_cfg"
  by (simp_all add: fresh_ledger_def empty_effects_def demo_cfg_def)

lemma hook_steps_ledger: "(hook_step cfg hmac)\<^sup>*\<^sup>* fx fx' \<Longrightarrow> (ledger_step cfg hmac)\<^sup>*\<^sup>* fx fx'"
  by (rule rtranclp_mono [THEN predicate2D, rotated]) (auto intro: ledger_step.hook)

lemma demo_values:
  "length (fx_sent demo_start) = 1" "length (fx_sent demo_end) = 2"
  "map sn_delivery (fx_sent demo_end) = [1, 1]"
  "map dl_status (fx_deliveries demo_end) = [''dead'']"
  "map dl_attempt (fx_deliveries demo_end) = [3]"
  "map dl_next_retry (fx_deliveries demo_start) = [Some 60000000]"
  "budget demo_cfg demo_start = 1"
  by code_simp+

lemma retries_send_identical_body_witness:
  "length (fx_sent demo_end) = 2 \<and> sn_body (fx_sent demo_end ! 0) = sn_body (fx_sent demo_end ! 1)"
proof -
  have "fx_sent demo_end ! 0 \<in> set (fx_sent demo_end)" "fx_sent demo_end ! 1 \<in> set (fx_sent demo_end)"
    by (rule nth_mem; simp add: demo_values(2))+
  moreover have "sn_delivery (fx_sent demo_end ! 0) = sn_delivery (fx_sent demo_end ! 1)"
    using demo_values(2,3) by (metis One_nat_def lessI nth_Cons_0 nth_Cons_Suc nth_map numeral_2_eq_2 zero_less_Suc)
  ultimately show ?thesis
    using retries_send_identical_body [OF demo_fresh(1) hook_steps_ledger [OF demo_steps(2)]]
    by (simp add: demo_values(2))
qed

lemma attempt_budget_witness:
  "\<exists>d \<in> set (fx_deliveries demo_end). dl_status d = ''dead'' \<and> dl_attempt d = 3 \<and> posts (dl_id d) demo_end = 2"
proof -
  obtain d where rows: "fx_deliveries demo_end = [d]" and st: "dl_status d = ''dead''" "dl_attempt d = 3"
    using demo_values(4,5) by (cases "fx_deliveries demo_end") auto
  then have "posts (dl_id d) demo_end = hc_max_attempts demo_cfg - 1"
    using attempt_budget [OF demo_fresh(1) hook_steps_run [OF demo_steps(2)], of d] by (simp add: demo_cfg_def)
  with rows st show ?thesis by (simp add: demo_cfg_def)
qed

lemma workers_settle_every_delivery_witness:
  "list_all (\<lambda>d. dl_status d \<in> {''delivered'', ''dead''})
     (fx_deliveries (fold (run_tick demo_cfg demo_hmac) [demo_tick 4000000000] demo_start))"
  unfolding list_all_iff
proof (rule workers_settle_every_delivery [OF demo_fresh(1) hook_steps_ledger [OF demo_steps(1)]])
  show "[demo_tick 4000000000] \<noteq> [] \<longrightarrow> all_due (tk_now (hd [demo_tick 4000000000])) demo_start"
    using demo_values(6) by (cases "fx_deliveries demo_start") (auto simp: all_due_def demo_tick_def)
  show "budget demo_cfg demo_start \<le> length [demo_tick 4000000000]" by (simp add: demo_values(7))
qed simp

end
