(* ===== verification/Refs.thy ===== *)
theory Refs
  imports Webhooks "HOL-Library.Sublist"
begin

text \<open>
  Branch references: the name check, the legacy files below \<open>refs_dir\<close> (\<open>storage.py\<close>) and the
  handlers \<open>update_ref\<close> (compare-and-swap), \<open>get_ref\<close>, \<open>list_refs\<close> and \<open>sync_refs\<close>.
\<close>

section \<open>Names and paths\<close>

definition ref_char :: "char \<Rightarrow> bool" where
  "ref_char c \<longleftrightarrow> (let n = of_char c :: nat in
     (65 \<le> n \<and> n \<le> 90) \<or> (97 \<le> n \<and> n \<le> 122) \<or> (48 \<le> n \<and> n \<le> 57)
     \<or> c \<in> {CHR ''.'', CHR ''_'', CHR ''/'', CHR ''-''})"

text \<open>\<open>_REF_NAME_RE = ^[A-Za-z0-9._/-]+$\<close>; \<open>$\<close> also matches before one final newline.\<close>

definition ref_name_re :: "string \<Rightarrow> bool" where
  "ref_name_re s \<longleftrightarrow> (s \<noteq> [] \<and> list_all ref_char s)
     \<or> (length s \<ge> 2 \<and> last s = CHR 0x0A \<and> list_all ref_char (butlast s))"

definition validate_ref_name :: "string \<Rightarrow> reply option" where
  "validate_ref_name s =
     (if s = [] \<or> \<not> ref_name_re s \<or> startswith s ''/'' \<or> CHR 0x5C \<in> set s
         \<or> ''..'' \<in> set (split_on CHR ''/'' s)
      then Some (Fail 400 (JStr ''Invalid ref name'')) else None)"

text \<open>
  \<open>(refs_dir / name).resolve()\<close> on a directory tree without symbolic links: an absolute path is
  the list of its components; \<open>.\<close> and empty components vanish, \<open>..\<close> goes up and stays at the root.
\<close>

fun resolve_components :: "string list \<Rightarrow> string list \<Rightarrow> string list" where
  "resolve_components acc [] = acc"
| "resolve_components acc (c # cs) =
     (if c = [] \<or> c = ''.'' then resolve_components acc cs
      else if c = ''..'' then resolve_components (butlast acc) cs
      else resolve_components (acc @ [c]) cs)"

text \<open>\<open>None\<close> is the \<open>ValueError\<close> of a name that leaves the refs directory.\<close>

definition safe_ref_path :: "string list \<Rightarrow> string \<Rightarrow> string list option" where
  "safe_ref_path refs_dir name =
     (let parts = split_on CHR ''/'' name;
          p = resolve_components (if startswith name ''/'' then [] else refs_dir) parts
      in if prefix refs_dir p then Some p else None)"

section \<open>Legacy files\<close>

text \<open>
  The files below \<open>refs_dir\<close> by absolute path, in the order \<open>os.walk\<close> yields them. The
  directories are the proper prefixes of file paths. \<open>Inl ()\<close> is an exception (\<open>ValueError\<close>,
  \<open>IsADirectoryError\<close>, \<open>NotADirectoryError\<close>), a 500 of the handlers.
\<close>

type_synonym ref_files = "(string list, string) dict"

definition is_dir :: "string list \<Rightarrow> ref_files \<Rightarrow> string list \<Rightarrow> bool" where
  "is_dir refs_dir files p \<longleftrightarrow> prefix p refs_dir \<or> list_ex (\<lambda>(q, _). strict_prefix p q) files"

definition storage_get_ref :: "string list \<Rightarrow> ref_files \<Rightarrow> string \<Rightarrow> unit + string option" where
  "storage_get_ref refs_dir files name =
     (case safe_ref_path refs_dir name of
        None \<Rightarrow> Inl ()
      | Some p \<Rightarrow>
          if is_dir refs_dir files p then Inl ()
          else Inr (map_option strip (dget files p)))"

text \<open>
  \<open>storage.update_ref\<close> writes \<open><name>.tmp\<close> beside the file and moves it over the file with
  \<open>shutil.move\<close>, which moves into a directory when the target is one and refuses when the file is
  already in there. The flag says whether no exception was raised; a refused move leaves the temporary
  file.
\<close>

definition temp_ref :: "string list \<Rightarrow> string list" where
  "temp_ref p = butlast p @ [last p @ ''.tmp'']"

definition shutil_move :: "string list \<Rightarrow> ref_files \<Rightarrow> string list \<Rightarrow> string list \<Rightarrow> string \<Rightarrow> bool \<times> ref_files" where
  "shutil_move refs_dir files src dst data =
     (if is_dir refs_dir files dst
      then (let dst' = dst @ [last src] in
            if has_key files dst' \<or> is_dir refs_dir files dst' then (False, files)
            else (True, dset (ddel files src) dst' data))
      else (True, dset (ddel files src) dst data))"

definition storage_update_ref ::
  "string list \<Rightarrow> ref_files \<Rightarrow> string \<Rightarrow> string \<Rightarrow> bool \<times> ref_files" where
  "storage_update_ref refs_dir files name commit_hash =
     (case safe_ref_path refs_dir name of
        None \<Rightarrow> (False, files)
      | Some p \<Rightarrow>
          (let tmp = temp_ref p in
           if list_ex (\<lambda>(q, _). strict_prefix q p) files \<or> is_dir refs_dir files tmp then (False, files)
           else shutil_move refs_dir (dset files tmp commit_hash) tmp p commit_hash))"

fun join_path :: "string list \<Rightarrow> string" where
  "join_path [] = []"
| "join_path [c] = c"
| "join_path (c # cs) = c @ ''/'' @ join_path cs"

text \<open>\<open>rel_path.lstrip('./')\<close> strips every leading dot and slash.\<close>

definition storage_list_refs :: "string list \<Rightarrow> ref_files \<Rightarrow> (string, string) dict" where
  "storage_list_refs refs_dir files =
     foldl (\<lambda>d (p, content).
       dset d (dropWhile (\<lambda>c. c = CHR ''.'' \<or> c = CHR ''/'') (join_path (drop (length refs_dir) p)))
         (strip content)) [] files"

section \<open>Handlers\<close>

record refs_db = effects +
  rf_rows :: "(string, string) dict"
  rf_dir :: "string list"
  rf_files :: ref_files

definition project_of_ref :: "string \<Rightarrow> json" where
  "project_of_ref name = (case partition_on CHR ''/'' name of (p, True, _) \<Rightarrow> JStr p | _ \<Rightarrow> JNull)"

text \<open>
  One transaction. \<open>SELECT ... FOR UPDATE\<close> makes the transactions on one row run one after the
  other, so a history of updates is a sequence of these steps.
\<close>

definition update_ref ::
  "caller \<Rightarrow> string \<Rightarrow> string \<Rightarrow> string option \<Rightarrow> refs_db \<Rightarrow> reply \<times> refs_db" where
  "update_ref cl name commit_hash expected s =
     (case validate_ref_name name of Some r \<Rightarrow> (r, s)
      | None \<Rightarrow>
        (let project = project_of_ref name; current = dget (rf_rows s) name
         in if expected \<noteq> None \<and> current \<noteq> expected
            then (Fail 409 (JObj [(''error'', JStr ''ref_race''), (''ref'', JStr name),
                    (''current'', jopt current), (''expected'', jopt expected)]),
                  note_audit (cl_username cl) ''ref.update'' project
                    [(''ref'', JStr name), (''commit_hash'', JStr commit_hash),
                     (''expected_hash'', jopt expected), (''current_hash'', jopt current)] 409 s)
            else (Ok 200 (JObj [(''status'', JStr ''updated'')]),
                  note_audit (cl_username cl) ''ref.update'' project
                    [(''ref'', JStr name), (''commit_hash'', JStr commit_hash)] 200
                    (emit_event (cl_now cl) project ''ref''
                      [(''ref'', JStr name), (''commit_hash'', JStr commit_hash)]
                      (s\<lparr>rf_rows := dset (rf_rows s) name commit_hash\<rparr>)))))"

definition get_ref :: "string \<Rightarrow> refs_db \<Rightarrow> reply" where
  "get_ref name s =
     (case validate_ref_name name of Some r \<Rightarrow> r
      | None \<Rightarrow>
        (case dget (rf_rows s) name of
           Some h \<Rightarrow> Ok 200 (JObj [(''ref'', JStr name), (''commit_hash'', JStr h)])
         | None \<Rightarrow>
             (case storage_get_ref (rf_dir s) (rf_files s) name of
                Inl () \<Rightarrow> Fail 500 (JStr ''Internal Server Error'')
              | Inr None \<Rightarrow> Fail 404 (JStr ''Ref not found'')
              | Inr (Some h) \<Rightarrow>
                  if h = [] then Fail 404 (JStr ''Ref not found'')
                  else Ok 200 (JObj [(''ref'', JStr name), (''commit_hash'', JStr h)]))))"

text \<open>SQL \<open>LIKE\<close>: a percent sign matches any text, an underscore any character.\<close>

fun sql_like :: "string \<Rightarrow> string \<Rightarrow> bool" where
  "sql_like [] s \<longleftrightarrow> s = []"
| "sql_like (p # ps) s \<longleftrightarrow>
     (if p = CHR ''%'' then list_ex (\<lambda>n. sql_like ps (drop n s)) [0..<Suc (length s)]
      else case s of [] \<Rightarrow> False | c # cs \<Rightarrow> (p = CHR ''_'' \<or> p = c) \<and> sql_like ps cs)"

definition refs_json :: "(string, string) dict \<Rightarrow> json" where
  "refs_json d = JObj (map (\<lambda>(n, h). (n, JStr h)) d)"

definition list_refs :: "string option \<Rightarrow> nat \<Rightarrow> nat \<Rightarrow> refs_db \<Rightarrow> reply" where
  "list_refs project lim off s =
     (let given = (case project of None \<Rightarrow> False | Some p \<Rightarrow> p \<noteq> []);
          rows = (if given then filter (\<lambda>(n, _). sql_like (the project @ ''/%'') n) (rf_rows s) else rf_rows s);
          refs = page lim off (sort_key fst rows)
      in if refs \<noteq> [] then Ok 200 (refs_json refs)
         else if given \<or> off \<noteq> 0 then Ok 200 (JObj [])
         else Ok 200 (refs_json (page lim off (sort_key fst (storage_list_refs (rf_dir s) (rf_files s))))))"

definition sync_refs :: "datetime \<Rightarrow> nat \<Rightarrow> nat \<Rightarrow> refs_db \<Rightarrow> reply" where
  "sync_refs now lim off s =
     (let refs = page lim off (rf_rows s)
      in Ok 200 (JObj [(''timestamp'', JStr (isoformat now)), (''refs'', refs_json refs),
           (''next_offset'', if length refs = lim then JInt (int (off + lim)) else JNull)]))"

section \<open>Paths stay below the refs directory\<close>

lemma resolve_components_below:
  "''..'' \<notin> set cs \<Longrightarrow> prefix acc (resolve_components acc cs)"
  by (induction cs arbitrary: acc) (auto intro: append_prefixD)

lemma validated_name_safe:
  assumes "validate_ref_name name = None"
  shows "safe_ref_path refs_dir name \<noteq> None"
proof -
  from assms have "''..'' \<notin> set (split_on CHR ''/'' name)" "\<not> startswith name ''/''"
    by (auto simp: validate_ref_name_def split: if_splits)
  then show ?thesis using resolve_components_below by (simp add: safe_ref_path_def Let_def)
qed

section \<open>Compare-and-swap histories\<close>

record ref_request =
  rr_caller :: caller
  rr_name :: string
  rr_commit :: string
  rr_expected :: "string option"

fun run_refs :: "ref_request list \<Rightarrow> refs_db \<Rightarrow> reply list \<times> refs_db" where
  "run_refs [] s = ([], s)"
| "run_refs (r # rs) s =
     (case update_ref (rr_caller r) (rr_name r) (rr_commit r) (rr_expected r) s of (rep, s') \<Rightarrow>
        case run_refs rs s' of (reps, s'') \<Rightarrow> (rep # reps, s''))"

lemma fx_refs_frame [simp]:
  "rf_rows (note_audit u a p ds st s) = rf_rows s" "rf_rows (emit_event now q k pl s) = rf_rows s"
  by (simp_all add: note_audit_def emit_event_def Let_def)

lemma update_ref_other:
  "n \<noteq> name \<Longrightarrow> dget (rf_rows (snd (update_ref cl name c e s))) n = dget (rf_rows s) n"
  by (simp add: update_ref_def Let_def split: option.split)

lemma update_ref_cases:
  assumes "validate_ref_name name = None"
  shows "(e = None \<or> dget (rf_rows s) name = e) \<and> reply_status (fst (update_ref cl name c e s)) = 200
           \<and> dget (rf_rows (snd (update_ref cl name c e s))) name = Some c
       \<or> e \<noteq> None \<and> dget (rf_rows s) name \<noteq> e \<and> reply_status (fst (update_ref cl name c e s)) = 409
           \<and> rf_rows (snd (update_ref cl name c e s)) = rf_rows s"
  using assms by (auto simp: update_ref_def Let_def)

text \<open>How many requests on one name succeeded.\<close>

fun winners :: "string \<Rightarrow> ref_request list \<Rightarrow> reply list \<Rightarrow> ref_request list" where
  "winners n (r # rs) (a # as) =
     (if rr_name r = n \<and> reply_status a = 200 then r # winners n rs as else winners n rs as)"
| "winners n _ _ = []"

lemma no_winner_after:
  assumes "validate_ref_name n = None" and "dget (rf_rows s) n = Some v" and "v \<noteq> h"
    and "\<forall>r \<in> set rs. rr_name r = n \<longrightarrow> rr_expected r = Some h"
  shows "winners n rs (fst (run_refs rs s)) = [] \<and> dget (rf_rows (snd (run_refs rs s))) n = Some v"
  using assms(2-4)
proof (induction rs arbitrary: s)
  case (Cons r rs)
  let ?u = "update_ref (rr_caller r) (rr_name r) (rr_commit r) (rr_expected r) s"
  have "dget (rf_rows (snd ?u)) n = Some v \<and> (rr_name r = n \<longrightarrow> reply_status (fst ?u) \<noteq> 200)"
  proof (cases "rr_name r = n")
    case True
    with Cons.prems assms(1) update_ref_cases [of n "rr_expected r" s "rr_caller r" "rr_commit r"]
    show ?thesis by auto
  qed (simp add: Cons.prems update_ref_other)
  with Cons.IH [of "snd ?u"] Cons.prems show ?case by (auto simp: case_prod_unfold)
qed simp

text \<open>
  C14. No lost update: when any number of clients try to move a branch from the same expected commit
  to commits of their own, in any order and interleaved with updates of other branches, exactly
  one of them succeeds, the branch ends on that client's commit, and every other client is refused
  with 409.
\<close>

theorem cas_exactly_one_wins:
  assumes "validate_ref_name n = None" and "dget (rf_rows s) n = Some h"
    and "\<forall>r \<in> set rs. rr_name r = n \<longrightarrow> rr_expected r = Some h \<and> rr_commit r \<noteq> h"
    and "\<exists>r \<in> set rs. rr_name r = n"
  shows "\<exists>w. winners n rs (fst (run_refs rs s)) = [w]
       \<and> dget (rf_rows (snd (run_refs rs s))) n = Some (rr_commit w)"
  using assms(2-4)
proof (induction rs arbitrary: s)
  case (Cons r rs)
  let ?u = "update_ref (rr_caller r) (rr_name r) (rr_commit r) (rr_expected r) s"
  show ?case
  proof (cases "rr_name r = n")
    case True
    with Cons.prems assms(1) update_ref_cases [of n "rr_expected r" s "rr_caller r" "rr_commit r"]
    have won: "reply_status (fst ?u) = 200" "dget (rf_rows (snd ?u)) n = Some (rr_commit r)" by auto
    have "winners n rs (fst (run_refs rs (snd ?u))) = []
        \<and> dget (rf_rows (snd (run_refs rs (snd ?u)))) n = Some (rr_commit r)"
      by (rule no_winner_after [OF assms(1) won(2), where h = h]) (use Cons.prems True in auto)
    with True won show ?thesis by (auto simp: case_prod_unfold)
  next
    case False
    have "dget (rf_rows (snd ?u)) n = Some h" using False Cons.prems by (simp add: update_ref_other)
    with Cons.IH [of "snd ?u"] Cons.prems False show ?thesis by (auto simp: case_prod_unfold)
  qed
qed simp

lemma is_dir_iff: "is_dir refs_dir files p \<longleftrightarrow> prefix p refs_dir \<or> (\<exists>q \<in> fst ` set files. strict_prefix p q)"
  by (force simp: is_dir_def list_ex_iff)

lemma temp_ref_not_below: "p \<noteq> [] \<Longrightarrow> \<not> strict_prefix (temp_ref p) p \<and> \<not> strict_prefix p (temp_ref p) \<and> temp_ref p \<noteq> p"
  by (cases p rule: rev_exhaust)
     (auto simp: temp_ref_def strict_prefix_def dest!: prefix_length_le simp: prefix_def)

lemma temp_ref_below:
  "prefix refs_dir p \<Longrightarrow> p \<noteq> refs_dir \<Longrightarrow> prefix refs_dir (temp_ref p)"
  by (cases p rule: rev_exhaust) (auto simp: temp_ref_def)

lemma shutil_move_frame:
  "q \<noteq> src \<Longrightarrow> q \<noteq> dst \<Longrightarrow> q \<noteq> dst @ [last src] \<Longrightarrow>
     dget (snd (shutil_move refs_dir files src dst c)) q = dget files q"
  by (simp add: shutil_move_def Let_def)

lemma update_ref_frame:
  assumes "safe_ref_path refs_dir name = Some p"
    and "q \<noteq> p" "q \<noteq> temp_ref p" "q \<noteq> p @ [last (temp_ref p)]"
  shows "dget (snd (storage_update_ref refs_dir files name c)) q = dget files q"
  using assms by (simp add: storage_update_ref_def Let_def shutil_move_frame)

text \<open>
  C28. A name that passes the check, and is more than dots and slashes that lead back to the refs
  directory itself, addresses one path below that directory. Writing it through the storage layer
  changes no file outside the directory, whether or not the write raises, and inside it only the file
  itself, the temporary file \<open><name>.tmp\<close> beside it and, when the path is a directory, the file of
  that name in it. After a write that succeeds on a path that is no directory the file reads back as the
  hash. The temporary file may be the file of another reference (\<open>update_clobbers_tmp_ref\<close>), and the
  name \<open>.\<close> is not covered (\<open>dot_name_writes_outside\<close>). The handlers of the server do not call
  this write.
\<close>

theorem ref_paths_confined:
  assumes "validate_ref_name name = None" and "safe_ref_path refs_dir name \<noteq> Some refs_dir"
    and "storage_update_ref refs_dir files name c = (ok, files')"
  shows "\<exists>p. safe_ref_path refs_dir name = Some p \<and> prefix refs_dir p
    \<and> (\<forall>q. \<not> prefix refs_dir q \<longrightarrow> dget files' q = dget files q)
    \<and> (\<forall>q. q \<noteq> p \<and> q \<noteq> temp_ref p \<and> q \<noteq> p @ [last (temp_ref p)] \<longrightarrow> dget files' q = dget files q)
    \<and> (ok \<and> \<not> is_dir refs_dir files p
         \<longrightarrow> storage_get_ref refs_dir files' name = Inr (Some (strip c)))"
proof -
  obtain p where p: "safe_ref_path refs_dir name = Some p" using validated_name_safe [OF assms(1)] by blast
  then have below: "prefix refs_dir p" and ne: "p \<noteq> refs_dir"
    using assms(2) by (auto simp: safe_ref_path_def Let_def split: if_splits)
  then have "p \<noteq> []" by auto
  have frame: "dget files' q = dget files q" if "q \<noteq> p" "q \<noteq> temp_ref p" "q \<noteq> p @ [last (temp_ref p)]" for q
    using update_ref_frame [OF p that, of files c] assms(3) by simp
  have out: "dget files' q = dget files q" if "\<not> prefix refs_dir q" for q
    by (rule frame) (use that below temp_ref_below [OF below ne] in \<open>auto dest: prefix_order.trans\<close>)
  have "storage_get_ref refs_dir files' name = Inr (Some (strip c))"
    if "ok" "\<not> is_dir refs_dir files p"
  proof -
    have "\<not> is_dir refs_dir (dset files (temp_ref p) c) p"
      using that(2) temp_ref_not_below [OF \<open>p \<noteq> []\<close>] by (auto simp: is_dir_iff)
    then have files': "files' = dset (ddel (dset files (temp_ref p) c) (temp_ref p)) p c"
      using assms(3) that(1) by (auto simp: storage_update_ref_def p Let_def shutil_move_def split: if_splits)
    then have "\<not> is_dir refs_dir files' p"
      using that(2) by (auto simp: is_dir_iff)
    then show ?thesis using files' by (simp add: storage_get_ref_def p)
  qed
  then show ?thesis using p below out frame by blast
qed

text \<open>A write of \<open>main\<close> replaces and removes the file of the reference \<open>main.tmp\<close>.\<close>

lemma update_clobbers_tmp_ref:
  "validate_ref_name ''main.tmp'' = None"
  "storage_update_ref [''data'', ''refs''] [([''data'', ''refs'', ''main.tmp''], ''c1'')] ''main'' ''c2''
     = (True, [([''data'', ''refs'', ''main''], ''c2'')])"
  by code_simp+

text \<open>The name \<open>.\<close> passes the check. Its write replaces a file beside the refs directory; the second
  time it leaves one there.\<close>

lemma dot_name_writes_outside:
  "validate_ref_name ''.'' = None"
  "storage_update_ref [''data'', ''refs''] [([''data'', ''refs.tmp''], ''x'')] ''.'' ''c1''
     = (True, [([''data'', ''refs'', ''refs.tmp''], ''c1'')])"
  "storage_update_ref [''data'', ''refs''] [([''data'', ''refs'', ''refs.tmp''], ''c1'')] ''.'' ''c2''
     = (False, [([''data'', ''refs'', ''refs.tmp''], ''c1''), ([''data'', ''refs.tmp''], ''c2'')])"
  by code_simp+

section \<open>Concrete runs\<close>

definition demo_refs :: refs_db where
  "demo_refs = effects.extend empty_effects
     \<lparr>rf_rows = [(''p/main'', ''c0'')], rf_dir = [''data'', ''refs''], rf_files = []\<rparr>"

definition cas_request :: "string \<Rightarrow> string \<Rightarrow> string \<Rightarrow> ref_request" where
  "cas_request n c e = \<lparr>rr_caller = demo_caller, rr_name = n, rr_commit = c, rr_expected = Some e\<rparr>"

lemma demo_refs_valid: "validate_ref_name ''p/main'' = None"
  by code_simp

lemma cas_exactly_one_wins_witness:
  "\<exists>w. winners ''p/main'' [cas_request ''p/main'' ''c1'' ''c0'', cas_request ''p/dev'' ''c9'' ''x'',
        cas_request ''p/main'' ''c2'' ''c0'']
     (fst (run_refs [cas_request ''p/main'' ''c1'' ''c0'', cas_request ''p/dev'' ''c9'' ''x'',
        cas_request ''p/main'' ''c2'' ''c0''] demo_refs)) = [w]"
  using cas_exactly_one_wins [OF demo_refs_valid, of demo_refs "''c0''"
      "[cas_request ''p/main'' ''c1'' ''c0'', cas_request ''p/dev'' ''c9'' ''x'',
        cas_request ''p/main'' ''c2'' ''c0'']"]
  by (auto simp: cas_request_def demo_refs_def effects.extend_def)

lemma ref_paths_confined_witness:
  "\<exists>files'. storage_update_ref [''data'', ''refs''] [([''data'', ''key''], ''k'')] ''p/main'' ''c1'' = (True, files')
     \<and> storage_get_ref [''data'', ''refs''] files' ''p/main'' = Inr (Some ''c1'')
     \<and> dget files' [''data'', ''key''] = Some ''k''"
proof -
  let ?files' = "[([''data'', ''key''], ''k''), ([''data'', ''refs'', ''p'', ''main''], ''c1'')]"
  have run: "storage_update_ref [''data'', ''refs''] [([''data'', ''key''], ''k'')] ''p/main'' ''c1'' = (True, ?files')"
    and path: "safe_ref_path [''data'', ''refs''] ''p/main'' = Some [''data'', ''refs'', ''p'', ''main'']"
    and nodir: "\<not> is_dir [''data'', ''refs''] [([''data'', ''key''], ''k'')] [''data'', ''refs'', ''p'', ''main'']"
    and strip: "strip ''c1'' = ''c1''"
    by code_simp+
  have other: "safe_ref_path [''data'', ''refs''] ''p/main'' \<noteq> Some [''data'', ''refs'']" by (simp add: path)
  obtain p where p: "safe_ref_path [''data'', ''refs''] ''p/main'' = Some p"
    "\<forall>q. \<not> prefix [''data'', ''refs''] q \<longrightarrow> dget ?files' q = dget [([''data'', ''key''], ''k'')] q"
    "True \<and> \<not> is_dir [''data'', ''refs''] [([''data'', ''key''], ''k'')] p
       \<longrightarrow> storage_get_ref [''data'', ''refs''] ?files' ''p/main'' = Inr (Some (strip ''c1''))"
    using ref_paths_confined [OF demo_refs_valid other run] by blast
  have "dget ?files' [''data'', ''key''] = Some ''k''" using p(2) [rule_format, of "[''data'', ''key'']"] by simp
  then show ?thesis using run p(3) nodir path p(1) strip by auto
qed

text \<open>An underscore in a project id is a wildcard of the listing's filter.\<close>

lemma list_refs_other_project:
  "list_refs (Some ''a_b'') 10 0 (demo_refs\<lparr>rf_rows := [(''axb/main'', ''c1'')]\<rparr>) =
     Ok 200 (JObj [(''axb/main'', JStr ''c1'')])"
  by code_simp

text \<open>A name that ends in a newline passes the check.\<close>

lemma newline_name_accepted: "validate_ref_name (''main'' @ [CHR 0x0A]) = None"
  by code_simp

end
