(* ===== verification/SemDiff.thy ===== *)
theory SemDiff
  imports Json
begin

text \<open>
  Semantic summaries of two flat trees: the client's \<open>semdiff.diff_trees\<close> and its
  \<open>human_summary\<close>, and the server's independent re-implementation
  \<open>_summarize_tree_diff\<close>. A missing or null field of an entry is \<open>None\<close>; entries themselves are
  objects. A ratio \<open>round(x, 4)\<close> is kept as its number of ten-thousandths, rounded half to even on
  the exact quotient (Python rounds the nearest double of it).
\<close>

section \<open>Entries\<close>

record sem_layer =
  sl_name :: string
  sl_hash :: hash
  sl_size :: "int option"

record sem_chunk =
  sc_hash :: hash
  sc_size :: "int option"

text \<open>\<open>se_type\<close>: \<open>None\<close> when the key is missing, \<open>Some None\<close> when it is null.\<close>

record sem_entry =
  se_hash :: "hash option"
  se_type :: "string option option"
  se_size :: "int option"
  se_layers :: "sem_layer list"
  se_chunks :: "sem_chunk list"

type_synonym sem_tree = "(string, sem_entry) dict"

definition no_entry :: sem_entry where
  "no_entry = \<lparr>se_hash = None, se_type = None, se_size = None, se_layers = [], se_chunks = []\<rparr>"

definition entry_of :: "sem_tree \<Rightarrow> string \<Rightarrow> sem_entry" where
  "entry_of t p = (case dget t p of None \<Rightarrow> no_entry | Some e \<Rightarrow> e)"

definition or_zero :: "int option \<Rightarrow> int" where
  "or_zero s = (case s of None \<Rightarrow> 0 | Some i \<Rightarrow> i)"

definition layer_map :: "sem_entry \<Rightarrow> (string, hash) dict" where
  "layer_map e = foldl (\<lambda>d l. dset d (sl_name l) (sl_hash l)) [] (se_layers e)"

definition layer_sizes :: "sem_entry \<Rightarrow> (string, int) dict" where
  "layer_sizes e = foldl (\<lambda>d l. dset d (sl_name l) (or_zero (sl_size l))) [] (se_layers e)"

definition chunk_hashes :: "sem_entry \<Rightarrow> hash list" where
  "chunk_hashes e = remdups (map sc_hash (se_chunks e))"

definition chunk_sizes :: "sem_entry \<Rightarrow> (hash, int) dict" where
  "chunk_sizes e = foldl (\<lambda>d c. dset d (sc_hash c) (or_zero (sc_size c))) [] (se_chunks e)"

section \<open>Ratios\<close>

definition round4 :: "int \<Rightarrow> int \<Rightarrow> int" where
  "round4 a b =
     (let q = (10000 * a) div b; r = (10000 * a) mod b
      in if 2 * r < b then q else if b < 2 * r then q + 1 else if even q then q else q + 1)"

section \<open>Rows of the summary\<close>

record model_row =
  mo_path :: string
  mo_changed :: nat
  mo_total :: nat
  mo_pct :: int
  mo_moved :: "string list"
  mo_largest :: "(string \<times> int) list"
  mo_bytes_changed :: int
  mo_bytes_total :: int
  mo_pct_bytes :: int

definition moved_layers :: "sem_entry \<Rightarrow> sem_entry \<Rightarrow> string list" where
  "moved_layers parent e =
     map fst (filter (\<lambda>(n, h). dget (layer_map parent) n \<noteq> Some h) (layer_map e))"

definition model_row_of :: "string \<Rightarrow> sem_entry \<Rightarrow> sem_entry \<Rightarrow> model_row" where
  "model_row_of p parent e =
     (let nmap = layer_map e; moved = moved_layers parent e; sizes = layer_sizes e;
          total_bytes = sum_list (map snd sizes);
          moved_bytes = sum_list (map (\<lambda>m. dget_or sizes m 0) moved)
      in \<lparr>mo_path = p, mo_changed = length moved, mo_total = length nmap,
          mo_pct = round4 (int (length moved)) (int (if nmap = [] then 1 else length nmap)),
          mo_moved = take 20 moved,
          mo_largest = take 5 (sort_key (\<lambda>(_, s). - s) (map (\<lambda>m. (m, dget_or sizes m 0)) moved)),
          mo_bytes_changed = moved_bytes, mo_bytes_total = total_bytes,
          mo_pct_bytes = (if total_bytes = 0 then 0 else round4 moved_bytes total_bytes)\<rparr>)"

definition all_paths :: "sem_tree \<Rightarrow> sem_tree \<Rightarrow> string list" where
  "all_paths old new = sort (remdups (map fst old @ map fst new))"

definition model_rows :: "sem_tree \<Rightarrow> sem_tree \<Rightarrow> model_row list" where
  "model_rows old new =
     map (\<lambda>p. model_row_of p (entry_of old p) (entry_of new p))
       (filter (\<lambda>p. se_layers (entry_of new p) \<noteq> []) (all_paths old new))"

record chunk_stats =
  cs_reused :: nat
  cs_new :: nat
  cs_efficiency :: "int option"
  cs_status :: string
  cs_reused_bytes :: int
  cs_new_bytes :: int
  cs_efficiency_bytes :: "int option"

definition new_chunks :: "sem_tree \<Rightarrow> string \<times> sem_entry \<Rightarrow> hash list" where
  "new_chunks old pe =
     filter (\<lambda>h. h \<notin> set (chunk_hashes (entry_of old (fst pe)))) (chunk_hashes (snd pe))"

definition reused_chunks :: "sem_tree \<Rightarrow> string \<times> sem_entry \<Rightarrow> hash list" where
  "reused_chunks old pe =
     filter (\<lambda>h. h \<in> set (chunk_hashes (entry_of old (fst pe)))) (chunk_hashes (snd pe))"

definition bytes_of :: "string \<times> sem_entry \<Rightarrow> hash list \<Rightarrow> int" where
  "bytes_of pe hs = sum_list (map (\<lambda>h. dget_or (chunk_sizes (snd pe)) h 0) hs)"

definition chunk_summary :: "sem_tree \<Rightarrow> sem_tree \<Rightarrow> chunk_stats" where
  "chunk_summary old new =
     (let reused = sum_list (map (\<lambda>pe. length (reused_chunks old pe)) new);
          fresh = sum_list (map (\<lambda>pe. length (new_chunks old pe)) new);
          reused_b = sum_list (map (\<lambda>pe. bytes_of pe (reused_chunks old pe)) new);
          fresh_b = sum_list (map (\<lambda>pe. bytes_of pe (new_chunks old pe)) new);
          total = reused + fresh; total_b = reused_b + fresh_b
      in \<lparr>cs_reused = reused, cs_new = fresh,
          cs_efficiency = (if total = 0 then None else Some (round4 (int reused) (int total))),
          cs_status = (if total = 0 then ''no_chunks'' else ''measured''),
          cs_reused_bytes = reused_b, cs_new_bytes = fresh_b,
          cs_efficiency_bytes = (if total_b = 0 then None else Some (round4 reused_b total_b))\<rparr>)"

definition DATASET_EXTS :: "string list" where
  "DATASET_EXTS = [''.parquet'', ''.csv'', ''.h5'', ''.hdf5'', ''.npz'', ''.npy'', ''.arrow'',
     ''.jsonl'', ''.tfrecord'', ''.wav'', ''.flac'']"

fun contains :: "string \<Rightarrow> string \<Rightarrow> bool" where
  "contains s [] \<longleftrightarrow> s = []"
| "contains s (c # cs) \<longleftrightarrow> startswith (c # cs) s \<or> contains s cs"

definition is_dataset :: "string \<Rightarrow> bool" where
  "is_dataset p \<longleftrightarrow> list_ex (\<lambda>e. endswith (lower p) e) DATASET_EXTS \<or> contains ''dataset'' (lower p)"

definition tree_bytes :: "sem_tree \<Rightarrow> int" where
  "tree_bytes t = sum_list (map (\<lambda>(_, e). or_zero (se_size e)) t)"

record sem_diff =
  sd_added :: "(string \<times> string option) list"
  sd_removed :: "(string \<times> string option) list"
  sd_changed :: "(string \<times> string option) list"
  sd_models :: "model_row list"
  sd_chunks :: chunk_stats
  sd_datasets :: "string list"
  sd_before :: int
  sd_after :: int

section \<open>The client's diff\<close>

definition added_paths :: "sem_tree \<Rightarrow> sem_tree \<Rightarrow> string list" where
  "added_paths old new = sort (filter (\<lambda>p. \<not> has_key old p) (remdups (map fst new)))"

definition removed_paths :: "sem_tree \<Rightarrow> sem_tree \<Rightarrow> string list" where
  "removed_paths old new = sort (filter (\<lambda>p. \<not> has_key new p) (remdups (map fst old)))"

definition changed_paths :: "sem_tree \<Rightarrow> sem_tree \<Rightarrow> string list" where
  "changed_paths old new =
     sort (filter (\<lambda>p. has_key new p \<and> se_hash (entry_of old p) \<noteq> se_hash (entry_of new p))
       (remdups (map fst old)))"

definition kind_of :: "sem_tree \<Rightarrow> string \<Rightarrow> string option" where
  "kind_of t p = (case se_type (entry_of t p) of None \<Rightarrow> None | Some k \<Rightarrow> k)"

text \<open>\<open>new.get("type", old.get("type"))\<close>: the old type only when the new entry has no such key.\<close>

definition changed_kind :: "sem_tree \<Rightarrow> sem_tree \<Rightarrow> string \<Rightarrow> string option" where
  "changed_kind old new p =
     (case se_type (entry_of new p) of None \<Rightarrow> kind_of old p | Some k \<Rightarrow> k)"

definition diff_trees :: "sem_tree \<Rightarrow> sem_tree \<Rightarrow> sem_diff" where
  "diff_trees old new =
     (let added = added_paths old new
      in \<lparr>sd_added = map (\<lambda>p. (p, kind_of new p)) added,
          sd_removed = map (\<lambda>p. (p, kind_of old p)) (removed_paths old new),
          sd_changed = map (\<lambda>p. (p, changed_kind old new p)) (changed_paths old new),
          sd_models = model_rows old new,
          sd_chunks = chunk_summary old new,
          sd_datasets = filter (\<lambda>p. (is_dataset p \<or> is_dataset p)
              \<and> se_hash (entry_of old p) \<noteq> se_hash (entry_of new p) \<and> p \<notin> set added) (all_paths old new),
          sd_before = tree_bytes old, sd_after = tree_bytes new\<rparr>)"

text \<open>\<open>f"{pct:.1%}"\<close> of a number of ten-thousandths.\<close>

definition percent :: "int \<Rightarrow> string" where
  "percent n =
     (let q = n div 10; r = n mod 10;
          t = (if r < 5 then q else if 5 < r then q + 1 else if even q then q else q + 1)
      in int_text (t div 10) @ ''.'' @ int_text (t mod 10) @ ''%'')"

definition join_with :: "string \<Rightarrow> string list \<Rightarrow> string" where
  "join_with sep parts =
     (case parts of [] \<Rightarrow> [] | p # ps \<Rightarrow> p @ concat (map (\<lambda>q. sep @ q) ps))"

definition human_summary :: "sem_diff \<Rightarrow> string" where
  "human_summary sd =
     (let na = length (sd_added sd); nr = length (sd_removed sd); nc = length (sd_changed sd);
          bits = (if na \<noteq> 0 then [nat_text na @ '' added''] else [])
               @ (if nc \<noteq> 0 then [nat_text nc @ '' changed''] else [])
               @ (if nr \<noteq> 0 then [nat_text nr @ '' removed''] else []);
          c = sd_chunks sd;
          parts = (if bits \<noteq> [] then [''files: '' @ join_with '', '' bits] else [])
               @ (case sd_models sd of [] \<Rightarrow> [] | m # _ \<Rightarrow>
                    [''model '' @ mo_path m @ '': '' @ nat_text (mo_changed m) @ ''/''
                     @ nat_text (mo_total m) @ '' layers moved ('' @ percent (mo_pct m) @ '')''])
               @ (if cs_reused c \<noteq> 0 \<or> cs_new c \<noteq> 0
                  then [''chunks reused '' @ nat_text (cs_reused c) @ ''/'' @ nat_text (cs_reused c + cs_new c)]
                  else [])
               @ (if sd_datasets sd \<noteq> []
                  then [''datasets touched: '' @ nat_text (length (sd_datasets sd))] else [])
      in if parts = [] then ''no changes'' else join_with ''; '' parts)"

section \<open>The server's diff\<close>

text \<open>\<open>new.get("type") or old.get("type")\<close>: the old type also when the new one is null or empty.\<close>

definition server_changed_kind :: "sem_tree \<Rightarrow> sem_tree \<Rightarrow> string \<Rightarrow> string option" where
  "server_changed_kind old new p =
     (case kind_of new p of None \<Rightarrow> kind_of old p
      | Some k \<Rightarrow> if k = [] then kind_of old p else Some k)"

definition server_changed_paths :: "sem_tree \<Rightarrow> sem_tree \<Rightarrow> string list" where
  "server_changed_paths old new =
     sort (filter (\<lambda>p. has_key old p \<and> se_hash (entry_of old p) \<noteq> se_hash (entry_of new p))
       (remdups (map fst new)))"

definition summarize_tree_diff :: "sem_tree \<Rightarrow> sem_tree \<Rightarrow> sem_diff \<times> string" where
  "summarize_tree_diff old new =
     (let added = added_paths old new; removed = removed_paths old new;
          changed = server_changed_paths old new
      in (\<lparr>sd_added = map (\<lambda>p. (p, kind_of new p)) added,
           sd_removed = map (\<lambda>p. (p, kind_of old p)) removed,
           sd_changed = map (\<lambda>p. (p, server_changed_kind old new p)) changed,
           sd_models = model_rows old new,
           sd_chunks = chunk_summary old new,
           sd_datasets = filter (\<lambda>p. is_dataset p
              \<and> se_hash (entry_of old p) \<noteq> se_hash (entry_of new p) \<and> p \<notin> set added) (all_paths old new),
           sd_before = tree_bytes old, sd_after = tree_bytes new\<rparr>,
          ''+'' @ nat_text (length added) @ '' -'' @ nat_text (length removed) @ '' ~''
            @ nat_text (length changed) @ '' file(s)''))"

section \<open>The two agree\<close>

text \<open>Every entry names a non-empty type, as the trees the registry stores do.\<close>

definition typed_tree :: "sem_tree \<Rightarrow> bool" where
  "typed_tree t \<longleftrightarrow> list_all (\<lambda>(p, e). \<exists>k. se_type e = Some (Some k) \<and> k \<noteq> []) t"

lemma sorted_distinct_eq:
  fixes xs ys :: "string list"
  shows "distinct xs \<Longrightarrow> distinct ys \<Longrightarrow> set xs = set ys \<Longrightarrow> sort xs = sort ys"
  by (metis distinct_sort set_sort sorted_distinct_set_unique sorted_sort)

lemma changed_paths_agree: "server_changed_paths old new = changed_paths old new"
  unfolding server_changed_paths_def changed_paths_def
  by (rule sorted_distinct_eq) auto

lemma changed_kind_agree:
  assumes "typed_tree new" and "has_key new p"
  shows "server_changed_kind old new p = changed_kind old new p"
proof -
  from assms(2) obtain e where e: "dget new p = Some e" by (metis has_key_dget)
  then have "(p, e) \<in> set new" by (rule map_of_SomeD)
  with assms(1) obtain k where "se_type e = Some (Some k)" "k \<noteq> []" by (auto simp: typed_tree_def list_all_iff)
  with e show ?thesis by (simp add: server_changed_kind_def changed_kind_def kind_of_def entry_of_def)
qed

text \<open>
  The server's summary is the client's: on a new tree whose entries all name their type the two
  independent implementations return the same diff; on any trees they differ at most in the kind
  reported for a changed path.
\<close>

theorem summaries_agree:
  "(typed_tree new \<longrightarrow> fst (summarize_tree_diff old new) = diff_trees old new)
   \<and> (fst (summarize_tree_diff old new))\<lparr>sd_changed := []\<rparr> = (diff_trees old new)\<lparr>sd_changed := []\<rparr>
   \<and> map fst (sd_changed (fst (summarize_tree_diff old new))) = map fst (sd_changed (diff_trees old new))"
proof -
  have "map (\<lambda>p. (p, server_changed_kind old new p)) (changed_paths old new) =
      map (\<lambda>p. (p, changed_kind old new p)) (changed_paths old new)" if "typed_tree new"
    by (rule map_cong) (simp_all add: changed_kind_agree [OF that] changed_paths_def)
  then have "typed_tree new \<longrightarrow> fst (summarize_tree_diff old new) = diff_trees old new"
    by (simp add: summarize_tree_diff_def diff_trees_def Let_def changed_paths_agree)
  moreover have "(fst (summarize_tree_diff old new))\<lparr>sd_changed := []\<rparr> = (diff_trees old new)\<lparr>sd_changed := []\<rparr>"
    by (simp add: summarize_tree_diff_def diff_trees_def Let_def)
  moreover have "map fst (sd_changed (fst (summarize_tree_diff old new))) = map fst (sd_changed (diff_trees old new))"
    by (simp add: summarize_tree_diff_def diff_trees_def Let_def changed_paths_agree comp_def)
  ultimately show ?thesis by blast
qed

definition old_sample :: sem_tree where
  "old_sample = [(''m.pt'', \<lparr>se_hash = Some ''a'', se_type = Some (Some ''model''), se_size = Some 10,
     se_layers = [\<lparr>sl_name = ''w'', sl_hash = ''1'', sl_size = Some 8\<rparr>],
     se_chunks = [\<lparr>sc_hash = ''x'', sc_size = Some 5\<rparr>]\<rparr>)]"

definition new_sample :: sem_tree where
  "new_sample = [(''m.pt'', \<lparr>se_hash = Some ''b'', se_type = Some (Some ''model''), se_size = Some 12,
     se_layers = [\<lparr>sl_name = ''w'', sl_hash = ''2'', sl_size = Some 9\<rparr>,
                  \<lparr>sl_name = ''v'', sl_hash = ''3'', sl_size = None\<rparr>],
     se_chunks = [\<lparr>sc_hash = ''x'', sc_size = Some 5\<rparr>, \<lparr>sc_hash = ''y'', sc_size = Some 7\<rparr>]\<rparr>)]"

lemma summaries_agree_witness:
  "fst (summarize_tree_diff old_sample new_sample) = diff_trees old_sample new_sample
   \<and> map fst (sd_changed (diff_trees old_sample new_sample)) = [''m.pt'']"
proof
  have "typed_tree new_sample" by (simp add: typed_tree_def new_sample_def)
  then show "fst (summarize_tree_diff old_sample new_sample) = diff_trees old_sample new_sample"
    using summaries_agree by blast
  show "map fst (sd_changed (diff_trees old_sample new_sample)) = [''m.pt'']" by code_simp
qed

text \<open>Without a type the kinds differ: the client reports null, the server the old type.\<close>

lemma null_type_kind_differs:
  "sd_changed (diff_trees old_sample [(''m.pt'', no_entry\<lparr>se_hash := Some ''b'', se_type := Some None\<rparr>)])
     = [(''m.pt'', None)]"
  "sd_changed (fst (summarize_tree_diff old_sample [(''m.pt'', no_entry\<lparr>se_hash := Some ''b'', se_type := Some None\<rparr>)]))
     = [(''m.pt'', Some ''model'')]"
  by code_simp+

section \<open>What a diff says\<close>

lemma round4_bounds:
  assumes "0 \<le> a" and "a \<le> b" and "0 < b"
  shows "0 \<le> round4 a b \<and> round4 a b \<le> 10000"
proof -
  have q: "0 \<le> 10000 * a div b" using assms by (simp add: pos_imp_zdiv_nonneg_iff)
  have eq: "b * (10000 * a div b) + 10000 * a mod b = 10000 * a" by simp
  have r: "0 \<le> 10000 * a mod b" using assms by simp
  have le: "10000 * a div b \<le> 10000"
    using zdiv_mono1 [of "10000 * a" "10000 * b" b] assms by simp
  have "10000 * a div b = 10000 \<Longrightarrow> 10000 * a mod b = 0" using eq r assms(2) by auto
  moreover have "10000 * a div b \<noteq> 10000 \<Longrightarrow> 10000 * a div b \<le> 9999" using le by linarith
  ultimately show ?thesis using q le assms(3)
    by (cases "10000 * a div b = 10000") (simp_all add: round4_def Let_def)
qed

lemma share_bounds:
  "case (if a + b = (0::nat) then None else Some (round4 (int a) (int (a + b)))) of
     None \<Rightarrow> True | Some q \<Rightarrow> 0 \<le> q \<and> q \<le> 10000"
  using round4_bounds [of "int a" "int (a + b)"] by simp

lemma chunks_partition:
  "length (reused_chunks old pe) + length (new_chunks old pe) = length (chunk_hashes (snd pe))"
  by (simp add: reused_chunks_def new_chunks_def sum_length_filter_compl)

lemma model_row_bounds:
  "0 \<le> mo_pct (model_row_of p d e) \<and> mo_pct (model_row_of p d e) \<le> 10000
   \<and> mo_changed (model_row_of p d e) \<le> mo_total (model_row_of p d e)"
proof -
  have len: "length (moved_layers d e) \<le> length (layer_map e)" by (simp add: moved_layers_def)
  then show ?thesis
    using round4_bounds [of "int (length (moved_layers d e))" "int (if layer_map e = [] then 1 else length (layer_map e))"]
    by (auto simp: model_row_of_def Let_def)
qed

lemma chunk_counts:
  "cs_reused (chunk_summary old new) + cs_new (chunk_summary old new) =
     sum_list (map (\<lambda>(_, e). card (sc_hash ` set (se_chunks e))) new)"
proof -
  have "length (chunk_hashes e) = card (sc_hash ` set (se_chunks e))" for e
    by (simp add: chunk_hashes_def length_remdups_card_conv)
  then have eq: "map (\<lambda>(_, e). card (sc_hash ` set (se_chunks e))) new =
      map (\<lambda>pe. length (reused_chunks old pe) + length (new_chunks old pe)) new"
    by (simp add: chunks_partition case_prod_unfold)
  show ?thesis unfolding eq by (simp add: chunk_summary_def Let_def sum_list_addf)
qed

text \<open>
  The client's diff is exact. A path is listed as added, removed or changed precisely when only
  the new tree has it, only the old tree has it, or both have it with different hashes; the lists
  are sorted and repeat nothing, so an unlisted path is the same on both sides. Every distinct chunk
  of the new tree is counted once, as new or as reused, and the reported shares lie between 0 and 1.
\<close>

theorem diff_trees_exact:
  shows "(\<forall>p. p \<in> fst ` set (sd_added (diff_trees old new)) \<longleftrightarrow> has_key new p \<and> \<not> has_key old p)
    \<and> (\<forall>p. p \<in> fst ` set (sd_removed (diff_trees old new)) \<longleftrightarrow> has_key old p \<and> \<not> has_key new p)
    \<and> (\<forall>p. p \<in> fst ` set (sd_changed (diff_trees old new)) \<longleftrightarrow>
          (\<exists>d e. dget old p = Some d \<and> dget new p = Some e \<and> se_hash d \<noteq> se_hash e))
    \<and> sorted_wrt (<) (map fst (sd_added (diff_trees old new)))
    \<and> sorted_wrt (<) (map fst (sd_removed (diff_trees old new)))
    \<and> sorted_wrt (<) (map fst (sd_changed (diff_trees old new)))
    \<and> cs_reused (sd_chunks (diff_trees old new)) + cs_new (sd_chunks (diff_trees old new)) =
        sum_list (map (\<lambda>(_, e). card (sc_hash ` set (se_chunks e))) new)
    \<and> (case cs_efficiency (sd_chunks (diff_trees old new)) of None \<Rightarrow> True | Some q \<Rightarrow> 0 \<le> q \<and> q \<le> 10000)
    \<and> list_all (\<lambda>m. 0 \<le> mo_pct m \<and> mo_pct m \<le> 10000 \<and> mo_changed m \<le> mo_total m) (sd_models (diff_trees old new))"
proof (intro conjI)
  show "\<forall>p. p \<in> fst ` set (sd_added (diff_trees old new)) \<longleftrightarrow> has_key new p \<and> \<not> has_key old p"
    by (simp add: diff_trees_def Let_def image_image added_paths_def)
  show "\<forall>p. p \<in> fst ` set (sd_removed (diff_trees old new)) \<longleftrightarrow> has_key old p \<and> \<not> has_key new p"
    by (simp add: diff_trees_def Let_def image_image removed_paths_def)
  have "p \<in> set (changed_paths old new) \<longleftrightarrow>
      (\<exists>d e. dget old p = Some d \<and> dget new p = Some e \<and> se_hash d \<noteq> se_hash e)" for p
    using has_key_dget [of old p] has_key_dget [of new p] by (auto simp: changed_paths_def entry_of_def)
  then show "\<forall>p. p \<in> fst ` set (sd_changed (diff_trees old new)) \<longleftrightarrow>
      (\<exists>d e. dget old p = Some d \<and> dget new p = Some e \<and> se_hash d \<noteq> se_hash e)"
    by (simp add: diff_trees_def Let_def image_image)
  have ss: "sorted_wrt (<) (sort xs)" if "distinct xs" for xs :: "string list"
    using that by (simp add: strict_sorted_iff)
  show "sorted_wrt (<) (map fst (sd_added (diff_trees old new)))"
    "sorted_wrt (<) (map fst (sd_removed (diff_trees old new)))"
    "sorted_wrt (<) (map fst (sd_changed (diff_trees old new)))"
    by (simp_all add: diff_trees_def Let_def comp_def added_paths_def removed_paths_def changed_paths_def ss)
  show "cs_reused (sd_chunks (diff_trees old new)) + cs_new (sd_chunks (diff_trees old new)) =
      sum_list (map (\<lambda>(_, e). card (sc_hash ` set (se_chunks e))) new)"
    using chunk_counts by (simp add: diff_trees_def Let_def)
  show "case cs_efficiency (sd_chunks (diff_trees old new)) of None \<Rightarrow> True | Some q \<Rightarrow> 0 \<le> q \<and> q \<le> 10000"
    unfolding diff_trees_def chunk_summary_def Let_def sem_diff.select_convs chunk_stats.select_convs
    by (rule share_bounds)
  show "list_all (\<lambda>m. 0 \<le> mo_pct m \<and> mo_pct m \<le> 10000 \<and> mo_changed m \<le> mo_total m) (sd_models (diff_trees old new))"
    using model_row_bounds by (simp add: diff_trees_def model_rows_def Let_def list_all_iff)
qed

end
