(* ===== verification/Identity.thy ===== *)
theory Identity
  imports Webhooks
begin

text \<open>
  Principals and credentials: \<open>identity.py\<close> (the resolution of database tokens and sessions with
  its bounded TTL cache, the role lookup) and the handlers of \<open>server.py\<close> that administer tokens,
  tenants, users, roles and role bindings. SHA-256 of the token is an argument.
\<close>

section \<open>Principals and rows\<close>

record principal =
  pr_username :: string
  pr_tenant :: "string option"
  pr_method :: string
  pr_scopes :: "string list"
  pr_roles :: "string list"
  pr_user :: "string option"

definition anonymous_principal :: principal where
  "anonymous_principal = \<lparr>pr_username = ''anonymous'', pr_tenant = None, pr_method = ''anonymous'',
     pr_scopes = [''*''], pr_roles = [], pr_user = None\<rparr>"

definition env_principal :: "string \<Rightarrow> string \<Rightarrow> string list \<Rightarrow> principal" where
  "env_principal username tenant scopes = \<lparr>pr_username = username, pr_tenant = Some tenant,
     pr_method = ''env_token'', pr_scopes = scopes, pr_roles = [], pr_user = None\<rparr>"

record api_token =
  tk_id :: string
  tk_tenant :: string
  tk_user :: "string option"
  tk_name :: string
  tk_hash :: hash
  tk_prefix :: string
  tk_scopes :: "string list option"
  tk_expires :: "datetime option"
  tk_last_used :: "datetime option"
  tk_revoked :: "datetime option"
  tk_created_by :: "string option"
  tk_created :: datetime

record session =
  ss_hash :: hash
  ss_user :: string
  ss_tenant :: string
  ss_expires :: datetime
  ss_revoked :: "datetime option"

record user_row =
  us_id :: string
  us_tenant :: string
  us_username :: string
  us_email :: json
  us_display :: json
  us_status :: string
  us_source :: string
  us_external :: json
  us_created :: datetime
  us_updated :: datetime
  us_last_login :: "datetime option"

record role_row =
  ro_id :: string
  ro_tenant :: "string option"
  ro_name :: string
  ro_description :: json
  ro_permissions :: "string list"
  ro_builtin :: bool

record role_binding =
  bd_id :: string
  bd_tenant :: string
  bd_subject_type :: string
  bd_subject_id :: json
  bd_role :: json
  bd_scope_type :: string
  bd_scope_id :: json
  bd_created_by :: "string option"
  bd_created :: datetime

record tenant_row =
  tn_id :: string
  tn_slug :: string
  tn_name :: string
  tn_status :: string

record identity_db = effects +
  id_tokens :: "api_token list"
  id_sessions :: "session list"
  id_users :: "user_row list"
  id_roles :: "role_row list"
  id_bindings :: "role_binding list"
  id_members :: "(string \<times> string) list"
  id_tenants :: "tenant_row list"

section \<open>The principal cache\<close>

text \<open>
  Keyed on the token hash; an entry holds its expiry on the monotonic clock and the principal, or
  \<open>None\<close> for a token that resolved to nothing.
\<close>

type_synonym principal_cache = "(string, int \<times> principal option) dict"

record cache_config =
  cc_ttl :: int
  cc_max :: nat

definition cache_get :: "int \<Rightarrow> string \<Rightarrow> principal_cache \<Rightarrow> principal_cache \<times> principal option option" where
  "cache_get now k c =
     (case dget c k of
        None \<Rightarrow> (c, None)
      | Some (expires_at, p) \<Rightarrow> if expires_at \<le> now then (ddel c k, None) else (c, Some p))"

definition drop_expired :: "int \<Rightarrow> principal_cache \<Rightarrow> principal_cache" where
  "drop_expired now c = filter (\<lambda>(_, e, _). \<not> e \<le> now) c"

definition drop_soonest :: "nat \<Rightarrow> principal_cache \<Rightarrow> principal_cache" where
  "drop_soonest n c = fold (\<lambda>k d. ddel d k) (map fst (take n (sort_key (\<lambda>(_, e, _). e) c))) c"

definition cache_put ::
  "cache_config \<Rightarrow> int \<Rightarrow> string \<Rightarrow> principal option \<Rightarrow> principal_cache \<Rightarrow> principal_cache" where
  "cache_put cfg now k p c =
     (let c1 = (if \<not> has_key c k \<and> cc_max cfg \<le> length c
                then let live = drop_expired now c
                     in if cc_max cfg < length live + 1
                        then drop_soonest (length live + 1 - cc_max cfg) live else live
                else c)
      in dset c1 k (now + cc_ttl cfg, p))"

definition invalidate_cached_token :: "(string \<Rightarrow> hash) \<Rightarrow> string \<Rightarrow> principal_cache \<Rightarrow> principal_cache" where
  "invalidate_cached_token sha raw c = ddel c (sha raw)"

section \<open>Resolution\<close>

text \<open>
  The union of the permissions of every role bound to the subject, or to a group of it, inside the
  tenant. The \<open>scope_type\<close> and \<open>scope_id\<close> columns of a binding are not read.
\<close>

definition applies :: "(string \<times> string) list \<Rightarrow> string \<Rightarrow> string \<Rightarrow> string \<Rightarrow> role_binding \<Rightarrow> bool" where
  "applies members tenant styp sid b \<longleftrightarrow> bd_tenant b = tenant \<and>
     (if styp = ''user'' then
        bd_subject_type b = ''user'' \<and> bd_subject_id b = JStr sid
        \<or> bd_subject_type b = ''group'' \<and>
          list_ex (\<lambda>(g, u). u = sid \<and> bd_subject_id b = JStr g) members
      else bd_subject_type b = styp \<and> bd_subject_id b = JStr sid)"

definition permissions_for_subject ::
  "string \<Rightarrow> string \<Rightarrow> string \<Rightarrow> 'a identity_db_scheme \<Rightarrow> string list \<times> string list" where
  "permissions_for_subject tenant styp sid db =
     (let rows = concat (map (\<lambda>r. map (\<lambda>_. r)
                   (filter (\<lambda>b. bd_role b = JStr (ro_id r) \<and> applies (id_members db) tenant styp sid b)
                      (id_bindings db))) (id_roles db))
      in (sort (remdups (concat (map ro_permissions rows))), map ro_name rows))"

definition or_read :: "string list \<Rightarrow> string list" where
  "or_read scopes = (if scopes = [] then [''read''] else scopes)"

definition token_live :: "datetime \<Rightarrow> api_token \<Rightarrow> bool" where
  "token_live now t \<longleftrightarrow> tk_revoked t = None \<and> (case tk_expires t of None \<Rightarrow> True | Some e \<Rightarrow> now < e)"

definition token_principal :: "api_token \<Rightarrow> 'a identity_db_scheme \<Rightarrow> principal" where
  "token_principal t db =
     (let user = (case tk_user t of None \<Rightarrow> None | Some u \<Rightarrow> if u = [] then None else Some u);
          sid = (case user of None \<Rightarrow> tk_id t | Some u \<Rightarrow> u);
          (role_scopes, role_names) =
            permissions_for_subject (tk_tenant t) (if user = None then ''token'' else ''user'') sid db;
          scopes = (case tk_scopes t of
              Some (s # ss) \<Rightarrow> sort (remdups (filter (\<lambda>x. x \<in> set role_scopes) (s # ss)))
            | _ \<Rightarrow> role_scopes);
          name = (case user of None \<Rightarrow> None
                  | Some u \<Rightarrow> map_option us_username (find_row us_id u (id_users db)));
          username = (case name of Some (c # cs) \<Rightarrow> c # cs | _ \<Rightarrow> ''token:'' @ tk_name t)
      in \<lparr>pr_username = username, pr_tenant = Some (tk_tenant t), pr_method = ''db_token'',
          pr_scopes = or_read scopes, pr_roles = role_names, pr_user = tk_user t\<rparr>)"

definition resolve_db_token ::
  "cache_config \<Rightarrow> (string \<Rightarrow> hash) \<Rightarrow> int \<Rightarrow> datetime \<Rightarrow> string \<Rightarrow> 'a identity_db_scheme
   \<Rightarrow> principal_cache \<Rightarrow> principal_cache \<times> principal option" where
  "resolve_db_token cfg sha clk now raw db c =
     (let h = sha raw
      in case cache_get clk h c of
           (c1, Some p) \<Rightarrow> (c1, p)
         | (c1, None) \<Rightarrow>
             let resolved = (case find_row tk_hash h (id_tokens db) of
                 None \<Rightarrow> None
               | Some t \<Rightarrow> if token_live now t then Some (token_principal t db) else None)
             in (cache_put cfg clk h resolved c1, resolved))"

definition session_key :: "(string \<Rightarrow> hash) \<Rightarrow> string \<Rightarrow> string" where
  "session_key sha raw = ''session:'' @ sha raw"

definition resolve_session ::
  "cache_config \<Rightarrow> (string \<Rightarrow> hash) \<Rightarrow> int \<Rightarrow> datetime \<Rightarrow> string \<Rightarrow> 'a identity_db_scheme
   \<Rightarrow> principal_cache \<Rightarrow> principal_cache \<times> principal option" where
  "resolve_session cfg sha clk now raw db c =
     (case cache_get clk (session_key sha raw) c of
        (c1, Some p) \<Rightarrow> (c1, p)
      | (c1, None) \<Rightarrow>
          let resolved = (case find_row ss_hash (sha raw) (id_sessions db) of
              None \<Rightarrow> None
            | Some s \<Rightarrow>
                if ss_revoked s = None \<and> now < ss_expires s
                then (case find_row us_id (ss_user s) (id_users db) of
                        None \<Rightarrow> None
                      | Some u \<Rightarrow>
                          (case permissions_for_subject (ss_tenant s) ''user'' (ss_user s) db of
                             (scopes, names) \<Rightarrow>
                               Some \<lparr>pr_username = us_username u, pr_tenant = Some (ss_tenant s),
                                 pr_method = ''session'', pr_scopes = or_read scopes, pr_roles = names,
                                 pr_user = Some (ss_user s)\<rparr>))
                else None)
          in (cache_put cfg clk (session_key sha raw) resolved c1, resolved))"

section \<open>Administration\<close>

definition DEFAULT_TENANT_ID :: string where
  "DEFAULT_TENANT_ID = ''00000000-0000-0000-0000-000000000001''"

definition effective_tenant_id :: "principal \<Rightarrow> string" where
  "effective_tenant_id p =
     (case pr_tenant p of None \<Rightarrow> DEFAULT_TENANT_ID | Some t \<Rightarrow> if t = [] then DEFAULT_TENANT_ID else t)"

definition token_row_dict :: "api_token \<Rightarrow> json" where
  "token_row_dict t =
     JObj [(''id'', JStr (tk_id t)), (''name'', JStr (tk_name t)), (''prefix'', JStr (tk_prefix t)),
       (''user_id'', jopt (tk_user t)), (''scopes'', opt_json (\<lambda>ss. JList (map JStr ss)) (tk_scopes t)),
       (''expires_at'', iso_opt (tk_expires t)), (''last_used_at'', iso_opt (tk_last_used t)),
       (''revoked_at'', iso_opt (tk_revoked t)), (''created_by'', jopt (tk_created_by t)),
       (''created_at'', JStr (isoformat (tk_created t)))]"

text \<open>\<open>None\<close> for a value that is not a list of strings.\<close>

fun string_list :: "json list \<Rightarrow> string list option" where
  "string_list [] = Some []"
| "string_list (JStr s # js) = map_option (\<lambda>ss. s # ss) (string_list js)"
| "string_list _ = None"

fun parse_scopes :: "json \<Rightarrow> (string list option) option" where
  "parse_scopes JNull = Some None"
| "parse_scopes (JList js) = map_option Some (string_list js)"
| "parse_scopes _ = None"

text \<open>
  \<open>int(body["expires_in_days"])\<close> is the argument \<open>to_int\<close> (Python's \<open>int\<close> on a JSON value, \<open>None\<close>
  where it raises); the fresh secret \<open>token_urlsafe(32)\<close> is \<open>raw\<close>.
\<close>

definition DAY :: int where
  "DAY = 86400 * SECOND"

definition create_api_token ::
  "(string \<Rightarrow> hash) \<Rightarrow> (json \<Rightarrow> int option) \<Rightarrow> string \<Rightarrow> principal \<Rightarrow> caller \<Rightarrow> body
   \<Rightarrow> 'a identity_db_scheme \<Rightarrow> reply \<times> 'a identity_db_scheme" where
  "create_api_token sha to_int raw p cl body s =
     (case field body ''name'' JNull of
        JStr (n # ns) \<Rightarrow>
          (case parse_scopes (field body ''scopes'' JNull) of
             None \<Rightarrow> (Fail 422 (JStr ''scopes must be a list of strings''), s)
           | Some scopes \<Rightarrow>
               (let days = field body ''expires_in_days'' JNull
                in if days \<noteq> JNull \<and> to_int days = None
                   then (Fail 422 (JStr ''expires_in_days must be an integer''), s)
                   else let expires = (if days = JNull then None else Some (cl_now cl + the (to_int days) * DAY));
                            row = \<lparr>tk_id = cl_uuid cl, tk_tenant = effective_tenant_id p, tk_user = pr_user p,
                              tk_name = n # ns, tk_hash = sha raw, tk_prefix = take 8 raw, tk_scopes = scopes,
                              tk_expires = expires, tk_last_used = None, tk_revoked = None,
                              tk_created_by = cl_username cl, tk_created = cl_now cl\<rparr>
                        in (Ok 200 (JObj [(''status'', JStr ''created''), (''id'', JStr (cl_uuid cl)),
                                (''token'', JStr raw), (''prefix'', JStr (take 8 raw)),
                                (''expires_at'', iso_opt expires)]),
                            note_audit (cl_username cl) ''token.create'' JNull
                              [(''token_id'', JStr (cl_uuid cl)), (''name'', JStr (n # ns)),
                               (''scopes'', opt_json (\<lambda>ss. JList (map JStr ss)) scopes)] 201
                              (s\<lparr>id_tokens := id_tokens s @ [row]\<rparr>))))
      | _ \<Rightarrow> (Fail 422 (JStr ''name is required''), s))"

definition list_api_tokens :: "principal \<Rightarrow> nat \<Rightarrow> nat \<Rightarrow> 'a identity_db_scheme \<Rightarrow> reply" where
  "list_api_tokens p lim off s =
     Ok 200 (JObj [(''tokens'', JList (map token_row_dict (page lim off
       (newest_first tk_created (filter (\<lambda>t. tk_tenant t = effective_tenant_id p) (id_tokens s))))))])"

definition revoke_api_token ::
  "principal \<Rightarrow> caller \<Rightarrow> string \<Rightarrow> 'a identity_db_scheme \<Rightarrow> reply \<times> 'a identity_db_scheme" where
  "revoke_api_token p cl i s =
     (case find_row tk_id i (id_tokens s) of
        None \<Rightarrow> (Fail 404 (JStr ''Token not found''), s)
      | Some t \<Rightarrow>
          if tk_tenant t \<noteq> effective_tenant_id p then (Fail 404 (JStr ''Token not found''), s)
          else (Ok 200 (JObj [(''status'', JStr ''revoked''), (''id'', JStr i)]),
                if tk_revoked t = None
                then note_audit (cl_username cl) ''token.revoke'' JNull [(''token_id'', JStr i)] 200
                       (s\<lparr>id_tokens := upd_row tk_id i (\<lambda>t. t\<lparr>tk_revoked := Some (cl_now cl)\<rparr>) (id_tokens s)\<rparr>)
                else s))"

definition create_tenant ::
  "caller \<Rightarrow> body \<Rightarrow> 'a identity_db_scheme \<Rightarrow> reply \<times> 'a identity_db_scheme" where
  "create_tenant cl body s =
     (case (field body ''slug'' JNull, field body ''name'' JNull) of
        (JStr (c # cs), JStr (n # ns)) \<Rightarrow>
          (case find_row tn_slug (c # cs) (id_tenants s) of
             Some t \<Rightarrow> (Ok 200 (JObj [(''status'', JStr ''exists''), (''id'', JStr (tn_id t)),
                          (''slug'', JStr (tn_slug t))]), s)
           | None \<Rightarrow>
               (Ok 200 (JObj [(''status'', JStr ''created''), (''id'', JStr (cl_uuid cl)), (''slug'', JStr (c # cs))]),
                note_audit (cl_username cl) ''tenant.create'' JNull
                  [(''tenant_id'', JStr (cl_uuid cl)), (''slug'', JStr (c # cs))] 201
                  (s\<lparr>id_tenants := id_tenants s @
                     [\<lparr>tn_id = cl_uuid cl, tn_slug = c # cs, tn_name = n # ns, tn_status = ''active''\<rparr>]\<rparr>)))
      | _ \<Rightarrow> (Fail 422 (JStr ''slug and name are required''), s))"

definition get_my_tenant :: "principal \<Rightarrow> 'a identity_db_scheme \<Rightarrow> reply" where
  "get_my_tenant p s =
     (case find_row tn_id (effective_tenant_id p) (id_tenants s) of
        None \<Rightarrow> Fail 404 (JStr ''Tenant not found'')
      | Some t \<Rightarrow> Ok 200 (JObj [(''id'', JStr (tn_id t)), (''slug'', JStr (tn_slug t)),
                     (''name'', JStr (tn_name t)), (''status'', JStr (tn_status t))]))"

definition user_row_dict :: "user_row \<Rightarrow> json" where
  "user_row_dict u =
     JObj [(''id'', JStr (us_id u)), (''username'', JStr (us_username u)), (''email'', us_email u),
       (''display_name'', us_display u), (''status'', JStr (us_status u)), (''source'', JStr (us_source u)),
       (''external_id'', us_external u), (''created_at'', JStr (isoformat (us_created u))),
       (''last_login_at'', iso_opt (us_last_login u))]"

definition create_user ::
  "principal \<Rightarrow> caller \<Rightarrow> body \<Rightarrow> 'a identity_db_scheme \<Rightarrow> reply \<times> 'a identity_db_scheme" where
  "create_user p cl body s =
     (case field body ''username'' JNull of
        JStr (c # cs) \<Rightarrow>
          (case find (\<lambda>u. us_tenant u = effective_tenant_id p \<and> us_username u = c # cs) (id_users s) of
             Some u \<Rightarrow> (Ok 200 (JObj [(''status'', JStr ''exists''), (''id'', JStr (us_id u))]), s)
           | None \<Rightarrow>
               (Ok 200 (JObj [(''status'', JStr ''created''), (''id'', JStr (cl_uuid cl))]),
                note_audit (cl_username cl) ''user.create'' JNull
                  [(''user_id'', JStr (cl_uuid cl)), (''username'', JStr (c # cs))] 201
                  (s\<lparr>id_users := id_users s @
                     [\<lparr>us_id = cl_uuid cl, us_tenant = effective_tenant_id p, us_username = c # cs,
                      us_email = field body ''email'' JNull, us_display = field body ''display_name'' JNull,
                      us_status = ''active'', us_source = ''local'', us_external = JNull,
                      us_created = cl_now cl, us_updated = cl_now cl, us_last_login = None\<rparr>]\<rparr>)))
      | _ \<Rightarrow> (Fail 422 (JStr ''username is required''), s))"

definition list_users :: "principal \<Rightarrow> nat \<Rightarrow> nat \<Rightarrow> 'a identity_db_scheme \<Rightarrow> reply" where
  "list_users p lim off s =
     Ok 200 (JObj [(''users'', JList (map user_row_dict (page lim off
       (newest_first us_created (filter (\<lambda>u. us_tenant u = effective_tenant_id p) (id_users s))))))])"

definition suspend_user ::
  "principal \<Rightarrow> caller \<Rightarrow> string \<Rightarrow> 'a identity_db_scheme \<Rightarrow> reply \<times> 'a identity_db_scheme" where
  "suspend_user p cl i s =
     (case find (\<lambda>u. us_id u = i \<and> us_tenant u = effective_tenant_id p) (id_users s) of
        None \<Rightarrow> (Fail 404 (JStr ''User not found''), s)
      | Some u \<Rightarrow>
          (Ok 200 (JObj [(''status'', JStr ''suspended''), (''id'', JStr i)]),
           note_audit (cl_username cl) ''user.suspend'' JNull [(''user_id'', JStr i)] 200
             (s\<lparr>id_users := upd_row us_id i
                  (\<lambda>u. u\<lparr>us_status := ''suspended'', us_updated := cl_now cl\<rparr>) (id_users s),
                id_tokens := map (\<lambda>t. if tk_user t = Some i \<and> tk_revoked t = None
                                      then t\<lparr>tk_revoked := Some (cl_now cl)\<rparr> else t) (id_tokens s),
                id_sessions := map (\<lambda>x. if ss_user x = i \<and> ss_revoked x = None
                                        then x\<lparr>ss_revoked := Some (cl_now cl)\<rparr> else x) (id_sessions s)\<rparr>)))"

definition list_roles :: "principal \<Rightarrow> 'a identity_db_scheme \<Rightarrow> reply" where
  "list_roles p s =
     (let rows = sort_key (\<lambda>r. (\<not> ro_builtin r, ro_name r))
            (filter (\<lambda>r. ro_tenant r = None \<or> ro_tenant r = Some (effective_tenant_id p)) (id_roles s))
      in Ok 200 (JObj [(''roles'', JList (map (\<lambda>r. JObj [(''id'', JStr (ro_id r)), (''name'', JStr (ro_name r)),
            (''description'', ro_description r), (''permissions'', JList (map JStr (ro_permissions r))),
            (''builtin'', JBool (ro_builtin r))]) rows))]))"

definition create_role_binding ::
  "principal \<Rightarrow> caller \<Rightarrow> body \<Rightarrow> 'a identity_db_scheme \<Rightarrow> reply \<times> 'a identity_db_scheme" where
  "create_role_binding p cl body s =
     (let styp = field body ''subject_type'' JNull; sid = field body ''subject_id'' JNull;
          rid = field body ''role_id'' JNull; scope_type = field body ''scope_type'' (JStr ''tenant'')
      in if styp \<notin> {JStr ''user'', JStr ''group'', JStr ''token''} \<or> \<not> truthy sid \<or> \<not> truthy rid
         then (Fail 422 (JStr ''subject_type (user|group|token), subject_id, and role_id are required''), s)
         else if \<not> list_ex (\<lambda>r. JStr (ro_id r) = rid
                    \<and> (ro_tenant r = None \<or> ro_tenant r = Some (effective_tenant_id p))) (id_roles s)
         then (Fail 422 (JStr ''Unknown role for this tenant''), s)
         else if scope_type \<notin> {JStr ''tenant'', JStr ''project''}
         then (Fail 422 (JStr ''scope_type must be tenant or project''), s)
         else (Ok 200 (JObj [(''status'', JStr ''created''), (''id'', JStr (cl_uuid cl))]),
               note_audit (cl_username cl) ''role_binding.create'' JNull
                 [(''subject_type'', styp), (''subject_id'', sid), (''role_id'', rid)] 201
                 (s\<lparr>id_bindings := id_bindings s @
                    [\<lparr>bd_id = cl_uuid cl, bd_tenant = effective_tenant_id p,
                     bd_subject_type = the (text_col styp), bd_subject_id = sid, bd_role = rid,
                     bd_scope_type = the (text_col scope_type), bd_scope_id = field body ''scope_id'' JNull,
                     bd_created_by = cl_username cl, bd_created = cl_now cl\<rparr>]\<rparr>)))"

definition list_role_bindings :: "principal \<Rightarrow> string option \<Rightarrow> nat \<Rightarrow> nat \<Rightarrow> 'a identity_db_scheme \<Rightarrow> reply" where
  "list_role_bindings p subject lim off s =
     Ok 200 (JObj [(''bindings'', JList (map (\<lambda>b. JObj [(''id'', JStr (bd_id b)),
         (''subject_type'', JStr (bd_subject_type b)), (''subject_id'', bd_subject_id b),
         (''role_id'', bd_role b), (''scope_type'', JStr (bd_scope_type b)), (''scope_id'', bd_scope_id b),
         (''created_by'', jopt (bd_created_by b))])
       (page lim off (newest_first bd_created (filter (\<lambda>b. bd_tenant b = effective_tenant_id p
          \<and> matches subject (bd_subject_id b)) (id_bindings s))))))])"

definition revoke_role_binding ::
  "principal \<Rightarrow> caller \<Rightarrow> string \<Rightarrow> 'a identity_db_scheme \<Rightarrow> reply \<times> 'a identity_db_scheme" where
  "revoke_role_binding p cl i s =
     (case find (\<lambda>b. bd_id b = i \<and> bd_tenant b = effective_tenant_id p) (id_bindings s) of
        None \<Rightarrow> (Fail 404 (JStr ''Role binding not found''), s)
      | Some b \<Rightarrow>
          (Ok 200 (JObj [(''status'', JStr ''revoked''), (''id'', JStr i)]),
           note_audit (cl_username cl) ''role_binding.revoke'' JNull [(''binding_id'', JStr i)] 200
             (s\<lparr>id_bindings := del_row bd_id i (id_bindings s)\<rparr>)))"

definition auth_whoami :: "principal \<Rightarrow> reply" where
  "auth_whoami p =
     Ok 200 (JObj [(''username'', JStr (pr_username p)), (''tenant_id'', jopt (pr_tenant p)),
       (''auth_method'', JStr (pr_method p)), (''scopes'', JList (map JStr (pr_scopes p))),
       (''role_names'', JList (map JStr (pr_roles p))), (''user_id'', jopt (pr_user p))])"

section \<open>The cache keeps what it should\<close>

lemma dget_filter_sub: "dict_wf c \<Longrightarrow> dget (filter P c) k = Some v \<Longrightarrow> dget c k = Some v"
  by (metis dict_wf_filter dict_wf_get filter_is_subset subsetD)

lemma fold_ddel:
  "dict_wf c \<Longrightarrow> dict_wf (fold (\<lambda>k d. ddel d k) ks c)"
  "dget (fold (\<lambda>k d. ddel d k) ks c) k = (if k \<in> set ks then None else dget c k)"
  by (induction ks arbitrary: c) simp_all

lemma cache_get_sub:
  "dict_wf c \<Longrightarrow> dict_wf (fst (cache_get now k c))"
  "dget (fst (cache_get now k c)) k' = Some v \<Longrightarrow> dget c k' = Some v"
  by (auto simp: cache_get_def split: option.splits if_splits)

lemma cache_get_hit:
  "snd (cache_get now k c) = Some p \<Longrightarrow> \<exists>e. now < e \<and> dget c k = Some (e, p)"
  by (auto simp: cache_get_def split: option.splits if_splits)

lemma cache_put_sub:
  assumes "dict_wf c"
  shows "dict_wf (cache_put cfg now k p c)"
    and "dget (cache_put cfg now k p c) k' = Some v \<Longrightarrow> k' \<noteq> k \<Longrightarrow> dget c k' = Some v"
    and "dget (cache_put cfg now k p c) k = Some (now + cc_ttl cfg, p)"
proof -
  have wf: "dict_wf (drop_expired now c)" using assms by (simp add: drop_expired_def)
  have sub: "dget (drop_expired now c) k' = Some v \<Longrightarrow> dget c k' = Some v" for k' v
    using dget_filter_sub [OF assms] by (simp add: drop_expired_def)
  show "dict_wf (cache_put cfg now k p c)"
    using assms wf by (simp add: cache_put_def Let_def drop_soonest_def fold_ddel(1))
  show "dget (cache_put cfg now k p c) k' = Some v \<Longrightarrow> k' \<noteq> k \<Longrightarrow> dget c k' = Some v"
    using sub by (auto simp: cache_put_def Let_def drop_soonest_def fold_ddel(2) split: if_splits)
  show "dget (cache_put cfg now k p c) k = Some (now + cc_ttl cfg, p)"
    by (simp add: cache_put_def Let_def)
qed

section \<open>Revocation\<close>

text \<open>
  The lookups of a server process: of a token or of a session, each at its own time and on the
  database of that moment. \<open>dead_row\<close>: the token's row is absent, revoked or expired.
\<close>

record 'a lookup =
  lk_session :: bool
  lk_clk :: int
  lk_now :: datetime
  lk_raw :: string
  lk_db :: "'a identity_db_scheme"

definition do_lookup ::
  "cache_config \<Rightarrow> (string \<Rightarrow> hash) \<Rightarrow> 'a lookup \<Rightarrow> principal_cache \<Rightarrow> principal_cache" where
  "do_lookup cfg sha l c =
     fst (if lk_session l then resolve_session cfg sha (lk_clk l) (lk_now l) (lk_raw l) (lk_db l) c
          else resolve_db_token cfg sha (lk_clk l) (lk_now l) (lk_raw l) (lk_db l) c)"

definition dead_row :: "hash \<Rightarrow> datetime \<Rightarrow> 'a identity_db_scheme \<Rightarrow> bool" where
  "dead_row h now db \<longleftrightarrow>
     (case find_row tk_hash h (id_tokens db) of None \<Rightarrow> True | Some t \<Rightarrow> \<not> token_live now t)"

definition entries_end_by :: "int \<Rightarrow> hash \<Rightarrow> principal_cache \<Rightarrow> bool" where
  "entries_end_by T h c \<longleftrightarrow> dict_wf c \<and> (\<forall>e p. dget c h = Some (e, Some p) \<longrightarrow> e \<le> T)"

lemma entries_end_by_get: "entries_end_by T h c \<Longrightarrow> entries_end_by T h (fst (cache_get now k c))"
  using cache_get_sub(1) cache_get_sub(2) unfolding entries_end_by_def by blast

lemma entries_end_by_put:
  assumes "entries_end_by T h c" and "k \<noteq> h \<or> p = None"
  shows "entries_end_by T h (cache_put cfg now k p c)"
proof (cases "k = h")
  case True
  with assms have "dict_wf c" "p = None" by (simp_all add: entries_end_by_def)
  then have "dict_wf (cache_put cfg now k p c)"
    "dget (cache_put cfg now k p c) h = Some (now + cc_ttl cfg, None)"
    using cache_put_sub(1,3) True by auto
  then show ?thesis by (simp add: entries_end_by_def)
next
  case False
  from assms have wf: "dict_wf c" by (simp add: entries_end_by_def)
  have "dget c h = Some (e, Some q)" if "dget (cache_put cfg now k p c) h = Some (e, Some q)" for e q
    by (rule cache_put_sub(2) [OF wf that]) (use False in simp)
  with assms(1) cache_put_sub(1) [OF wf] show ?thesis unfolding entries_end_by_def by blast
qed

lemma dead_row_resolves_None:
  "dead_row h now db \<Longrightarrow> (case find_row tk_hash h (id_tokens db) of None \<Rightarrow> None
      | Some t \<Rightarrow> if token_live now t then Some (token_principal t db) else None) = None"
  by (cases "find_row tk_hash h (id_tokens db)") (simp_all add: dead_row_def)

lemma resolve_session_keeps:
  assumes inv: "entries_end_by T h c" and "session_key sha raw \<noteq> h"
  shows "entries_end_by T h (fst (resolve_session cfg sha clk now raw db c))"
proof -
  have "entries_end_by T h (fst (cache_get clk (session_key sha raw) c))" by (rule entries_end_by_get [OF inv])
  then show ?thesis
    using assms(2) unfolding resolve_session_def Let_def
    by (cases "cache_get clk (session_key sha raw) c") (auto split: option.split intro!: entries_end_by_put)
qed

lemma resolve_db_token_keeps:
  assumes inv: "entries_end_by T h c" and dead: "dead_row h now db"
  shows "entries_end_by T h (fst (resolve_db_token cfg sha clk now raw db c))"
proof -
  have get: "entries_end_by T h (fst (cache_get clk (sha raw) c))" by (rule entries_end_by_get [OF inv])
  have put: "entries_end_by T h (cache_put cfg clk (sha raw) (case find_row tk_hash (sha raw) (id_tokens db) of
      None \<Rightarrow> None | Some t \<Rightarrow> if token_live now t then Some (token_principal t db) else None)
      (fst (cache_get clk (sha raw) c)))"
    by (rule entries_end_by_put [OF get]) (use dead_row_resolves_None [OF dead] in blast)
  show ?thesis
    using get put unfolding resolve_db_token_def Let_def
    by (cases "cache_get clk (sha raw) c") (simp split: option.split)
qed

lemma lookups_keep:
  assumes "\<forall>x. \<not> startswith (sha x) ''session:''" and "h = sha raw"
  shows "entries_end_by T h c \<Longrightarrow> \<forall>l \<in> set ls. dead_row h (lk_now l) (lk_db l)
    \<Longrightarrow> entries_end_by T h (fold (do_lookup cfg sha) ls c)"
proof (induction ls arbitrary: c)
  case (Cons l ls)
  have "session_key sha x \<noteq> h" for x
    using assms startswith_append [of "''session:''"] by (metis session_key_def)
  with Cons.prems have "entries_end_by T h (do_lookup cfg sha l c)"
    by (simp add: do_lookup_def resolve_session_keeps resolve_db_token_keeps)
  with Cons show ?case by simp
qed simp

text \<open>
  C29. A revoked token stops working one cache lifetime after its revocation at the latest, whatever
  was cached before and whatever other tokens and sessions are looked up in between: if from the
  moment \<open>T\<close> on the token's row is revoked (or expired, or gone) in every database state the server
  reads, then no lookup at or after \<open>T + AV_AUTH_CACHE_TTL_SECS\<close> resolves it.
\<close>

theorem revoked_token_dies:
  assumes "\<forall>x. \<not> startswith (sha x) ''session:''"
    and "dict_wf c" and "\<forall>e p. dget c (sha raw) = Some (e, p) \<longrightarrow> e \<le> T + cc_ttl cfg"
    and "\<forall>l \<in> set ls. dead_row (sha raw) (lk_now l) (lk_db l)"
    and "dead_row (sha raw) now db" and "T + cc_ttl cfg \<le> clk"
  shows "snd (resolve_db_token cfg sha clk now raw db (fold (do_lookup cfg sha) ls c)) = None"
proof -
  let ?c = "fold (do_lookup cfg sha) ls c"
  have "entries_end_by (T + cc_ttl cfg) (sha raw) c"
    using assms(2,3) by (auto simp: entries_end_by_def)
  then have inv: "entries_end_by (T + cc_ttl cfg) (sha raw) ?c"
    using lookups_keep [OF assms(1) refl] assms(4) by blast
  show ?thesis
  proof (cases "snd (cache_get clk (sha raw) ?c)")
    case None
    then show ?thesis
      using dead_row_resolves_None [OF assms(5)] unfolding resolve_db_token_def Let_def
      by (cases "cache_get clk (sha raw) ?c") simp
  next
    case (Some p)
    then obtain e where "clk < e" "dget ?c (sha raw) = Some (e, p)" using cache_get_hit by blast
    with inv assms(6) have "p = None" by (cases p) (auto simp: entries_end_by_def)
    with Some show ?thesis
      unfolding resolve_db_token_def Let_def by (cases "cache_get clk (sha raw) ?c") simp
  qed
qed

section \<open>Scopes\<close>

text \<open>
  A resolved principal never carries an empty scope list (which the route guards would read as
  unrestricted), an explicit list only narrows what the roles give, and the permissions are those of
  roles bound inside the token's own tenant.
\<close>

lemma or_read_nonempty: "or_read xs \<noteq> []"
  by (simp add: or_read_def)

lemma token_scopes_narrow:
  "pr_scopes (token_principal t db) \<noteq> []
   \<and> (tk_scopes t \<noteq> None \<and> tk_scopes t \<noteq> Some [] \<longrightarrow>
        set (pr_scopes (token_principal t db)) \<subseteq> insert ''read'' (set (the (tk_scopes t))))"
  by (auto simp: token_principal_def Let_def or_read_nonempty or_read_def split: prod.split list.split option.split)

text \<open>A binding limited to one project grants its role in the whole tenant.\<close>

lemma project_binding_grants_everywhere:
  "permissions_for_subject tenant styp sid (db\<lparr>id_bindings := map (\<lambda>b. b\<lparr>bd_scope_type := x, bd_scope_id := y\<rparr>)
      (id_bindings db)\<rparr>) = permissions_for_subject tenant styp sid db"
proof -
  have "applies ms tenant styp sid (b\<lparr>bd_scope_type := x, bd_scope_id := y\<rparr>) = applies ms tenant styp sid b" for b ms
    by (simp add: applies_def)
  then show ?thesis by (simp add: permissions_for_subject_def Let_def filter_map comp_def)
qed

section \<open>Concrete runs\<close>

definition demo_token :: api_token where
  "demo_token = \<lparr>tk_id = ''t1'', tk_tenant = ''acme'', tk_user = None, tk_name = ''ci'', tk_hash = ''Hraw'',
     tk_prefix = ''raw'', tk_scopes = None, tk_expires = None, tk_last_used = None, tk_revoked = None,
     tk_created_by = None, tk_created = 0\<rparr>"

definition demo_identity :: "api_token list \<Rightarrow> identity_db" where
  "demo_identity ts = effects.extend empty_effects \<lparr>id_tokens = ts, id_sessions = [], id_users = [],
     id_roles = [], id_bindings = [], id_members = [], id_tenants = []\<rparr>"

definition demo_sha :: "string \<Rightarrow> hash" where
  "demo_sha x = CHR ''H'' # x"

definition demo_cache :: cache_config where
  "demo_cache = \<lparr>cc_ttl = 30, cc_max = 2\<rparr>"

text \<open>At 100 the token is live and cached, at 110 it is revoked, at 140 it is dead.\<close>

definition warm_cache :: principal_cache where
  "warm_cache = fst (resolve_db_token demo_cache demo_sha 100 0 ''raw'' (demo_identity [demo_token]) [])"

lemma revoked_token_dies_witness:
  "snd (resolve_db_token demo_cache demo_sha 105 0 ''raw'' (demo_identity [demo_token]) warm_cache) \<noteq> None
   \<and> snd (resolve_db_token demo_cache demo_sha 120 0 ''raw'' (demo_identity [demo_token\<lparr>tk_revoked := Some 0\<rparr>])
        warm_cache) \<noteq> None
   \<and> snd (resolve_db_token demo_cache demo_sha 140 0 ''raw'' (demo_identity [demo_token\<lparr>tk_revoked := Some 0\<rparr>])
        (fold (do_lookup demo_cache demo_sha)
          [\<lparr>lk_session = False, lk_clk = 120, lk_now = 0, lk_raw = ''raw'',
            lk_db = demo_identity [demo_token\<lparr>tk_revoked := Some 0\<rparr>]\<rparr>] warm_cache)) = None"
proof (intro conjI)
  show "snd (resolve_db_token demo_cache demo_sha 140 0 ''raw'' (demo_identity [demo_token\<lparr>tk_revoked := Some 0\<rparr>])
        (fold (do_lookup demo_cache demo_sha)
          [\<lparr>lk_session = False, lk_clk = 120, lk_now = 0, lk_raw = ''raw'',
            lk_db = demo_identity [demo_token\<lparr>tk_revoked := Some 0\<rparr>]\<rparr>] warm_cache)) = None"
  proof (rule revoked_token_dies [where T = 110])
    show "\<forall>x. \<not> startswith (demo_sha x) ''session:''" by (simp add: demo_sha_def startswith_def)
    show "dict_wf warm_cache" by code_simp
    show "\<forall>e p. dget warm_cache (demo_sha ''raw'') = Some (e, p) \<longrightarrow> e \<le> 110 + cc_ttl demo_cache"
      by (simp add: warm_cache_def resolve_db_token_def cache_get_def cache_put_def demo_cache_def Let_def)
  qed (simp_all add: dead_row_def demo_identity_def effects.extend_def demo_sha_def demo_token_def
      token_live_def demo_cache_def)
qed code_simp+

end
