(* ===== verification/Auth.thy ===== *)
theory Auth
  imports Identity
begin

text \<open>
  Request authentication and authorisation of \<open>server.py\<close>: the \<open>AV_AUTH_USERS\<close> map, the
  \<open>require_token\<close> middleware, the \<open>require_scope\<close> route guard, the sliding window of
  authentication failures and the tenancy guard \<open>_enforce_project_tenant\<close>.
\<close>

section \<open>Python's \<open>str\<close> of a JSON value\<close>

definition repr_char :: "char \<Rightarrow> char \<Rightarrow> string" where
  "repr_char q c =
     (if c = q \<or> c = CHR 0x5C then [CHR 0x5C, c]
      else if c = CHR 0x0A then [CHR 0x5C, CHR ''n'']
      else if c = CHR 0x0D then [CHR 0x5C, CHR ''r'']
      else if c = CHR 0x09 then [CHR 0x5C, CHR ''t'']
      else if 32 \<le> (of_char c :: nat) \<and> (of_char c :: nat) \<le> 126 then [c]
      else [CHR 0x5C, CHR ''x'', hex_char (of_char c div 16), hex_char (of_char c mod 16)])"

definition repr_str :: "string \<Rightarrow> string" where
  "repr_str s = (let q = (if CHR 0x27 \<in> set s \<and> CHR 0x22 \<notin> set s then CHR 0x22 else CHR 0x27)
                 in q # concat (map (repr_char q) s) @ [q])"

definition commas :: "string list \<Rightarrow> string" where
  "commas ps = (case ps of [] \<Rightarrow> [] | p # qs \<Rightarrow> p @ concat (map (\<lambda>q. '', '' @ q) qs))"

fun py_repr :: "json \<Rightarrow> string" where
  "py_repr JNull = ''None''"
| "py_repr (JBool b) = (if b then ''True'' else ''False'')"
| "py_repr (JInt i) = int_text i"
| "py_repr (JStr s) = repr_str s"
| "py_repr (JList js) = ''['' @ commas (map py_repr js) @ '']''"
| "py_repr (JObj fs) = [CHR 0x7B] @ commas (map (\<lambda>(k, j). repr_str k @ '': '' @ py_repr j) fs) @ [CHR 0x7D]"

fun py_str :: "json \<Rightarrow> string" where
  "py_str (JStr s) = s"
| "py_str j = py_repr j"

section \<open>The user map\<close>

record auth_entry =
  ae_token :: string
  ae_expires :: "string option"
  ae_scopes :: "string list option"

type_synonym auth_users = "(string, auth_entry) dict"

text \<open>One entry; \<open>None\<close> is the \<open>RuntimeError\<close> of an empty name or token.\<close>

definition parse_auth_entry :: "string \<Rightarrow> json \<Rightarrow> (string \<times> auth_entry) option" where
  "parse_auth_entry key val =
     (let name = strip key;
          tok = strip (py_str (case val of JObj fs \<Rightarrow> field fs ''token'' (JStr []) | _ \<Rightarrow> val));
          expires = (case val of
              JObj fs \<Rightarrow> (let e = field fs ''expires_at'' JNull in if truthy e then Some (strip (py_str e)) else None)
            | _ \<Rightarrow> None);
          scopes = (case val of
              JObj fs \<Rightarrow> (case field fs ''scopes'' JNull of
                  JList (s # ss) \<Rightarrow> Some (sort (remdups (filter (\<lambda>x. x \<noteq> []) (map (\<lambda>j. strip (py_str j)) (s # ss)))))
                | _ \<Rightarrow> None)
            | _ \<Rightarrow> None)
      in if name = [] \<or> tok = [] then None
         else Some (name, \<lparr>ae_token = tok, ae_expires = expires, ae_scopes = scopes\<rparr>))"

text \<open>
  \<open>raw\<close> is the variable, \<open>parse\<close> is \<open>json.loads\<close> (\<open>None\<close> where it raises); \<open>Inl ()\<close> is
  the \<open>RuntimeError\<close> that stops the server.
\<close>

fun parse_auth_entries :: "body \<Rightarrow> auth_users \<Rightarrow> unit + auth_users" where
  "parse_auth_entries [] users = Inr users"
| "parse_auth_entries ((k, v) # kvs) users =
     (case parse_auth_entry k v of None \<Rightarrow> Inl ()
      | Some (name, e) \<Rightarrow> parse_auth_entries kvs (dset users name e))"

definition parse_auth_users :: "(string \<Rightarrow> json option) \<Rightarrow> string option \<Rightarrow> unit + auth_users" where
  "parse_auth_users parse raw =
     (case raw of None \<Rightarrow> Inr []
      | Some r \<Rightarrow>
          if strip r = [] then Inr []
          else (case parse r of Some (JObj kvs) \<Rightarrow> parse_auth_entries kvs [] | _ \<Rightarrow> Inl ()))"

section \<open>Environment credentials\<close>

record auth_config =
  ac_api_token :: string
  ac_users :: auth_users
  ac_parse_iso :: "string \<Rightarrow> datetime option"
  ac_cache :: cache_config
  ac_sha :: "string \<Rightarrow> hash"
  ac_threshold :: nat
  ac_window :: int
  ac_max_keys :: nat
  ac_tenancy :: bool

definition is_expired :: "auth_config \<Rightarrow> datetime \<Rightarrow> string option \<Rightarrow> bool" where
  "is_expired cfg now expires =
     (case expires of None \<Rightarrow> False
      | Some e \<Rightarrow> if e = [] then False
                  else (case ac_parse_iso cfg e of None \<Rightarrow> False | Some t \<Rightarrow> t < now))"

text \<open>
  \<open>secrets.compare_digest\<close> refuses two texts one of which has a character outside ASCII; \<open>None\<close> is its
  \<open>TypeError\<close>, which nothing catches.
\<close>

definition is_ascii :: "string \<Rightarrow> bool" where
  "is_ascii s \<longleftrightarrow> list_all (\<lambda>c. (of_char c :: nat) < 128) s"

definition compare_digest :: "string \<Rightarrow> string \<Rightarrow> bool option" where
  "compare_digest a b = (if is_ascii a \<and> is_ascii b then Some (a = b) else None)"

text \<open>\<open>Inl ()\<close> is the \<open>TypeError\<close>.\<close>

fun resolve_user :: "auth_config \<Rightarrow> datetime \<Rightarrow> string \<Rightarrow> auth_users \<Rightarrow> unit + string option" where
  "resolve_user cfg now supplied [] = Inr None"
| "resolve_user cfg now supplied ((name, e) # us) =
     (case compare_digest supplied (ae_token e) of
        None \<Rightarrow> Inl ()
      | Some True \<Rightarrow> Inr (if is_expired cfg now (ae_expires e) then None else Some name)
      | Some False \<Rightarrow> resolve_user cfg now supplied us)"

definition resolve_identity :: "auth_config \<Rightarrow> datetime \<Rightarrow> string \<Rightarrow> unit + string option" where
  "resolve_identity cfg now supplied =
     (if ac_api_token cfg = [] then resolve_user cfg now supplied (ac_users cfg)
      else (case compare_digest supplied (ac_api_token cfg) of
              None \<Rightarrow> Inl ()
            | Some True \<Rightarrow> Inr (Some ''owner'')
            | Some False \<Rightarrow> resolve_user cfg now supplied (ac_users cfg)))"

definition scopes_for_identity :: "auth_config \<Rightarrow> string \<Rightarrow> string list" where
  "scopes_for_identity cfg username =
     (if username = ''owner'' then [''*'']
      else case (if username = [] then None else dget (ac_users cfg) username) of
          None \<Rightarrow> [''*'']
        | Some e \<Rightarrow> (case ae_scopes e of Some (s # ss) \<Rightarrow> s # ss | _ \<Rightarrow> [''*'']))"

section \<open>Authentication failures\<close>

record project_row =
  pj_id :: string
  pj_tenant :: string
  pj_name :: string
  pj_created :: datetime

record auth_db = identity_db +
  au_cache :: principal_cache
  au_window :: "(string, int list) dict"
  au_calls :: nat
  au_projects :: "project_row list"

definition PRUNE_EVERY :: nat where
  "PRUNE_EVERY = 256"

definition newest :: "int list \<Rightarrow> int" where
  "newest ts = (if ts = [] then 0 else last ts)"

definition prune_auth_failure_window ::
  "auth_config \<Rightarrow> int \<Rightarrow> (string, int list) dict \<Rightarrow> (string, int list) dict" where
  "prune_auth_failure_window cfg now w =
     (let live = filter (\<lambda>(_, ts). \<not> (ts = [] \<or> ac_window cfg \<le> now - last ts)) w
      in fold (\<lambda>k d. ddel d k)
           (map fst (take (length live - ac_max_keys cfg) (sort_key (\<lambda>(_, ts). newest ts) live))) live)"

definition note_auth_failure :: "auth_config \<Rightarrow> int \<Rightarrow> string \<Rightarrow> 'a auth_db_scheme \<Rightarrow> bool \<times> 'a auth_db_scheme" where
  "note_auth_failure cfg now key s =
     (let calls = Suc (au_calls s);
          w0 = (if calls mod PRUNE_EVERY = 0 \<or> ac_max_keys cfg < length (au_window s)
                then prune_auth_failure_window cfg now (au_window s) else au_window s);
          ts = filter (\<lambda>t. now - t < ac_window cfg) (dget_or w0 key []) @ [now]
      in if ac_threshold cfg \<le> length ts
         then (True, s\<lparr>au_calls := calls, au_window := ddel w0 key\<rparr>)
         else (False, s\<lparr>au_calls := calls, au_window := dset w0 key ts\<rparr>))"

text \<open>
  \<open>AV_AUTH_SPIKE_BACKEND=redis\<close>: the shared counter answers the count of this window, or \<open>None\<close>
  when the command fails; the counter is deleted when the threshold is reached.
\<close>

definition note_auth_failure_redis :: "auth_config \<Rightarrow> nat option \<Rightarrow> bool" where
  "note_auth_failure_redis cfg count =
     (case count of None \<Rightarrow> False | Some n \<Rightarrow> ac_threshold cfg \<le> n)"

definition emit_auth_spike_anomaly ::
  "auth_config \<Rightarrow> datetime \<Rightarrow> string \<Rightarrow> string \<Rightarrow> 'a effects_scheme \<Rightarrow> 'a effects_scheme" where
  "emit_auth_spike_anomaly cfg now identifier reason fx =
     emit_event now JNull ''anomaly''
       [(''type'', JStr ''auth_spike''), (''identifier'', JStr identifier), (''reason'', JStr reason),
        (''threshold'', JInt (int (ac_threshold cfg))), (''window_secs'', JInt (ac_window cfg div SECOND))] fx"

section \<open>The middleware\<close>

text \<open>
  \<open>Admit None\<close>: the request goes on with \<open>request.state\<close> untouched; \<open>Deny\<close>: the 401 response;
  \<open>Crash\<close>: an exception leaves the middleware, a 500.
  \<open>clk\<close> is the monotonic clock, \<open>now\<close> the wall clock.
\<close>

datatype gate = Admit "principal option" | Deny | Crash

definition AUTH_EXEMPT_PATHS :: "string list" where
  "AUTH_EXEMPT_PATHS = [''/api/health'', ''/api/ready'', ''/docs'', ''/openapi.json'', ''/redoc'']"

definition protected_mode :: "auth_config \<Rightarrow> bool" where
  "protected_mode cfg \<longleftrightarrow> ac_api_token cfg \<noteq> [] \<or> ac_users cfg \<noteq> []"

definition bearer :: "string \<Rightarrow> string option" where
  "bearer header =
     (case partition_on CHR '' '' header of (scheme, _, supplied) \<Rightarrow>
        if lower scheme = ''bearer'' \<and> supplied \<noteq> [] then Some supplied else None)"

definition deny_401 ::
  "auth_config \<Rightarrow> int \<Rightarrow> datetime \<Rightarrow> string \<Rightarrow> 'a auth_db_scheme \<Rightarrow> gate \<times> 'a auth_db_scheme" where
  "deny_401 cfg clk now host s =
     (case note_auth_failure cfg clk (''401:'' @ host) s of
        (True, s') \<Rightarrow> (Deny, emit_auth_spike_anomaly cfg now host ''unauthenticated'' s')
      | (False, s') \<Rightarrow> (Deny, s'))"

definition require_token ::
  "auth_config \<Rightarrow> int \<Rightarrow> datetime \<Rightarrow> string \<Rightarrow> string \<Rightarrow> string \<Rightarrow> 'a auth_db_scheme
   \<Rightarrow> gate \<times> 'a auth_db_scheme" where
  "require_token cfg clk now host header path s =
     (if path \<in> set AUTH_EXEMPT_PATHS then (Admit None, s)
      else case bearer header of
        None \<Rightarrow> if \<not> protected_mode cfg then (Admit None, s) else deny_401 cfg clk now host s
      | Some supplied \<Rightarrow>
          (case resolve_identity cfg now supplied of
             Inl _ \<Rightarrow> (Crash, s)
           | Inr (Some name) \<Rightarrow>
               (Admit (Some (env_principal name DEFAULT_TENANT_ID (scopes_for_identity cfg name))), s)
           | Inr None \<Rightarrow>
               (case resolve_db_token (ac_cache cfg) (ac_sha cfg) clk now supplied s (au_cache s) of
                  (c1, Some p) \<Rightarrow> (Admit (Some p), s\<lparr>au_cache := c1\<rparr>)
                | (c1, None) \<Rightarrow>
                    (case resolve_session (ac_cache cfg) (ac_sha cfg) clk now supplied s c1 of
                       (c2, Some p) \<Rightarrow> (Admit (Some p), s\<lparr>au_cache := c2\<rparr>)
                     | (c2, None) \<Rightarrow>
                         if protected_mode cfg then deny_401 cfg clk now host (s\<lparr>au_cache := c2\<rparr>)
                         else (Admit None, s\<lparr>au_cache := c2\<rparr>)))))"

definition principal_of :: "principal option \<Rightarrow> principal" where
  "principal_of p = (case p of None \<Rightarrow> anonymous_principal | Some q \<Rightarrow> q)"

section \<open>Route guards\<close>

text \<open>\<open>None\<close>: the caller may go on.\<close>

definition require_scope ::
  "auth_config \<Rightarrow> int \<Rightarrow> string \<Rightarrow> caller \<Rightarrow> 'a auth_db_scheme \<Rightarrow> reply option \<times> 'a auth_db_scheme" where
  "require_scope cfg clk scope cl s =
     (let scopes = (case cl_scopes cl of Some (x # xs) \<Rightarrow> x # xs | _ \<Rightarrow> [''*''])
      in if ''*'' \<in> set scopes \<or> scope \<in> set scopes then (None, s)
         else let who = (case cl_username cl of None \<Rightarrow> ''unknown'' | Some u \<Rightarrow> if u = [] then ''unknown'' else u);
                  s1 = note_audit (cl_username cl) ''scope.denied'' JNull
                         [(''required_scope'', JStr scope), (''path'', JStr (cl_path cl))] 403 s
              in (Some (Fail 403 (JObj [(''error'', JStr ''scope_denied''), (''required_scope'', JStr scope)])),
                  case note_auth_failure cfg clk (''403:'' @ who) s1 of
                    (True, s2) \<Rightarrow> emit_auth_spike_anomaly cfg (cl_now cl) who ''scope_denied'' s2
                  | (False, s2) \<Rightarrow> s2))"

text \<open>
  The tenancy guard. The arguments are the path and query parameter \<open>project_id\<close> and the parsed
  body, \<open>None\<close> where it is missing or not JSON; \<open>Inl\<close> is the refusal.
\<close>

definition is_write :: "string \<Rightarrow> bool" where
  "is_write m \<longleftrightarrow> m \<in> {''POST'', ''PUT'', ''PATCH'', ''DELETE''}"

definition target_project :: "string \<Rightarrow> string option \<Rightarrow> string option \<Rightarrow> json option \<Rightarrow> json" where
  "target_project m path_project query_project body =
     (let p = (case path_project of Some (c # cs) \<Rightarrow> Some (c # cs) | _ \<Rightarrow> query_project)
      in case p of
           Some q \<Rightarrow> JStr q
         | None \<Rightarrow>
             if m \<in> {''POST'', ''PUT'', ''PATCH''}
             then (case body of Some (JObj fs) \<Rightarrow> field fs ''project_id'' JNull | _ \<Rightarrow> JNull)
             else JNull)"

definition enforce_project_tenant ::
  "auth_config \<Rightarrow> principal \<Rightarrow> caller \<Rightarrow> string option \<Rightarrow> string option \<Rightarrow> json option
   \<Rightarrow> 'a auth_db_scheme \<Rightarrow> (reply + string option) \<times> 'a auth_db_scheme" where
  "enforce_project_tenant cfg p cl path_project query_project body s =
     (if \<not> ac_tenancy cfg then (Inr None, s)
      else case pr_tenant p of None \<Rightarrow> (Inr None, s)
      | Some t \<Rightarrow>
          (case target_project (cl_method cl) path_project query_project body of
             JStr (c # cs) \<Rightarrow>
               (case find_row pj_id (c # cs) (au_projects s) of
                  None \<Rightarrow> (Inr (Some (c # cs)), s\<lparr>au_projects := au_projects s @
                     [\<lparr>pj_id = c # cs, pj_tenant = t, pj_name = c # cs, pj_created = cl_now cl\<rparr>]\<rparr>)
                | Some row \<Rightarrow>
                    if pj_tenant row = t then (Inr (Some (c # cs)), s)
                    else let w = is_write (cl_method cl)
                         in (Inl (if w then Fail 403 (JObj [(''error'', JStr ''tenant_denied''),
                                                            (''project_id'', JStr (c # cs))])
                                  else Fail 404 (JStr ''Project not found'')),
                             note_audit (cl_username cl) ''tenant.denied'' (JStr (c # cs))
                               [(''reason'', JStr ''cross_tenant_project_id''), (''method'', JStr (cl_method cl))]
                               (if w then 403 else 404) s))
           | _ \<Rightarrow> (Inr None, s)))"

section \<open>Who is admitted\<close>










lemma resolve_identity_non_ascii:
  "protected_mode cfg \<Longrightarrow> \<not> is_ascii supplied \<Longrightarrow> resolve_identity cfg now supplied = Inl ()"
  by (cases "ac_users cfg") (auto simp: protected_mode_def resolve_identity_def compare_digest_def)





text \<open>A token with a character outside ASCII is answered with a 500, never with the 401.\<close>

lemma non_ascii_token_crashes:
  assumes "protected_mode cfg" and "path \<notin> set AUTH_EXEMPT_PATHS" and "bearer header = Some raw" and "\<not> is_ascii raw"
  shows "require_token cfg clk now host header path s = (Crash, s)"
  using assms resolve_identity_non_ascii[OF assms(1,4)] by (simp add: require_token_def)

section \<open>Projects and tenants\<close>

record guarded =
  gd_principal :: principal
  gd_caller :: caller
  gd_path :: "string option"
  gd_query :: "string option"
  gd_body :: "json option"

definition guard_step :: "auth_config \<Rightarrow> guarded \<Rightarrow> 'a auth_db_scheme \<Rightarrow> 'a auth_db_scheme" where
  "guard_step cfg g s =
     snd (enforce_project_tenant cfg (gd_principal g) (gd_caller g) (gd_path g) (gd_query g) (gd_body g) s)"

definition owner_of :: "string \<Rightarrow> 'a auth_db_scheme \<Rightarrow> string option" where
  "owner_of x s = map_option pj_tenant (find_row pj_id x (au_projects s))"

lemma note_audit_projects [simp]: "au_projects (note_audit u a p ds st s) = au_projects s"
  by (simp add: note_audit_def)

lemma owner_stable: "owner_of x s = Some t \<Longrightarrow> owner_of x (guard_step cfg g s) = Some t"
  by (auto simp: guard_step_def enforce_project_tenant_def owner_of_def find_row_append Let_def
      split: option.split json.split list.split)

lemma owner_stable_run: "owner_of x s = Some t \<Longrightarrow> owner_of x (fold (guard_step cfg) gs s) = Some t"
  by (induction gs arbitrary: s) (simp_all add: owner_stable)

lemma admitted_owner:
  assumes "fst (enforce_project_tenant cfg p cl pp qp b s) = Inr (Some x)"
  shows "x \<noteq> [] \<and> pr_tenant p \<noteq> None
    \<and> owner_of x (snd (enforce_project_tenant cfg p cl pp qp b s)) = pr_tenant p"
  using assms
  by (auto simp: enforce_project_tenant_def owner_of_def find_row_append Let_def
      split: option.splits json.splits list.splits if_splits)

lemma other_tenant_refused:
  assumes "ac_tenancy cfg" and "owner_of x s = Some t" and "x \<noteq> []" and "pr_tenant p = Some t'" and "t' \<noteq> t"
    and "target_project (cl_method cl) pp qp b = JStr x"
  shows "\<exists>j. fst (enforce_project_tenant cfg p cl pp qp b s) =
    Inl (Fail (if is_write (cl_method cl) then 403 else 404) j)"
  using assms
  by (cases x) (auto simp: enforce_project_tenant_def owner_of_def Let_def split: option.splits)

text \<open>
  C13. With tenancy enforced (\<open>TENANCY_ENFORCE\<close>, off by default), a project belongs to the tenant that
  first named it. Once the guard let a caller of a tenant through to a project, then after any sequence
  of further requests of any tenants, every request of another tenant that the guard sees to name this
  project (in the path, else the query parameter, else the body of a POST, PUT or PATCH) is refused: a
  write with 403, a read with 404. A request that hides the project from the guard behind an empty query
  parameter is not covered (\<open>empty_query_bypasses_guard\<close>), nor is a caller without a tenant.
\<close>

theorem project_stays_with_tenant:
  assumes "ac_tenancy cfg"
    and "fst (enforce_project_tenant cfg p cl pp qp b s) = Inr (Some x)"
    and "pr_tenant p' \<noteq> None" and "pr_tenant p' \<noteq> pr_tenant p"
    and "target_project (cl_method cl') pp' qp' b' = JStr x"
  shows "\<exists>j. fst (enforce_project_tenant cfg p' cl' pp' qp' b'
       (fold (guard_step cfg) gs (snd (enforce_project_tenant cfg p cl pp qp b s)))) =
     Inl (Fail (if is_write (cl_method cl') then 403 else 404) j)"
proof -
  from admitted_owner [OF assms(2)] obtain t where t: "pr_tenant p = Some t" "x \<noteq> []"
    "owner_of x (snd (enforce_project_tenant cfg p cl pp qp b s)) = Some t" by auto
  from assms(3,4) t(1) obtain t' where t': "pr_tenant p' = Some t'" "t' \<noteq> t" by auto
  show ?thesis
    by (rule other_tenant_refused [OF assms(1) owner_stable_run [OF t(3)] t(2) t' assms(5)])
qed

text \<open>
  An empty \<open>?project_id=\<close> query parameter hides the project of the body: the guard lets the request
  through without looking at it, whoever owns the project.
\<close>

lemma empty_query_bypasses_guard:
  "enforce_project_tenant cfg p cl None (Some []) (Some (JObj [(''project_id'', JStr x)])) s = (Inr None, s)"
  by (simp add: enforce_project_tenant_def target_project_def Let_def split: option.split)

section \<open>Authentication failures\<close>

text \<open>
  Below the threshold a failure is only recorded; the failure that reaches it raises the anomaly and
  empties the window of its key, so one burst raises one anomaly.
\<close>

lemma note_auth_failure_quiet:
  assumes "dget (au_window s) k = Some ts \<or> ts = [] \<and> dget (au_window s) k = None"
    and "\<forall>t \<in> set ts. now - t < ac_window cfg" and "Suc (length ts) < ac_threshold cfg"
    and "Suc (au_calls s) mod PRUNE_EVERY \<noteq> 0" and "length (au_window s) \<le> ac_max_keys cfg"
  shows "fst (note_auth_failure cfg now k s) = False
    \<and> dget (au_window (snd (note_auth_failure cfg now k s))) k = Some (ts @ [now])"
proof -
  have "dget_or (au_window s) k [] = ts" using assms(1) by (auto simp: dget_or_def)
  moreover have "filter (\<lambda>t. now - t < ac_window cfg) ts = ts" using assms(2) by (simp add: filter_id_conv)
  ultimately show ?thesis using assms(3-5) by (simp add: note_auth_failure_def Let_def)
qed

lemma note_auth_failure_trips:
  assumes "fst (note_auth_failure cfg now k s) = True"
  shows "dget (au_window (snd (note_auth_failure cfg now k s))) k = None"
  using assms unfolding note_auth_failure_def Let_def
  by (cases "ac_threshold cfg \<le> length (filter (\<lambda>t. now - t < ac_window cfg) (dget_or
      (if Suc (au_calls s) mod PRUNE_EVERY = 0 \<or> ac_max_keys cfg < length (au_window s)
       then prune_auth_failure_window cfg now (au_window s) else au_window s) k []) @ [now])") auto

section \<open>Configured scopes\<close>

text \<open>
  An entry of the user map whose scope list holds only blanks, or is not a list, is unrestricted, and
  a null token becomes the text None, which then is the user's token.
\<close>

lemma blank_scopes_unrestricted:
  "parse_auth_entry ''bob'' (JObj [(''token'', JStr ''t''), (''scopes'', JList [JStr '' ''])]) =
     Some (''bob'', \<lparr>ae_token = ''t'', ae_expires = None, ae_scopes = Some []\<rparr>)"
  "ac_users cfg = [(''bob'', \<lparr>ae_token = ''t'', ae_expires = None, ae_scopes = Some []\<rparr>)]
     \<Longrightarrow> scopes_for_identity cfg ''bob'' = [''*'']"
  by (code_simp, simp add: scopes_for_identity_def)

lemma null_token_is_None:
  "parse_auth_entry ''bob'' (JObj [(''token'', JNull)]) =
     Some (''bob'', \<lparr>ae_token = ''None'', ae_expires = None, ae_scopes = None\<rparr>)"
  by code_simp

section \<open>Concrete runs\<close>

definition demo_auth :: auth_config where
  "demo_auth = \<lparr>ac_api_token = ''key'', ac_users = [], ac_parse_iso = (\<lambda>_. None), ac_cache = demo_cache,
     ac_sha = demo_sha, ac_threshold = 5, ac_window = 60 * SECOND, ac_max_keys = 4096, ac_tenancy = True\<rparr>"

definition demo_auth_db :: auth_db where
  "demo_auth_db = identity_db.extend (demo_identity [demo_token])
     \<lparr>au_cache = [], au_window = [], au_calls = 0, au_projects = []\<rparr>"



definition tenant_principal :: "string \<Rightarrow> principal" where
  "tenant_principal t = \<lparr>pr_username = ''u'', pr_tenant = Some t, pr_method = ''session'',
     pr_scopes = [''*''], pr_roles = [], pr_user = None\<rparr>"

lemma project_stays_with_tenant_witness:
  "\<exists>j. fst (enforce_project_tenant demo_auth (tenant_principal ''evil'') demo_caller None None
        (Some (JObj [(''project_id'', JStr ''p'')]))
        (fold (guard_step demo_auth) [] (snd (enforce_project_tenant demo_auth (tenant_principal ''acme'')
           demo_caller (Some ''p'') None None demo_auth_db)))) = Inl (Fail 403 j)"
proof -
  have "\<exists>j. fst (enforce_project_tenant demo_auth (tenant_principal ''evil'') demo_caller None None
        (Some (JObj [(''project_id'', JStr ''p'')]))
        (fold (guard_step demo_auth) [] (snd (enforce_project_tenant demo_auth (tenant_principal ''acme'')
           demo_caller (Some ''p'') None None demo_auth_db)))) =
      Inl (Fail (if is_write (cl_method demo_caller) then 403 else 404) j)"
    by (rule project_stays_with_tenant [where x = "''p''"])
      (simp_all add: demo_auth_def tenant_principal_def enforce_project_tenant_def target_project_def
        demo_caller_def demo_auth_db_def identity_db.extend_def demo_identity_def effects.extend_def
        empty_effects_def field_def dget_or_def)
  then show ?thesis by (simp add: is_write_def demo_caller_def)
qed

end
