(* ===== verification/Runs.thy ===== *)
theory Runs
  imports Webhooks
begin

text \<open>
  Experiment runs: the handlers of \<open>server.py\<close> that register, link, finish, stop and list runs, the
  lineage walk and the paged metric series. A column that is filled from the request body without
  a check holds the body's JSON value. Where the database enforces foreign keys (\<open>fk\<close>), an unknown
  parent run is an \<open>IntegrityError\<close>, a 500.
\<close>

section \<open>Rows\<close>

record run_row =
  rn_id :: json
  rn_project :: json
  rn_name :: json
  rn_status :: string
  rn_kind :: string
  rn_improver :: json
  rn_parent :: json
  rn_created_by :: "string option"
  rn_config :: json
  rn_code :: json
  rn_env :: json
  rn_avh :: json
  rn_policy :: json
  rn_integrity :: json
  rn_plan :: json
  rn_budget :: json
  rn_stop :: json
  rn_metrics :: json
  rn_created :: datetime
  rn_completed :: "datetime option"
  rn_updated :: datetime

record run_commit =
  rc_run :: json
  rc_commit :: hash
  rc_created :: datetime

record runs_db = effects +
  rs_runs :: "run_row list"
  rs_links :: "run_commit list"

definition RUN_KINDS :: "string list" where
  "RUN_KINDS = [''train'', ''meta'', ''scoring'', ''eval'']"

definition run_kind :: "json \<Rightarrow> string" where
  "run_kind k = (case or_else k (JStr ''train'') of
     JStr s \<Rightarrow> if s \<in> set RUN_KINDS then s else ''train'' | _ \<Rightarrow> ''train'')"

definition create_run :: "bool \<Rightarrow> caller \<Rightarrow> body \<Rightarrow> 'a runs_db_scheme \<Rightarrow> reply \<times> 'a runs_db_scheme" where
  "create_run fk cl b s =
     (let i = chosen_id cl b; project = field b ''project_id'' JNull
      in if \<not> truthy project then (Fail 422 (JStr ''project_id is required''), s)
         else if has_row rn_id (rs_runs s) i
         then (Ok 200 (JObj [(''status'', JStr ''exists''), (''id'', i)]), s)
         else if fk \<and> field b ''parent_run_id'' JNull \<noteq> JNull
                 \<and> field b ''parent_run_id'' JNull \<noteq> i
                 \<and> \<not> has_row rn_id (rs_runs s) (field b ''parent_run_id'' JNull)
         then (Fail 500 (JStr ''IntegrityError''), s)
         else let kind = run_kind (field b ''kind'' JNull);
                  row = \<lparr>rn_id = i, rn_project = project, rn_name = field b ''name'' JNull,
                    rn_status = ''running'', rn_kind = kind, rn_improver = field b ''improver_id'' JNull,
                    rn_parent = field b ''parent_run_id'' JNull, rn_created_by = cl_username cl,
                    rn_config = field b ''config_hash'' JNull, rn_code = field b ''code_pointer'' JNull,
                    rn_env = field b ''env_snapshot_id'' JNull, rn_avh = JNull, rn_policy = JNull,
                    rn_integrity = JNull, rn_plan = JNull, rn_budget = JNull, rn_stop = JNull,
                    rn_metrics = JNull, rn_created = cl_now cl, rn_completed = None,
                    rn_updated = cl_now cl\<rparr>
              in (Ok 200 (JObj [(''status'', JStr ''created''), (''id'', i)]),
                  note_audit (cl_username cl) ''run.create'' project [(''run_id'', i), (''kind'', JStr kind)] 201
                    (emit_event (cl_now cl) project ''run''
                      [(''action'', JStr ''started''), (''run_id'', i), (''name'', field b ''name'' JNull),
                       (''kind'', JStr kind)]
                      (s\<lparr>rs_runs := rs_runs s @ [row]\<rparr>))))"

definition run_to_dict :: "run_row \<Rightarrow> body" where
  "run_to_dict r =
     [(''id'', rn_id r), (''project_id'', rn_project r), (''name'', rn_name r),
      (''status'', JStr (rn_status r)), (''kind'', JStr (rn_kind r)), (''improver_id'', rn_improver r),
      (''parent_run_id'', rn_parent r), (''created_by'', jopt (rn_created_by r)),
      (''code_pointer'', rn_code r), (''env_snapshot_id'', rn_env r), (''avh_object_id'', rn_avh r),
      (''policy_outcome'', rn_policy r), (''integrity_signals'', rn_integrity r),
      (''plan_id'', rn_plan r), (''budget_id'', rn_budget r), (''stop_reason'', rn_stop r),
      (''metrics_summary'', or_else (rn_metrics r) (JObj [])),
      (''created_at'', JStr (isoformat (rn_created r))), (''completed_at'', iso_opt (rn_completed r))]"

definition list_runs ::
  "string option \<Rightarrow> string option \<Rightarrow> string option \<Rightarrow> string option \<Rightarrow> nat \<Rightarrow> nat \<Rightarrow> 'a runs_db_scheme \<Rightarrow> reply" where
  "list_runs project status parent kind lim off s =
     (let rows = filter (\<lambda>r. matches project (rn_project r) \<and> matches status (JStr (rn_status r))
                     \<and> matches parent (rn_parent r) \<and> matches kind (JStr (rn_kind r))) (rs_runs s)
      in Ok 200 (JObj [(''runs'', JList (map (\<lambda>r. JObj (run_to_dict r)) (page lim off (newest_first rn_created rows)))),
           (''total'', JInt (int (length rows))), (''limit'', JInt (int lim)), (''offset'', JInt (int off))]))"

definition get_run :: "string \<Rightarrow> 'a runs_db_scheme \<Rightarrow> reply" where
  "get_run i s =
     (case find_row rn_id (JStr i) (rs_runs s) of
        None \<Rightarrow> Fail 404 (JStr ''Run not found'')
      | Some r \<Rightarrow> Ok 200 (JObj (run_to_dict r @
          [(''commit_hashes'', JList (map (\<lambda>c. JStr (rc_commit c))
             (filter (\<lambda>c. rc_run c = JStr i) (rs_links s))))])))"

section \<open>Lineage and metrics\<close>

definition fetch_run :: "'a runs_db_scheme \<Rightarrow> json \<Rightarrow> run_row option" where
  "fetch_run s i = find_row rn_id i (rs_runs s)"

definition parent_run :: "run_row \<Rightarrow> json option" where
  "parent_run r = (if truthy (rn_parent r) then Some (rn_parent r) else None)"

definition lineage_dict :: "run_row \<Rightarrow> json" where
  "lineage_dict r = JObj [(''id'', rn_id r), (''name'', rn_name r), (''status'', JStr (rn_status r)),
     (''project_id'', rn_project r), (''parent_run_id'', rn_parent r)]"

definition RUN_LINEAGE_MAX_DEPTH :: int where
  "RUN_LINEAGE_MAX_DEPTH = 500"

definition get_run_lineage :: "string \<Rightarrow> int \<Rightarrow> string option \<Rightarrow> 'a runs_db_scheme \<Rightarrow> reply" where
  "get_run_lineage i depth cursor s =
     (case fetch_run s (JStr i) of
        None \<Rightarrow> Fail 404 (JStr ''Run not found'')
      | Some r \<Rightarrow>
          if depth < 1 \<or> RUN_LINEAGE_MAX_DEPTH < depth
          then Fail 422 (JStr ''depth must be between 1 and 500'')
          else (case (case cursor of Some (c # cs) \<Rightarrow> fetch_run s (JStr (c # cs)) | _ \<Rightarrow> Some r) of
                  None \<Rightarrow> Fail 422 (JStr ''Invalid cursor: unknown run'')
                | Some node \<Rightarrow>
                    (case chain_page (fetch_run s) rn_id parent_run (nat depth) node of (chain, next_cursor) \<Rightarrow>
                       Ok 200 (JObj [(''run_id'', JStr i), (''lineage'', JList (map lineage_dict chain)),
                         (''next_cursor'', case next_cursor of None \<Rightarrow> JNull | Some c \<Rightarrow> c)]))))"

text \<open>
  The linked commits of a run in link order. \<open>commit_of\<close> is the join with the commits table: the
  fields of a point that come from the commit; a cursor is the pair of link time and commit hash (its base64 rendering is not modelled).
\<close>

definition RUN_METRICS_MAX_LIMIT :: int where
  "RUN_METRICS_MAX_LIMIT = 500"

definition after_cursor :: "(datetime \<times> hash) option \<Rightarrow> run_commit \<Rightarrow> bool" where
  "after_cursor cursor c \<longleftrightarrow>
     (case cursor of None \<Rightarrow> True
      | Some (t, h) \<Rightarrow> t < rc_created c \<or> rc_created c = t \<and> h < rc_commit c)"

definition run_metric_rows ::
  "(hash \<Rightarrow> body option) \<Rightarrow> json \<Rightarrow> (datetime \<times> hash) option \<Rightarrow> nat \<Rightarrow> 'a runs_db_scheme \<Rightarrow> run_commit list" where
  "run_metric_rows commit_of i cursor lim s =
     take lim (sort_key (\<lambda>c. (rc_created c, rc_commit c))
       (filter (\<lambda>c. rc_run c = i \<and> commit_of (rc_commit c) \<noteq> None \<and> after_cursor cursor c) (rs_links s)))"

definition get_run_metrics ::
  "(hash \<Rightarrow> body option) \<Rightarrow> (datetime \<times> hash \<Rightarrow> string) \<Rightarrow> string \<Rightarrow> int \<Rightarrow> (datetime \<times> hash) option
   \<Rightarrow> 'a runs_db_scheme \<Rightarrow> reply" where
  "get_run_metrics commit_of encode i lim cursor s =
     (case fetch_run s (JStr i) of
        None \<Rightarrow> Fail 404 (JStr ''Run not found'')
      | Some r \<Rightarrow>
          (let n = nat (max 1 (min lim RUN_METRICS_MAX_LIMIT));
               rows = run_metric_rows commit_of (JStr i) cursor n s
           in Ok 200 (JObj [(''run_id'', JStr i),
                (''points'', JList (map (\<lambda>c. JObj (the (commit_of (rc_commit c)) @
                    [(''linked_at'', JStr (isoformat (rc_created c)))])) rows)),
                (''limit'', JInt (int n)),
                (''next_cursor'', if length rows = n \<and> rows \<noteq> []
                   then JStr (encode (rc_created (last rows), rc_commit (last rows))) else JNull)])))"

section \<open>Updates\<close>

definition put_run :: "run_row \<Rightarrow> 'a runs_db_scheme \<Rightarrow> 'a runs_db_scheme" where
  "put_run r s = s\<lparr>rs_runs := upd_row rn_id (rn_id r) (\<lambda>_. r) (rs_runs s)\<rparr>"

definition on_run ::
  "string \<Rightarrow> (run_row \<Rightarrow> reply \<times> 'a runs_db_scheme) \<Rightarrow> 'a runs_db_scheme \<Rightarrow> reply \<times> 'a runs_db_scheme" where
  "on_run i f s = (case find_row rn_id (JStr i) (rs_runs s) of
     None \<Rightarrow> (Fail 404 (JStr ''Run not found''), s) | Some r \<Rightarrow> f r)"

definition set_run_policy_outcome :: "caller \<Rightarrow> string \<Rightarrow> body \<Rightarrow> 'a runs_db_scheme \<Rightarrow> reply \<times> 'a runs_db_scheme" where
  "set_run_policy_outcome cl i b s =
     (let d = field b ''decision'' JNull
      in if d \<notin> {JStr ''allow'', JStr ''deny''} then (Fail 422 (JStr ''decision must be allow or deny''), s)
         else on_run i (\<lambda>r.
           let outcome = [(''decision'', d), (''rule'', field b ''rule'' JNull), (''at'', JStr (isoformat (cl_now cl)))]
           in (Ok 200 (JObj [(''status'', JStr ''recorded''), (''run_id'', JStr i), (''policy_outcome'', JObj outcome)]),
               note_audit (cl_username cl) ''run.policy_outcome'' (rn_project r) ((''run_id'', JStr i) # outcome) 200
                 (put_run (r\<lparr>rn_policy := JObj outcome, rn_updated := cl_now cl\<rparr>) s))) s)"

definition set_run_integrity_signals ::
  "caller \<Rightarrow> string \<Rightarrow> body \<Rightarrow> 'a runs_db_scheme \<Rightarrow> reply \<times> 'a runs_db_scheme" where
  "set_run_integrity_signals cl i b s =
     (let sig = field b ''signals'' JNull
      in if \<not> is_obj sig then (Fail 422 (JStr ''signals must be a JSON object''), s)
         else on_run i (\<lambda>r.
           (Ok 200 (JObj [(''status'', JStr ''recorded''), (''run_id'', JStr i), (''integrity_signals'', sig)]),
            note_audit (cl_username cl) ''run.integrity_signals'' (rn_project r) [(''run_id'', JStr i)] 200
              (put_run (r\<lparr>rn_integrity := sig, rn_updated := cl_now cl\<rparr>) s))) s)"

text \<open>\<open>known_plan\<close> and \<open>known_budget\<close> are the lookups in the tables of those names.\<close>

definition link_run_plan ::
  "(json \<Rightarrow> bool) \<Rightarrow> caller \<Rightarrow> string \<Rightarrow> body \<Rightarrow> 'a runs_db_scheme \<Rightarrow> reply \<times> 'a runs_db_scheme" where
  "link_run_plan known_plan cl i b s =
     (let p = field b ''plan_id'' JNull
      in on_run i (\<lambda>r.
        if \<not> known_plan p then (Fail 422 (JStr ''Unknown plan''), s)
        else (Ok 200 (JObj [(''status'', JStr ''linked''), (''run_id'', JStr i), (''plan_id'', p)]),
              note_audit (cl_username cl) ''run.plan_attach'' (rn_project r)
                [(''run_id'', JStr i), (''plan_id'', p)] 200
                (put_run (r\<lparr>rn_plan := p, rn_updated := cl_now cl\<rparr>) s))) s)"

definition link_run_budget ::
  "(json \<Rightarrow> bool) \<Rightarrow> caller \<Rightarrow> string \<Rightarrow> body \<Rightarrow> 'a runs_db_scheme \<Rightarrow> reply \<times> 'a runs_db_scheme" where
  "link_run_budget known_budget cl i b s =
     (let p = field b ''budget_id'' JNull
      in on_run i (\<lambda>r.
        if \<not> known_budget p then (Fail 422 (JStr ''Unknown budget''), s)
        else (Ok 200 (JObj [(''status'', JStr ''linked''), (''run_id'', JStr i), (''budget_id'', p)]),
              note_audit (cl_username cl) ''run.budget_attach'' (rn_project r)
                [(''run_id'', JStr i), (''budget_id'', p)] 200
                (put_run (r\<lparr>rn_budget := p, rn_updated := cl_now cl\<rparr>) s))) s)"

definition link_run_avh ::
  "object_row list \<Rightarrow> caller \<Rightarrow> string \<Rightarrow> body \<Rightarrow> 'a runs_db_scheme \<Rightarrow> reply \<times> 'a runs_db_scheme" where
  "link_run_avh objects cl i b s =
     (case require_uploaded_object_id ''avh_object_id'' (field b ''avh_object_id'' JNull) of
        Inl r \<Rightarrow> (r, s)
      | Inr h \<Rightarrow> on_run i (\<lambda>r.
          if \<not> object_row_exists objects h (cl_cas_tenant cl)
          then (Fail 422 (JStr ''avh_object_id must reference an already-uploaded object''), s)
          else (Ok 200 (JObj [(''status'', JStr ''linked''), (''run_id'', JStr i), (''avh_object_id'', JStr h)]),
                note_audit (cl_username cl) ''run.avh_publish'' (rn_project r)
                  [(''run_id'', JStr i), (''avh_object_id'', JStr h)] 200
                  (put_run (r\<lparr>rn_avh := JStr h, rn_updated := cl_now cl\<rparr>) s))) s)"

text \<open>\<open>{**(old or {}), **new}\<close>; \<open>None\<close> is the \<open>TypeError\<close> of a value that is no mapping.\<close>

fun merge_metrics :: "json \<Rightarrow> json \<Rightarrow> json option" where
  "merge_metrics (JObj old) (JObj new) = Some (JObj (foldl (\<lambda>d (k, v). dset d k v) old new))"
| "merge_metrics old (JObj new) = (if truthy old then None else Some (JObj (foldl (\<lambda>d (k, v). dset d k v) [] new)))"
| "merge_metrics old new = None"

definition finish_run ::
  "caller \<Rightarrow> string \<Rightarrow> string \<Rightarrow> body \<Rightarrow> 'a runs_db_scheme \<Rightarrow> reply \<times> 'a runs_db_scheme" where
  "finish_run cl i status b s =
     on_run i (\<lambda>r.
       let new = field b ''metrics_summary'' JNull;
           metrics = (if truthy new then merge_metrics (rn_metrics r) new else Some (rn_metrics r))
       in case metrics of
            None \<Rightarrow> (Fail 500 (JStr ''TypeError''), s)
          | Some m \<Rightarrow>
              (Ok 200 (JObj [(''status'', JStr status), (''id'', JStr i)]),
               note_audit (cl_username cl) (''run.'' @ status) (rn_project r) [(''run_id'', JStr i)] 200
                 (emit_event (cl_now cl) (rn_project r) ''run''
                   [(''action'', JStr status), (''run_id'', JStr i)]
                   (put_run (r\<lparr>rn_status := status, rn_completed := Some (cl_now cl), rn_updated := cl_now cl,
                               rn_metrics := m\<rparr>) s)))) s"

definition complete_run :: "caller \<Rightarrow> string \<Rightarrow> body \<Rightarrow> 'a runs_db_scheme \<Rightarrow> reply \<times> 'a runs_db_scheme" where
  "complete_run cl i b s = finish_run cl i ''completed'' b s"

definition fail_run :: "caller \<Rightarrow> string \<Rightarrow> body \<Rightarrow> 'a runs_db_scheme \<Rightarrow> reply \<times> 'a runs_db_scheme" where
  "fail_run cl i b s = finish_run cl i ''failed'' b s"

definition stop_run :: "caller \<Rightarrow> string \<Rightarrow> body \<Rightarrow> 'a runs_db_scheme \<Rightarrow> reply \<times> 'a runs_db_scheme" where
  "stop_run cl i b s =
     (let reason = field b ''reason'' JNull
      in on_run i (\<lambda>r.
        (Ok 200 (JObj [(''status'', JStr ''stopped''), (''id'', JStr i), (''stop_reason'', reason)]),
         note_audit (cl_username cl) ''run.stopped'' (rn_project r) [(''run_id'', JStr i), (''reason'', reason)] 200
           (emit_event (cl_now cl) (rn_project r) ''run''
             [(''action'', JStr ''stopped''), (''run_id'', JStr i), (''reason'', reason)]
             (put_run (r\<lparr>rn_status := ''stopped'', rn_stop := reason, rn_completed := Some (cl_now cl),
                         rn_updated := cl_now cl\<rparr>) s)))) s)"

definition scheduler_queue :: "string option \<Rightarrow> nat \<Rightarrow> 'a runs_db_scheme \<Rightarrow> reply" where
  "scheduler_queue project lim s =
     Ok 200 (JObj [(''queue'', JList (map (\<lambda>r. JObj (run_to_dict r)) (take lim (sort_key rn_created
       (filter (\<lambda>r. rn_status r = ''running'' \<and> matches project (rn_project r)) (rs_runs s))))))])"

section \<open>The rows stay well-typed\<close>

text \<open>
  The states and kinds a row may have, unique ids, and completion times of ended runs only. No run
  route makes a row of state \<open>created\<close>: a push that names an unseen run does (\<open>Commits.thy\<close>), and the
  routes here keep such rows as they are.
\<close>

definition run_ok :: "run_row \<Rightarrow> bool" where
  "run_ok r \<longleftrightarrow> rn_kind r \<in> set RUN_KINDS
     \<and> rn_status r \<in> {''created'', ''running'', ''completed'', ''failed'', ''stopped''}
     \<and> (rn_completed r = None \<longleftrightarrow> rn_status r \<in> {''created'', ''running''})
     \<and> truthy (rn_project r)"

definition runs_ok :: "'a runs_db_scheme \<Rightarrow> bool" where
  "runs_ok s \<longleftrightarrow> distinct (map rn_id (rs_runs s)) \<and> (\<forall>r \<in> set (rs_runs s). run_ok r)"

inductive run_step :: "'a runs_db_scheme \<Rightarrow> 'a runs_db_scheme \<Rightarrow> bool" where
  create: "run_step s (snd (create_run fk cl b s))"
| policy: "run_step s (snd (set_run_policy_outcome cl i b s))"
| signals: "run_step s (snd (set_run_integrity_signals cl i b s))"
| plan: "run_step s (snd (link_run_plan kp cl i b s))"
| budget: "run_step s (snd (link_run_budget kb cl i b s))"
| avh: "run_step s (snd (link_run_avh objs cl i b s))"
| complete: "run_step s (snd (complete_run cl i b s))"
| fail: "run_step s (snd (fail_run cl i b s))"
| stop: "run_step s (snd (stop_run cl i b s))"

lemma runs_frame [simp]:
  "rs_runs (note_audit u a p ds st s) = rs_runs s" "rs_runs (emit_event now p k pl s) = rs_runs s"
  "rs_runs (put_run r s) = upd_row rn_id (rn_id r) (\<lambda>_. r) (rs_runs s)"
  by (simp_all add: note_audit_def emit_event_def put_run_def Let_def)

lemma run_kind_ok: "run_kind k \<in> set RUN_KINDS"
  by (simp add: run_kind_def RUN_KINDS_def split: json.split)

lemma runs_ok_upd:
  assumes "runs_ok s" and "r \<in> set (rs_runs s)" and "run_ok r'" and "rn_id r' = rn_id r"
    and "rs_runs s' = upd_row rn_id (rn_id r) (\<lambda>_. r') (rs_runs s)"
  shows "runs_ok s'"
proof -
  have "map rn_id (upd_row rn_id (rn_id r) (\<lambda>_. r') (rs_runs s)) = map rn_id (rs_runs s)"
    using assms(4) by (simp add: upd_row_def)
  moreover have "set (upd_row rn_id (rn_id r) (\<lambda>_. r') (rs_runs s)) \<subseteq> insert r' (set (rs_runs s))"
    by (auto simp: upd_row_def)
  ultimately show ?thesis using assms by (auto simp: runs_ok_def)
qed

definition writes_run :: "'a runs_db_scheme \<Rightarrow> run_row \<Rightarrow> reply \<times> 'a runs_db_scheme \<Rightarrow> bool" where
  "writes_run s r x \<longleftrightarrow> snd x = s \<or> (\<exists>r'. run_ok r' \<and> rn_id r' = rn_id r
     \<and> rs_runs (snd x) = upd_row rn_id (rn_id r) (\<lambda>_. r') (rs_runs s))"

lemma writes_run_intros:
  "writes_run s r (rep, s)"
  "run_ok r' \<Longrightarrow> rn_id r' = rn_id r \<Longrightarrow> writes_run s r (rep, note_audit u a p ds st (put_run r' s))"
  "run_ok r' \<Longrightarrow> rn_id r' = rn_id r \<Longrightarrow>
     writes_run s r (rep, note_audit u a p ds st (emit_event now q k pl (put_run r' s)))"
  by (auto simp: writes_run_def)

lemma run_ok_fields [simp]:
  "run_ok (r\<lparr>rn_policy := x, rn_updated := t\<rparr>) = run_ok r"
  "run_ok (r\<lparr>rn_integrity := x, rn_updated := t\<rparr>) = run_ok r"
  "run_ok (r\<lparr>rn_plan := x, rn_updated := t\<rparr>) = run_ok r"
  "run_ok (r\<lparr>rn_budget := x, rn_updated := t\<rparr>) = run_ok r"
  "run_ok (r\<lparr>rn_avh := x, rn_updated := t\<rparr>) = run_ok r"
  by (simp_all add: run_ok_def)

lemma run_ok_ended:
  "run_ok r \<Longrightarrow> st \<in> {''completed'', ''failed'', ''stopped''} \<Longrightarrow>
     run_ok (r\<lparr>rn_status := st, rn_completed := Some t, rn_updated := t, rn_metrics := m\<rparr>)"
  "run_ok r \<Longrightarrow> st \<in> {''completed'', ''failed'', ''stopped''} \<Longrightarrow>
     run_ok (r\<lparr>rn_status := st, rn_completed := Some t, rn_updated := t\<rparr>)"
  "run_ok r \<Longrightarrow> run_ok (r\<lparr>rn_status := ''stopped'', rn_stop := x, rn_completed := Some t, rn_updated := t\<rparr>)"
  by (auto simp: run_ok_def)

lemma on_run_ok:
  assumes "runs_ok s" and "\<And>r. run_ok r \<Longrightarrow> writes_run s r (f r)"
  shows "runs_ok (snd (on_run i f s))"
proof (cases "find_row rn_id (JStr i) (rs_runs s)")
  case (Some r)
  then have r: "r \<in> set (rs_runs s)" by (auto dest: find_row_SomeD)
  with assms(1) have "run_ok r" by (simp add: runs_ok_def)
  from assms(2) [OF this] show ?thesis
    using Some assms(1) runs_ok_upd [OF assms(1) r] by (auto simp: on_run_def writes_run_def)
qed (simp add: on_run_def assms(1))

lemma create_run_ok: "runs_ok s \<Longrightarrow> runs_ok (snd (create_run fk cl b s))"
  using run_kind_ok
  by (auto simp: create_run_def runs_ok_def run_ok_def has_row_def find_row_None_iff Let_def)

lemma finish_run_ok:
  assumes "runs_ok s" and "status \<in> {''completed'', ''failed'', ''stopped''}"
  shows "runs_ok (snd (finish_run cl i status b s))"
  unfolding finish_run_def Let_def
  by (rule on_run_ok [OF assms(1)])
    (use assms(2) in \<open>simp split: option.split add: writes_run_intros run_ok_ended\<close>)

lemma run_updates_ok:
  assumes "runs_ok s"
  shows "runs_ok (snd (set_run_policy_outcome cl i b s))"
    and "runs_ok (snd (set_run_integrity_signals cl i b s))"
    and "runs_ok (snd (link_run_plan kp cl i b s))"
    and "runs_ok (snd (link_run_budget kb cl i b s))"
    and "runs_ok (snd (link_run_avh objs cl i b s))"
    and "runs_ok (snd (stop_run cl i b s))"
  by (simp_all add: assms set_run_policy_outcome_def set_run_integrity_signals_def link_run_plan_def
      link_run_budget_def link_run_avh_def stop_run_def Let_def on_run_ok writes_run_intros run_ok_ended
      split: sum.split)

lemma run_step_ok: "run_step s s' \<Longrightarrow> runs_ok s \<Longrightarrow> runs_ok s'"
  by (induction rule: run_step.induct)
    (simp_all add: create_run_ok run_updates_ok finish_run_ok complete_run_def fail_run_def)

section \<open>Lineage\<close>

interpretation run_chain: keyed_rows "fetch_run s" rn_id parent_run for s
  by unfold_locales (auto simp: fetch_run_def dest: find_row_SomeD)

text \<open>
  C31. When the parent chain of a run ends (reaches a run without a parent or with an unknown one), its
  paged lineage terminates and is complete: a client that follows \<open>next_cursor\<close> with any page
  depth gets, after at most as many pages as the chain has runs, the whole chain from the run to
  the root, in order, every run once. A chain that does not end is excluded: parents are set from the
  request without a check, and on a cycle the pages never end (\<open>cyclic_lineage_never_ends\<close>).
\<close>

theorem lineage_pages_complete:
  assumes "fetch_run s i = Some r" and "climb (fetch_run s) parent_run n r = Some rs"
    and "0 < depth" and "length rs \<le> m"
  shows "all_pages (fetch_run s) rn_id parent_run depth m r = Some rs \<and> distinct (map rn_id rs)"
proof -
  have self: "fetch_run s (rn_id r) = Some r" using assms(1) run_chain.fetch_key [OF assms(1)] by simp
  show ?thesis
    using run_chain.pages_list_chain [OF assms(2) self assms(3,4)] run_chain.climb_distinct [OF assms(2) self]
    by blast
qed

text \<open>
  On a cycle of parents the guard of one page does not help across pages: with a page depth below
  the length of the cycle every page has a cursor, and following them never ends.
\<close>

lemma cyclic_lineage_never_ends:
  assumes "fetch_run s i = Some a" and "fetch_run s j = Some b" and "i \<noteq> j"
    and "parent_run a = Some j" and "parent_run b = Some i"
  shows "all_pages (fetch_run s) rn_id parent_run 1 m a = None
    \<and> all_pages (fetch_run s) rn_id parent_run 1 m b = None"
proof -
  have "rn_id a = i" "rn_id b = j" using assms(1,2) run_chain.fetch_key by auto
  then show ?thesis using assms by (induction m) (simp_all add: chain_page_def)
qed

section \<open>Repeated creation\<close>

definition create_run_req :: "bool \<times> caller \<Rightarrow> body \<Rightarrow> runs_db \<Rightarrow> reply \<times> runs_db" where
  "create_run_req rq b s = create_run (fst rq) (snd rq) b s"

lemma create_run_cases:
  "snd (create_run fk cl b s) = s \<or> \<not> has_row rn_id (rs_runs s) (chosen_id cl b)
     \<and> (\<exists>row. rn_id row = chosen_id cl b \<and> rs_runs (snd (create_run fk cl b s)) = rs_runs s @ [row])"
  by (auto simp: create_run_def Let_def)

interpretation run_create: idempotent_create create_run_req "\<lambda>s i. has_row rn_id (rs_runs s) i"
proof unfold_locales
  fix b :: body and s :: runs_db and i :: json and rq :: "bool \<times> caller"
  note cases = create_run_cases [of "fst rq" "snd rq" b s]
  show "truthy (client_id b) \<Longrightarrow> has_row rn_id (rs_runs s) (client_id b) \<Longrightarrow> snd (create_run_req rq b s) = s"
    using cases by (auto simp: create_run_req_def)
  show "has_row rn_id (rs_runs s) i \<Longrightarrow> has_row rn_id (rs_runs (snd (create_run_req rq b s))) i"
    using cases by (auto simp: create_run_req_def)
  show "truthy (client_id b) \<Longrightarrow> snd (create_run_req rq b s) \<noteq> s \<Longrightarrow>
      has_row rn_id (rs_runs (snd (create_run_req rq b s))) (client_id b)"
    using cases by (auto simp: create_run_req_def)
qed

section \<open>Concrete runs\<close>

definition demo_runs :: runs_db where
  "demo_runs = effects.extend empty_effects \<lparr>rs_runs = [], rs_links = []\<rparr>"

definition run_body :: "string \<Rightarrow> json \<Rightarrow> body" where
  "run_body i p = [(''id'', JStr i), (''project_id'', JStr ''p''), (''kind'', JStr ''odd''), (''parent_run_id'', p)]"

definition demo_runs2 :: runs_db where
  "demo_runs2 = snd (create_run False demo_caller (run_body ''b'' (JStr ''a''))
     (snd (create_run False demo_caller (run_body ''a'' JNull) demo_runs)))"

lemma lineage_pages_complete_witness:
  "\<exists>r rs. fetch_run demo_runs2 (JStr ''b'') = Some r
     \<and> all_pages (fetch_run demo_runs2) rn_id parent_run 1 2 r = Some rs \<and> map rn_id rs = [JStr ''b'', JStr ''a'']"
proof -
  have ids: "map_option (\<lambda>r. map_option (map rn_id) (climb (fetch_run demo_runs2) parent_run 2 r))
      (fetch_run demo_runs2 (JStr ''b'')) = Some (Some [JStr ''b'', JStr ''a''])"
    by code_simp
  then obtain r rs where r: "fetch_run demo_runs2 (JStr ''b'') = Some r"
    and rs: "climb (fetch_run demo_runs2) parent_run 2 r = Some rs" "map rn_id rs = [JStr ''b'', JStr ''a'']"
    by auto
  from rs(2) have "length rs = 2" by (metis length_map length_Cons list.size(3) numeral_2_eq_2)
  then have "all_pages (fetch_run demo_runs2) rn_id parent_run 1 2 r = Some rs"
    using lineage_pages_complete [OF r rs(1), of 1 2] by simp
  with r rs(2) show ?thesis by (intro exI conjI)
qed

end
