(* ===== verification/Improver.thy ===== *)
theory Improver
  imports Webhooks
begin

text \<open>
  The improver registry of \<open>server.py\<close>: improver versions and their lineage, change sets and their
  life cycle, the append-only chain of policy packs, canary results and the project freeze. Every
  artifact row points at an object that was uploaded before; the table of object rows is an
  argument.
\<close>

section \<open>Rows\<close>

record improver_row =
  im_id :: json
  im_project :: json
  im_manifest :: hash
  im_parent :: json
  im_created_by :: "string option"
  im_created :: datetime

record change_set =
  cs_id :: json
  cs_project :: json
  cs_improver :: json
  cs_object :: hash
  cs_state :: string
  cs_risk :: json
  cs_created_by :: "string option"
  cs_created :: datetime
  cs_updated :: datetime

record policy_pack =
  pp_id :: json
  pp_project :: json
  pp_object :: hash
  pp_prev :: json
  pp_chain :: hash
  pp_published_by :: "string option"
  pp_created :: datetime

record canary_row =
  ca_id :: nat
  ca_project :: json
  ca_improver :: json
  ca_suite :: hash
  ca_passed :: bool
  ca_details :: json
  ca_run :: json
  ca_created :: datetime

record freeze_row =
  fz_project :: string
  fz_frozen :: bool
  fz_reason :: json
  fz_by :: "string option"
  fz_at :: "datetime option"
  fz_updated :: datetime

record improver_db = effects +
  ip_objects :: "object_row list"
  ip_improvers :: "improver_row list"
  ip_changes :: "change_set list"
  ip_packs :: "policy_pack list"
  ip_canaries :: "canary_row list"
  ip_next_canary :: nat
  ip_freezes :: "freeze_row list"

section \<open>Improver versions\<close>

definition create_improver_version ::
  "caller \<Rightarrow> body \<Rightarrow> 'a improver_db_scheme \<Rightarrow> reply \<times> 'a improver_db_scheme" where
  "create_improver_version cl b s =
     (let i = chosen_id cl b; project = field b ''project_id'' JNull; parent = field b ''parent_id'' JNull
      in if \<not> truthy project then (Fail 422 (JStr ''project_id is required''), s)
         else case require_uploaded_object_id ''manifest_object_id'' (field b ''manifest_object_id'' JNull) of
           Inl r \<Rightarrow> (r, s)
         | Inr h \<Rightarrow>
             if has_row im_id (ip_improvers s) i
             then (Ok 200 (JObj [(''status'', JStr ''exists''), (''id'', i)]), s)
             else if \<not> object_row_exists (ip_objects s) h (cl_cas_tenant cl)
             then (Fail 422 (JStr ''manifest_object_id must reference an already-uploaded object''), s)
             else (Ok 200 (JObj [(''status'', JStr ''created''), (''id'', i)]),
                   note_audit (cl_username cl) ''improver.register'' project
                     [(''improver_id'', i), (''parent_id'', parent)] 201
                     (emit_event (cl_now cl) project ''improver''
                       [(''action'', JStr ''registered''), (''improver_id'', i), (''parent_id'', parent)]
                       (s\<lparr>ip_improvers := ip_improvers s @
                          [\<lparr>im_id = i, im_project = project, im_manifest = h, im_parent = parent,
                           im_created_by = cl_username cl, im_created = cl_now cl\<rparr>]\<rparr>))))"

definition improver_to_dict :: "improver_row \<Rightarrow> json" where
  "improver_to_dict r =
     JObj [(''id'', im_id r), (''project_id'', im_project r), (''manifest_object_id'', JStr (im_manifest r)),
       (''parent_id'', im_parent r), (''created_by'', jopt (im_created_by r)),
       (''created_at'', JStr (isoformat (im_created r)))]"

definition list_improver_versions :: "string option \<Rightarrow> nat \<Rightarrow> nat \<Rightarrow> 'a improver_db_scheme \<Rightarrow> reply" where
  "list_improver_versions project lim off s =
     listing ''improvers'' improver_to_dict im_created lim off
       (filter (\<lambda>r. matches project (im_project r)) (ip_improvers s))"

definition fetch_improver :: "'a improver_db_scheme \<Rightarrow> json \<Rightarrow> improver_row option" where
  "fetch_improver s i = find_row im_id i (ip_improvers s)"

definition get_improver_version :: "string \<Rightarrow> 'a improver_db_scheme \<Rightarrow> reply" where
  "get_improver_version i s =
     (case fetch_improver s (JStr i) of
        None \<Rightarrow> Fail 404 (JStr ''Improver version not found'') | Some r \<Rightarrow> Ok 200 (improver_to_dict r))"

definition parent_improver :: "improver_row \<Rightarrow> json option" where
  "parent_improver r = (if truthy (im_parent r) then Some (im_parent r) else None)"

definition IMPROVER_LINEAGE_MAX_DEPTH :: int where
  "IMPROVER_LINEAGE_MAX_DEPTH = 500"

definition get_improver_lineage :: "string \<Rightarrow> int \<Rightarrow> string option \<Rightarrow> 'a improver_db_scheme \<Rightarrow> reply" where
  "get_improver_lineage i depth cursor s =
     (case fetch_improver s (JStr i) of
        None \<Rightarrow> Fail 404 (JStr ''Improver version not found'')
      | Some r \<Rightarrow>
          if depth < 1 \<or> IMPROVER_LINEAGE_MAX_DEPTH < depth
          then Fail 422 (JStr ''depth must be between 1 and 500'')
          else (case (case cursor of Some (c # cs) \<Rightarrow> fetch_improver s (JStr (c # cs)) | _ \<Rightarrow> Some r) of
                  None \<Rightarrow> Fail 422 (JStr ''Invalid cursor: unknown improver'')
                | Some node \<Rightarrow>
                    (case chain_page (fetch_improver s) im_id parent_improver (nat depth) node of
                       (chain, next_cursor) \<Rightarrow>
                         Ok 200 (JObj [(''improver_id'', JStr i), (''lineage'', JList (map improver_to_dict chain)),
                           (''next_cursor'', case next_cursor of None \<Rightarrow> JNull | Some c \<Rightarrow> c)]))))"

section \<open>Change sets\<close>

definition create_change_set ::
  "caller \<Rightarrow> body \<Rightarrow> 'a improver_db_scheme \<Rightarrow> reply \<times> 'a improver_db_scheme" where
  "create_change_set cl b s =
     (let i = chosen_id cl b; project = field b ''project_id'' JNull; risk = field b ''risk'' JNull
      in if \<not> truthy project then (Fail 422 (JStr ''project_id is required''), s)
         else case require_uploaded_object_id ''object_id'' (field b ''object_id'' JNull) of
           Inl r \<Rightarrow> (r, s)
         | Inr h \<Rightarrow>
             if has_row cs_id (ip_changes s) i
             then (Ok 200 (JObj [(''status'', JStr ''exists''), (''id'', i)]), s)
             else if \<not> object_row_exists (ip_objects s) h (cl_cas_tenant cl)
             then (Fail 422 (JStr ''object_id must reference an already-uploaded object''), s)
             else if risk \<notin> {JNull, JStr ''low'', JStr ''medium'', JStr ''high''}
             then (Fail 422 (JStr ''risk must be one of low/medium/high''), s)
             else (Ok 200 (JObj [(''status'', JStr ''created''), (''id'', i)]),
                   note_audit (cl_username cl) ''improver.propose'' project
                     [(''change_set_id'', i), (''risk'', risk)] 201
                     (emit_event (cl_now cl) project ''change_set''
                       [(''action'', JStr ''proposed''), (''change_set_id'', i), (''risk'', risk)]
                       (s\<lparr>ip_changes := ip_changes s @
                          [\<lparr>cs_id = i, cs_project = project, cs_improver = field b ''improver_id'' JNull,
                           cs_object = h, cs_state = ''proposed'', cs_risk = risk,
                           cs_created_by = cl_username cl, cs_created = cl_now cl, cs_updated = cl_now cl\<rparr>]\<rparr>))))"

definition change_set_to_dict :: "change_set \<Rightarrow> json" where
  "change_set_to_dict r =
     JObj [(''id'', cs_id r), (''project_id'', cs_project r), (''improver_id'', cs_improver r),
       (''object_id'', JStr (cs_object r)), (''status'', JStr (cs_state r)), (''risk'', cs_risk r),
       (''created_by'', jopt (cs_created_by r)), (''created_at'', JStr (isoformat (cs_created r))),
       (''updated_at'', JStr (isoformat (cs_updated r)))]"

definition list_change_sets ::
  "string option \<Rightarrow> string option \<Rightarrow> string option \<Rightarrow> nat \<Rightarrow> nat \<Rightarrow> 'a improver_db_scheme \<Rightarrow> reply" where
  "list_change_sets project status improver lim off s =
     listing ''change_sets'' change_set_to_dict cs_created lim off
       (filter (\<lambda>r. matches project (cs_project r) \<and> matches status (JStr (cs_state r))
          \<and> matches improver (cs_improver r)) (ip_changes s))"

definition get_change_set :: "string \<Rightarrow> 'a improver_db_scheme \<Rightarrow> reply" where
  "get_change_set i s =
     (case find_row cs_id (JStr i) (ip_changes s) of
        None \<Rightarrow> Fail 404 (JStr ''Change set not found'') | Some r \<Rightarrow> Ok 200 (change_set_to_dict r))"

definition CHANGE_SET_TRANSITIONS :: "(string \<times> string list) list" where
  "CHANGE_SET_TRANSITIONS =
     [(''proposed'', [''approved'', ''rejected'']), (''approved'', [''applied'', ''rejected'']),
      (''applied'', [''rolled_back'']), (''rejected'', []), (''rolled_back'', [])]"

definition update_change_set_status ::
  "caller \<Rightarrow> string \<Rightarrow> body \<Rightarrow> 'a improver_db_scheme \<Rightarrow> reply \<times> 'a improver_db_scheme" where
  "update_change_set_status cl i b s =
     (case find_row cs_id (JStr i) (ip_changes s) of
        None \<Rightarrow> (Fail 404 (JStr ''Change set not found''), s)
      | Some r \<Rightarrow>
          (case field b ''status'' JNull of
             JStr new \<Rightarrow>
               if new \<notin> set (dget_or CHANGE_SET_TRANSITIONS (cs_state r) [])
               then (Fail 422 (JStr ''Cannot transition change set''), s)
               else (Ok 200 (JObj [(''status'', JStr ''updated''), (''id'', JStr i), (''new_status'', JStr new)]),
                     note_audit (cl_username cl) (''improver.'' @ new) (cs_project r)
                       [(''change_set_id'', JStr i)] 200
                       (emit_event (cl_now cl) (cs_project r) ''change_set''
                         [(''action'', JStr new), (''change_set_id'', JStr i)]
                         (s\<lparr>ip_changes := upd_row cs_id (JStr i)
                            (\<lambda>r. r\<lparr>cs_state := new, cs_updated := cl_now cl\<rparr>) (ip_changes s)\<rparr>)))
           | JList _ \<Rightarrow> (Fail 500 (JStr ''TypeError''), s)
           | JObj _ \<Rightarrow> (Fail 500 (JStr ''TypeError''), s)
           | _ \<Rightarrow> (Fail 422 (JStr ''Cannot transition change set''), s)))"

section \<open>Policy packs\<close>

text \<open>\<open>f"{prev_id or ''}:{object_id}"\<close> under SHA-256; a previous id is a known pack, hence a text.\<close>

definition pack_chain :: "(string \<Rightarrow> hash) \<Rightarrow> json \<Rightarrow> hash \<Rightarrow> hash" where
  "pack_chain sha prev object = sha ((case text_col prev of None \<Rightarrow> [] | Some p \<Rightarrow> p) @ '':'' @ object)"

definition create_policy_pack ::
  "(string \<Rightarrow> hash) \<Rightarrow> caller \<Rightarrow> body \<Rightarrow> 'a improver_db_scheme \<Rightarrow> reply \<times> 'a improver_db_scheme" where
  "create_policy_pack sha cl b s =
     (let i = chosen_id cl b; project = field b ''project_id'' JNull; prev = field b ''prev_id'' JNull
      in if \<not> truthy project then (Fail 422 (JStr ''project_id is required''), s)
         else case require_uploaded_object_id ''object_id'' (field b ''object_id'' JNull) of
           Inl r \<Rightarrow> (r, s)
         | Inr h \<Rightarrow>
             if has_row pp_id (ip_packs s) i
             then (Ok 200 (JObj [(''status'', JStr ''exists''), (''id'', i)]), s)
             else if \<not> object_row_exists (ip_objects s) h (cl_cas_tenant cl)
             then (Fail 422 (JStr ''object_id must reference an already-uploaded object''), s)
             else if truthy prev \<and> \<not> has_row pp_id (ip_packs s) prev
             then (Fail 422 (JStr ''prev_id is not a known policy pack''), s)
             else let chain = pack_chain sha prev h
                  in (Ok 200 (JObj [(''status'', JStr ''created''), (''id'', i), (''chain_hash'', JStr chain)]),
                      note_audit (cl_username cl) ''policy.pack_publish'' project
                        [(''policy_pack_id'', i), (''prev_id'', prev), (''chain_hash'', JStr chain)] 201
                        (emit_event (cl_now cl) project ''anomaly''
                          [(''type'', JStr ''policy_change''), (''policy_pack_id'', i), (''prev_id'', prev)]
                          (emit_event (cl_now cl) project ''policy''
                            [(''action'', JStr ''published''), (''policy_pack_id'', i), (''prev_id'', prev)]
                            (s\<lparr>ip_packs := ip_packs s @
                               [\<lparr>pp_id = i, pp_project = project, pp_object = h, pp_prev = prev,
                                pp_chain = chain, pp_published_by = cl_username cl, pp_created = cl_now cl\<rparr>]\<rparr>)))))"

definition policy_pack_to_dict :: "policy_pack \<Rightarrow> json" where
  "policy_pack_to_dict r =
     JObj [(''id'', pp_id r), (''project_id'', pp_project r), (''object_id'', JStr (pp_object r)),
       (''prev_id'', pp_prev r), (''chain_hash'', JStr (pp_chain r)),
       (''published_by'', jopt (pp_published_by r)), (''created_at'', JStr (isoformat (pp_created r)))]"

definition list_policy_packs :: "string option \<Rightarrow> nat \<Rightarrow> nat \<Rightarrow> 'a improver_db_scheme \<Rightarrow> reply" where
  "list_policy_packs project lim off s =
     listing ''policy_packs'' policy_pack_to_dict pp_created lim off
       (filter (\<lambda>r. matches project (pp_project r)) (ip_packs s))"

definition get_latest_policy_pack :: "string \<Rightarrow> 'a improver_db_scheme \<Rightarrow> reply" where
  "get_latest_policy_pack project s =
     (case newest_first pp_created (filter (\<lambda>r. pp_project r = JStr project) (ip_packs s)) of
        [] \<Rightarrow> Fail 404 (JStr ''No policy pack published for this project'')
      | r # _ \<Rightarrow> Ok 200 (policy_pack_to_dict r))"

definition get_policy_pack :: "string \<Rightarrow> 'a improver_db_scheme \<Rightarrow> reply" where
  "get_policy_pack i s =
     (case find_row pp_id (JStr i) (ip_packs s) of
        None \<Rightarrow> Fail 404 (JStr ''Policy pack not found'') | Some r \<Rightarrow> Ok 200 (policy_pack_to_dict r))"

section \<open>Canaries\<close>

definition report_canary_result ::
  "caller \<Rightarrow> body \<Rightarrow> 'a improver_db_scheme \<Rightarrow> reply \<times> 'a improver_db_scheme" where
  "report_canary_result cl b s =
     (let project = field b ''project_id'' JNull; improver = field b ''improver_id'' JNull;
          passed = truthy (field b ''passed'' JNull); i = ip_next_canary s
      in case require_uploaded_object_id ''suite_object_id'' (field b ''suite_object_id'' JNull) of
           Inl r \<Rightarrow> (r, s)
         | Inr h \<Rightarrow>
             if \<not> truthy project \<or> \<not> truthy improver
             then (Fail 422 (JStr ''project_id and improver_id are required''), s)
             else if \<not> object_row_exists (ip_objects s) h (cl_cas_tenant cl)
             then (Fail 422 (JStr ''suite_object_id must reference an already-uploaded object''), s)
             else (Ok 200 (JObj [(''status'', JStr ''recorded''), (''id'', JInt (int i)), (''passed'', JBool passed)]),
                   note_audit (cl_username cl) ''canary.run'' project
                     [(''improver_id'', improver), (''passed'', JBool passed)] 201
                     (emit_event (cl_now cl) project ''canary''
                       [(''action'', JStr ''recorded''), (''improver_id'', improver), (''passed'', JBool passed),
                        (''canary_result_id'', JInt (int i))]
                       (s\<lparr>ip_canaries := ip_canaries s @
                          [\<lparr>ca_id = i, ca_project = project, ca_improver = improver, ca_suite = h,
                           ca_passed = passed, ca_details = field b ''details'' JNull,
                           ca_run = field b ''run_id'' JNull, ca_created = cl_now cl\<rparr>],
                          ip_next_canary := Suc i\<rparr>))))"

definition canary_result_to_dict :: "canary_row \<Rightarrow> json" where
  "canary_result_to_dict r =
     JObj [(''id'', JInt (int (ca_id r))), (''project_id'', ca_project r), (''improver_id'', ca_improver r),
       (''suite_object_id'', JStr (ca_suite r)), (''passed'', JBool (ca_passed r)), (''details'', ca_details r),
       (''run_id'', ca_run r), (''created_at'', JStr (isoformat (ca_created r)))]"

definition list_canary_results ::
  "string option \<Rightarrow> string option \<Rightarrow> nat \<Rightarrow> nat \<Rightarrow> 'a improver_db_scheme \<Rightarrow> reply" where
  "list_canary_results project improver lim off s =
     listing ''canary_results'' canary_result_to_dict ca_created lim off
       (filter (\<lambda>r. matches project (ca_project r) \<and> matches improver (ca_improver r)) (ip_canaries s))"

section \<open>Freeze\<close>

definition freeze_to_dict :: "string \<Rightarrow> freeze_row option \<Rightarrow> json" where
  "freeze_to_dict project row =
     (case row of
        None \<Rightarrow> JObj [(''project_id'', JStr project), (''frozen'', JBool False), (''reason'', JNull),
                      (''frozen_by'', JNull), (''frozen_at'', JNull)]
      | Some r \<Rightarrow> JObj [(''project_id'', JStr (fz_project r)), (''frozen'', JBool (fz_frozen r)),
                      (''reason'', fz_reason r), (''frozen_by'', jopt (fz_by r)), (''frozen_at'', iso_opt (fz_at r))])"

definition get_freeze_state :: "string \<Rightarrow> 'a improver_db_scheme \<Rightarrow> reply" where
  "get_freeze_state project s = Ok 200 (freeze_to_dict project (find_row fz_project project (ip_freezes s)))"

definition set_freeze_state ::
  "caller \<Rightarrow> string \<Rightarrow> body \<Rightarrow> 'a improver_db_scheme \<Rightarrow> reply \<times> 'a improver_db_scheme" where
  "set_freeze_state cl project b s =
     (let frozen = truthy (field b ''frozen'' JNull);
          known = (find_row fz_project project (ip_freezes s) \<noteq> None);
          row = \<lparr>fz_project = project, fz_frozen = frozen,
                 fz_reason = (if known \<and> \<not> frozen then JNull else field b ''reason'' JNull),
                 fz_by = (if frozen then cl_username cl else None),
                 fz_at = (if frozen then Some (cl_now cl) else None), fz_updated = cl_now cl\<rparr>
      in (Ok 200 (freeze_to_dict project (Some row)),
          note_audit (cl_username cl) ''freeze.set'' (JStr project)
            [(''frozen'', JBool frozen), (''reason'', fz_reason row)] 200
            (emit_event (cl_now cl) (JStr project) ''freeze''
              [(''action'', JStr (if frozen then ''frozen'' else ''unfrozen'')), (''reason'', fz_reason row)]
              (s\<lparr>ip_freezes := (if known then upd_row fz_project project (\<lambda>_. row) (ip_freezes s)
                               else ip_freezes s @ [row])\<rparr>))))"

section \<open>The registry as a service\<close>

datatype improver_req =
    Register caller body | Propose caller body | Decide caller string body
  | Publish caller body | Canary caller body | Freeze caller string body

fun improver_step :: "(string \<Rightarrow> hash) \<Rightarrow> improver_req \<Rightarrow> improver_db \<Rightarrow> reply \<times> improver_db" where
  "improver_step sha (Register cl b) s = create_improver_version cl b s"
| "improver_step sha (Propose cl b) s = create_change_set cl b s"
| "improver_step sha (Decide cl i b) s = update_change_set_status cl i b s"
| "improver_step sha (Publish cl b) s = create_policy_pack sha cl b s"
| "improver_step sha (Canary cl b) s = report_canary_result cl b s"
| "improver_step sha (Freeze cl i b) s = set_freeze_state cl i b s"

text \<open>The states a change set was moved to, in the order of the accepted requests.\<close>

fun decision :: "string \<Rightarrow> improver_req \<times> reply \<Rightarrow> string list" where
  "decision i (Decide cl j b, Ok n x) =
     (if i = j then (case field b ''status'' JNull of JStr st \<Rightarrow> [st] | _ \<Rightarrow> []) else [])"
| "decision i _ = []"

definition decisions :: "string \<Rightarrow> (improver_req \<times> reply) list \<Rightarrow> string list" where
  "decisions i log = concat (map (decision i) log)"

lemma decisions_snoc [simp]: "decisions i (log @ [e]) = decisions i log @ decision i e"
  by (simp add: decisions_def)

definition histories :: "string list list" where
  "histories = [[], [''approved''], [''rejected''], [''approved'', ''applied''], [''approved'', ''rejected''],
     [''approved'', ''applied'', ''rolled_back'']]"

definition history_ok :: "(improver_req \<times> reply) list \<Rightarrow> change_set list \<Rightarrow> bool" where
  "history_ok log rows \<longleftrightarrow> distinct (map cs_id rows) \<and>
     (\<forall>i. case find_row cs_id (JStr i) rows of
            None \<Rightarrow> decisions i log = []
          | Some r \<Rightarrow> decisions i log \<in> set histories \<and> cs_state r = last (''proposed'' # decisions i log))"

lemma history_okD:
  "history_ok log rows \<Longrightarrow> find_row cs_id (JStr i) rows = Some r \<Longrightarrow>
     decisions i log \<in> set histories \<and> cs_state r = last (''proposed'' # decisions i log)"
  "history_ok log rows \<Longrightarrow> find_row cs_id (JStr i) rows = None \<Longrightarrow> decisions i log = []"
  unfolding history_ok_def by (auto dest: spec [of _ i])

lemma transition_extends:
  assumes "ds \<in> set histories" and "st \<in> set (dget_or CHANGE_SET_TRANSITIONS (last (''proposed'' # ds)) [])"
  shows "ds @ [st] \<in> set histories"
proof -
  have "\<forall>ds \<in> set histories. \<forall>st \<in> set (dget_or CHANGE_SET_TRANSITIONS (last (''proposed'' # ds)) []).
      ds @ [st] \<in> set histories"
    by code_simp
  with assms show ?thesis by blast
qed

lemma effects_keep_changes [simp]:
  "ip_changes (note_audit u a p d st s) = ip_changes s"
  "ip_changes (emit_event now p k pl s) = ip_changes s"
  by (simp_all add: note_audit_def emit_event_def Let_def)

text \<open>Every request but a proposal and a decision leaves the change sets alone.\<close>

lemma other_requests_keep_changes:
  "ip_changes (snd (create_improver_version cl b s)) = ip_changes s"
  "ip_changes (snd (create_policy_pack sha cl b s)) = ip_changes s"
  "ip_changes (snd (report_canary_result cl b s)) = ip_changes s"
  "ip_changes (snd (set_freeze_state cl i b s)) = ip_changes s"
  by (simp_all add: create_improver_version_def create_policy_pack_def report_canary_result_def
      set_freeze_state_def Let_def split: sum.split)

lemma create_change_set_cases:
  "snd (create_change_set cl b s) = s \<or> \<not> has_row cs_id (ip_changes s) (chosen_id cl b)
     \<and> (\<exists>row. cs_id row = chosen_id cl b \<and> cs_state row = ''proposed''
            \<and> ip_changes (snd (create_change_set cl b s)) = ip_changes s @ [row])"
  by (auto simp: create_change_set_def Let_def split: sum.split)

lemma update_change_set_status_cases:
  obtains (refused) n x where "update_change_set_status cl i b s = (Fail n x, s)"
  | (moved) r st x where "find_row cs_id (JStr i) (ip_changes s) = Some r" "field b ''status'' JNull = JStr st"
      "st \<in> set (dget_or CHANGE_SET_TRANSITIONS (cs_state r) [])"
      "fst (update_change_set_status cl i b s) = Ok 200 x"
      "ip_changes (snd (update_change_set_status cl i b s)) =
         upd_row cs_id (JStr i) (\<lambda>r. r\<lparr>cs_state := st, cs_updated := cl_now cl\<rparr>) (ip_changes s)"
proof (cases "find_row cs_id (JStr i) (ip_changes s)")
  case None
  then show ?thesis using refused by (simp add: update_change_set_status_def)
next
  case (Some r)
  note found = this
  show ?thesis
  proof (cases "field b ''status'' JNull")
    case (JStr st)
    show ?thesis
    proof (cases "st \<in> set (dget_or CHANGE_SET_TRANSITIONS (cs_state r) [])")
      case True
      with found JStr show ?thesis by (intro moved) (simp_all add: update_change_set_status_def)
    qed (use found JStr refused in \<open>simp add: update_change_set_status_def\<close>)
  qed (use found refused in \<open>simp_all add: update_change_set_status_def\<close>)
qed

text \<open>Each request extends the log and keeps every change set in the state its log names.\<close>

lemma history_ok_quiet:
  "history_ok log rows \<Longrightarrow> (\<And>i. decision i e = []) \<Longrightarrow> history_ok (log @ [e]) rows"
  by (simp add: history_ok_def cong: option.case_cong)

lemma history_ok_propose:
  assumes "history_ok log (ip_changes s)"
  shows "history_ok (log @ [(Propose cl b, rep)]) (ip_changes (snd (create_change_set cl b s)))"
  using create_change_set_cases [of cl b s]
proof (elim disjE conjE exE)
  fix row assume new: "\<not> has_row cs_id (ip_changes s) (chosen_id cl b)" "cs_id row = chosen_id cl b"
    "cs_state row = ''proposed''" "ip_changes (snd (create_change_set cl b s)) = ip_changes s @ [row]"
  then have "cs_id row \<notin> cs_id ` set (ip_changes s)" by (simp add: has_row_def find_row_None_iff)
  moreover have "\<forall>i. case find_row cs_id (JStr i) (ip_changes s @ [row]) of
        None \<Rightarrow> decisions i log = []
      | Some r \<Rightarrow> decisions i log \<in> set histories \<and> cs_state r = last (''proposed'' # decisions i log)"
    using history_okD [OF assms] new(3)
    by (auto simp: find_row_append histories_def split: option.split)
  ultimately show ?thesis using assms new(4) by (auto simp: history_ok_def cong: option.case_cong)
qed (simp add: history_ok_quiet assms)

lemma history_ok_decide:
  assumes "history_ok log (ip_changes s)"
  shows "history_ok (log @ [(Decide cl i b, fst (update_change_set_status cl i b s))])
    (ip_changes (snd (update_change_set_status cl i b s)))"
proof (cases rule: update_change_set_status_cases [of cl i b s])
  case (refused n x)
  then show ?thesis by (simp add: history_ok_quiet assms)
next
  case (moved r st x)
  have "decisions i log @ [st] \<in> set histories"
    using transition_extends history_okD(1) [OF assms moved(1)] moved(3) by auto
  moreover have "distinct (map cs_id (ip_changes (snd (update_change_set_status cl i b s))))"
    using assms by (simp add: history_ok_def moved(5) keys_upd_row)
  ultimately show ?thesis
    using history_okD [OF assms] moved(1,2)
    by (auto simp: history_ok_def moved(4,5) find_row_upd split: option.split)
qed

lemma history_ok_step:
  assumes "history_ok log (ip_changes s)"
  shows "history_ok (log @ [(rq, fst (improver_step sha rq s))]) (ip_changes (snd (improver_step sha rq s)))"
  by (cases rq) (simp_all add: other_requests_keep_changes history_ok_quiet history_ok_propose history_ok_decide assms)

lemma history_ok_serve:
  assumes "ip_changes s0 = []"
  shows "history_ok (fst (serve (improver_step sha) rqs s0)) (ip_changes (snd (serve (improver_step sha) rqs s0)))"
proof (induction rqs rule: rev_induct)
  case Nil
  show ?case by (simp add: assms history_ok_def decisions_def)
next
  case (snoc rq rqs)
  from history_ok_step [OF this] show ?case by (simp add: serve_snoc)
qed

text \<open>
  C16. A change set is applied only after it was approved. Over any sequence of registry requests by
  any callers, starting without change sets: the state a change set is in is the last one an
  accepted request moved it to (\<open>proposed\<close> when there is none), and the accepted requests for it are
  one of six histories: none; approved; rejected; approved, applied; approved, rejected; approved,
  applied, rolled back. So none reaches \<open>applied\<close> without \<open>approved\<close> and none leaves \<open>rejected\<close>.
\<close>

theorem change_set_histories:
  assumes "ip_changes s0 = []" and "serve (improver_step sha) rqs s0 = (log, s)"
    and "r \<in> set (ip_changes s)" and "cs_id r = JStr i"
  shows "cs_state r = last (''proposed'' # decisions i log)
    \<and> decisions i log \<in> {[], [''approved''], [''rejected''], [''approved'', ''applied''],
        [''approved'', ''rejected''], [''approved'', ''applied'', ''rolled_back'']}"
proof -
  have ok: "history_ok log (ip_changes s)" using history_ok_serve [OF assms(1), of sha rqs] assms(2) by simp
  then have "distinct (map cs_id (ip_changes s))" by (simp add: history_ok_def)
  from find_row_unique [OF this assms(3)] assms(4) have "find_row cs_id (JStr i) (ip_changes s) = Some r" by simp
  from history_okD(1) [OF ok this] show ?thesis by (simp add: histories_def)
qed

section \<open>Policy packs\<close>

text \<open>
  The chain hash of a pack covers the id of the previous pack, not its content or its chain hash:
  two registries whose earlier packs differ in their objects give a later pack the same chain hash.
\<close>

lemma pack_chain_ignores_earlier_packs:
  assumes "fst (create_policy_pack sha cl b s) = Ok 200 (JObj [(''status'', JStr ''created''), (''id'', i), (''chain_hash'', c)])"
    and "fst (create_policy_pack sha cl b t) = Ok 200 (JObj [(''status'', JStr ''created''), (''id'', i'), (''chain_hash'', c')])"
  shows "c = c'"
  using assms by (auto simp: create_policy_pack_def Let_def split: if_splits sum.splits)

section \<open>Interfaces\<close>

interpretation improver_chain: keyed_rows "fetch_improver s" im_id parent_improver for s
  by unfold_locales (auto simp: fetch_improver_def dest: find_row_SomeD)

interpretation propose: idempotent_create create_change_set "\<lambda>s i. has_row cs_id (ip_changes s) i"
proof unfold_locales
  fix b :: body and s :: "'a improver_db_scheme" and i :: json and rq :: caller
  note cases = create_change_set_cases [of rq b s]
  show "truthy (client_id b) \<Longrightarrow> has_row cs_id (ip_changes s) (client_id b) \<Longrightarrow> snd (create_change_set rq b s) = s"
    using cases by auto
  show "has_row cs_id (ip_changes s) i \<Longrightarrow> has_row cs_id (ip_changes (snd (create_change_set rq b s))) i"
    using cases by auto
  show "truthy (client_id b) \<Longrightarrow> snd (create_change_set rq b s) \<noteq> s \<Longrightarrow>
      has_row cs_id (ip_changes (snd (create_change_set rq b s))) (client_id b)"
    using cases by auto
qed

section \<open>Concrete requests\<close>

definition doc_hash :: hash where
  "doc_hash = replicate 64 CHR ''a''"

definition demo_improver :: improver_db where
  "demo_improver = effects.extend empty_effects
     \<lparr>ip_objects = [\<lparr>or_tenant = ''t'', or_hash = doc_hash, or_size = 1, or_created = None\<rparr>],
      ip_improvers = [], ip_changes = [], ip_packs = [], ip_canaries = [], ip_next_canary = 1, ip_freezes = []\<rparr>"

definition decide :: "string \<Rightarrow> improver_req" where
  "decide st = Decide demo_caller ''c1'' [(''status'', JStr st)]"

definition demo_changes :: "improver_req list" where
  "demo_changes =
     [Propose demo_caller [(''id'', JStr ''c1''), (''project_id'', JStr ''p''), (''object_id'', JStr doc_hash)],
      decide ''applied'', decide ''approved'', decide ''proposed'', decide ''applied'']"

text \<open>Applying before approval and going back are refused; the state is then \<open>applied\<close>.\<close>

lemma change_set_histories_witness:
  "\<exists>log s r. serve (improver_step id) demo_changes demo_improver = (log, s)
     \<and> ip_changes s = [r] \<and> map (failed \<circ> snd) log = [False, True, False, True, False]
     \<and> decisions ''c1'' log = [''approved'', ''applied''] \<and> cs_state r = ''applied''"
proof -
  obtain log s where run: "serve (improver_step id) demo_changes demo_improver = (log, s)"
    by (cases "serve (improver_step id) demo_changes demo_improver") simp
  have facts: "map cs_id (ip_changes (snd (serve (improver_step id) demo_changes demo_improver))) = [JStr ''c1'']
      \<and> map (failed \<circ> snd) (fst (serve (improver_step id) demo_changes demo_improver)) = [False, True, False, True, False]
      \<and> decisions ''c1'' (fst (serve (improver_step id) demo_changes demo_improver)) = [''approved'', ''applied'']"
    by code_simp
  then obtain r where r: "ip_changes s = [r]" "cs_id r = JStr ''c1''" by (auto simp: run)
  have "ip_changes demo_improver = []" by (simp add: demo_improver_def effects.extend_def)
  from change_set_histories [OF this run, of r "''c1''"] r facts run show ?thesis by auto
qed

end
