(* ===== verification/Doubles.thy ===== *)
theory Doubles
  imports Complex_Main Base
begin

text \<open>
  Python's \<open>float\<close>, as far as the registry computes with it: binary64 numbers with rounding to
  nearest, ties to even, infinities and NaN. A finite value is its rational; the sign of a zero is not
  kept.
\<close>

section \<open>Rounding\<close>

datatype double = Finite rat | Infinite bool | NaN

definition round_even :: "rat \<Rightarrow> int" where
  "round_even x =
     (let f = \<lfloor>x\<rfloor>; d = x - of_int f
      in if d < 1 / 2 \<or> d = 1 / 2 \<and> even f then f else f + 1)"

text \<open>
  The smallest exponent that brings a magnitude, in units of the least subnormal \<open>2^-1074\<close>, below
  \<open>2^53\<close>; the first argument bounds the halvings. 2046 are enough: what is still too large then is
  beyond every finite number.
\<close>

fun ulp_exp :: "nat \<Rightarrow> rat \<Rightarrow> nat" where
  "ulp_exp 0 m = 0"
| "ulp_exp (Suc n) m = (if m < 2 ^ 53 then 0 else Suc (ulp_exp n (m / 2)))"

definition round_magnitude :: "rat \<Rightarrow> rat" where
  "round_magnitude a =
     (let m = a * 2 ^ 1074; k = ulp_exp 2046 m in of_int (round_even (m / 2 ^ k)) * 2 ^ k / 2 ^ 1074)"

definition round64 :: "rat \<Rightarrow> double" where
  "round64 x =
     (let a = round_magnitude \<bar>x\<bar>
      in if 2 ^ 1024 \<le> a then Infinite (x < 0) else Finite (if x < 0 then - a else a))"

section \<open>Operations\<close>

text \<open>\<open>float(i)\<close> of an integer; \<open>None\<close> is the \<open>OverflowError\<close>.\<close>

definition float_of_int :: "int \<Rightarrow> double option" where
  "float_of_int i = (case round64 (of_int i) of Finite x \<Rightarrow> Some (Finite x) | _ \<Rightarrow> None)"

fun fadd :: "double \<Rightarrow> double \<Rightarrow> double" where
  "fadd (Finite x) (Finite y) = round64 (x + y)"
| "fadd (Infinite a) (Infinite b) = (if a = b then Infinite a else NaN)"
| "fadd (Infinite a) (Finite y) = Infinite a"
| "fadd (Finite x) (Infinite b) = Infinite b"
| "fadd _ _ = NaN"

fun fgreater :: "double \<Rightarrow> double \<Rightarrow> bool" where
  "fgreater (Finite x) (Finite y) \<longleftrightarrow> y < x"
| "fgreater (Infinite a) (Infinite b) \<longleftrightarrow> \<not> a \<and> b"
| "fgreater (Infinite a) (Finite y) \<longleftrightarrow> \<not> a"
| "fgreater (Finite x) (Infinite b) \<longleftrightarrow> b"
| "fgreater _ _ \<longleftrightarrow> False"

fun finite64 :: "double \<Rightarrow> bool" where
  "finite64 (Finite x) \<longleftrightarrow> True"
| "finite64 _ \<longleftrightarrow> False"

section \<open>Whole numbers below \<open>2^53\<close> are exact\<close>

lemma ulp_exp_above: "j < ulp_exp n m \<Longrightarrow> 2 ^ 53 \<le> m / 2 ^ j"
proof (induction n m arbitrary: j rule: ulp_exp.induct)
  case (2 n m)
  then show ?case by (cases j) (auto split: if_splits simp: field_simps)
qed simp

lemma ulp_exp_le: "i < 2 ^ 53 \<Longrightarrow> ulp_exp n (of_int i * 2 ^ e) \<le> e"
proof (rule ccontr)
  assume i: "i < 2 ^ 53" and "\<not> ulp_exp n (of_int i * 2 ^ e) \<le> e"
  then have "2 ^ 53 \<le> of_int i * 2 ^ e / (2 ^ e :: rat)" by (intro ulp_exp_above) (simp only: not_le)
  then have "(of_int (2 ^ 53) :: rat) \<le> of_int i" by simp
  with i show False by (simp only: of_int_le_iff not_le)
qed

lemma round_even_of_int: "round_even (of_int i) = i"
  by (simp add: round_even_def)

lemma exact_units:
  assumes "k \<le> e"
  shows "of_int (round_even (of_int i * 2 ^ e / 2 ^ k)) * 2 ^ k / 2 ^ e = (of_int i :: rat)"
proof -
  have pow: "(2 :: rat) ^ e = 2 ^ (e - k) * 2 ^ k" using assms by (metis le_add_diff_inverse2 power_add)
  then have "of_int i * 2 ^ e / 2 ^ k = (of_int (i * 2 ^ (e - k)) :: rat)" by simp
  then show ?thesis by (simp only: round_even_of_int) (simp add: pow)
qed

lemma round_magnitude_of_nat: "i < 2 ^ 53 \<Longrightarrow> round_magnitude (of_int i) = of_int i"
  unfolding round_magnitude_def Let_def by (rule exact_units [OF ulp_exp_le])

lemma round64_of_int:
  assumes "\<bar>i\<bar> < 2 ^ 53"
  shows "round64 (of_int i) = Finite (of_int i)"
proof -
  have m: "round_magnitude \<bar>of_int i\<bar> = of_int \<bar>i\<bar>"
    using round_magnitude_of_nat [of "\<bar>i\<bar>"] assms by simp
  have "(of_int \<bar>i\<bar> :: rat) < of_int (2 ^ 53)" using assms by (simp only: of_int_less_iff)
  moreover have "(of_int (2 ^ 53) :: rat) < 2 ^ 1024" by simp
  ultimately have "\<not> (2 ^ 1024 :: rat) \<le> of_int \<bar>i\<bar>" by simp
  with m show ?thesis by (simp add: round64_def Let_def)
qed

lemma float_of_int_exact: "\<bar>i\<bar> < 2 ^ 53 \<Longrightarrow> float_of_int i = Some (Finite (of_int i))"
  by (simp add: float_of_int_def round64_of_int)

lemma fadd_of_int: "\<bar>i + j\<bar> < 2 ^ 53 \<Longrightarrow> fadd (Finite (of_int i)) (Finite (of_int j)) = Finite (of_int (i + j))"
  using round64_of_int [of "i + j"] by simp

section \<open>Above, a sum may lose the amount\<close>

lemma ulp_exp_ge: "2 ^ (52 + k) \<le> m \<Longrightarrow> k \<le> n \<Longrightarrow> k \<le> ulp_exp n m"
proof (induction n m arbitrary: k rule: ulp_exp.induct)
  case (2 n m)
  show ?case
  proof (cases k)
    case (Suc j)
    have "(2 :: rat) ^ 53 \<le> 2 ^ (52 + k)" using Suc by (intro power_increasing) simp_all
    with 2(2) have "\<not> m < 2 ^ 53" by linarith
    moreover have "2 ^ (52 + j) \<le> m / 2" using 2(2) Suc power_Suc [of "2 :: rat" "52 + j"] by simp
    ultimately show ?thesis using 2(1) [of j] 2(3) Suc by simp
  qed simp
qed simp

lemma ulp_exp_at:
  assumes "2 ^ (52 + k) \<le> m" and "m < 2 ^ (53 + k)" and "k \<le> n"
  shows "ulp_exp n m = k"
proof (rule antisym)
  show "ulp_exp n m \<le> k"
  proof (rule ccontr)
    assume "\<not> ulp_exp n m \<le> k"
    then have "k < ulp_exp n m" by simp
    then have "2 ^ 53 \<le> m / 2 ^ k" by (rule ulp_exp_above)
    with assms(2) show False by (simp add: field_simps power_add)
  qed
qed (rule ulp_exp_ge [OF assms(1,3)])

text \<open>The first whole number without a float: adding one to \<open>2^53\<close> changes nothing.\<close>

lemma fadd_one_lost: "fadd (Finite (2 ^ 53)) (Finite 1) = Finite (2 ^ 53)"
proof -
  have "ulp_exp 2046 ((2 ^ 53 + 1) * 2 ^ 1074) = 1075"
    by (rule ulp_exp_at) simp_all
  moreover have "round_even ((2 ^ 53 + 1) / 2) = 2 ^ 52"
    by code_simp
  moreover have "(2 ^ 53 + 1) * 2 ^ 1074 / 2 ^ 1075 = ((2 ^ 53 + 1) / 2 :: rat)" by simp
  ultimately have "round_magnitude (2 ^ 53 + 1) = of_int (2 ^ 52) * 2 ^ 1075 / 2 ^ 1074"
    by (simp only: round_magnitude_def Let_def)
  then have "round_magnitude (2 ^ 53 + 1) = 2 ^ 53" by simp
  then show ?thesis by (simp add: round64_def Let_def)
qed

end
