(* ===== verification/Evals.thy ===== *)
theory Evals
  imports Auth Doubles
begin

text \<open>
  The evaluation registry of \<open>server.py\<close>: eval suites and their freeze, the vault of eval results with
  blind scoring, adapters, curriculum tasks, experiment plans and budget accounts, with the scope
  guards of their routes. A caller's scopes are those \<open>require_token\<close> left on the request.
\<close>

section \<open>Rows\<close>

record eval_suite =
  su_id :: json
  su_project :: json
  su_object :: hash
  su_name :: json
  su_frozen :: bool
  su_blind :: bool
  su_created_by :: "string option"
  su_created :: datetime
  su_updated :: datetime

record eval_result =
  er_id :: nat
  er_project :: json
  er_suite :: json
  er_run :: json
  er_score :: json
  er_details :: json
  er_revealed :: bool
  er_scored_by :: "string option"
  er_created :: datetime

record eval_adapter =
  ea_id :: json
  ea_project :: json
  ea_name :: json
  ea_command :: json
  ea_created_by :: "string option"
  ea_created :: datetime

record task =
  tk_id :: json
  tk_project :: json
  tk_title :: json
  tk_description :: json
  tk_difficulty :: json
  tk_status :: string
  tk_created_by :: "string option"
  tk_created :: datetime
  tk_updated :: datetime

record plan =
  pl_id :: json
  pl_project :: json
  pl_object :: hash
  pl_created_by :: "string option"
  pl_created :: datetime

text \<open>The limits and counters of a budget: floats for the seconds, integers for the others.\<close>

record budget_row =
  bg_id :: json
  bg_project :: json
  bg_scope :: string
  bg_ref :: json
  bg_compute_limit :: "double option"
  bg_storage_limit :: "int option"
  bg_step_limit :: "int option"
  bg_compute :: double
  bg_storage :: int
  bg_steps :: int
  bg_created_by :: "string option"
  bg_created :: datetime
  bg_updated :: datetime

record evals_db = auth_db +
  el_objects :: "object_row list"
  el_suites :: "eval_suite list"
  el_results :: "eval_result list"
  el_next_result :: nat
  el_adapters :: "eval_adapter list"
  el_tasks :: "task list"
  el_plans :: "plan list"
  el_budgets :: "budget_row list"

section \<open>Eval suites\<close>

definition create_eval_suite :: "caller \<Rightarrow> body \<Rightarrow> evals_db \<Rightarrow> reply \<times> evals_db" where
  "create_eval_suite cl b s =
     (let i = chosen_id cl b; project = field b ''project_id'' JNull
      in if \<not> truthy project then (Fail 422 (JStr ''project_id is required''), s)
         else case require_uploaded_object_id ''object_id'' (field b ''object_id'' JNull) of
           Inl r \<Rightarrow> (r, s)
         | Inr h \<Rightarrow>
             if has_row su_id (el_suites s) i
             then (Ok 200 (JObj [(''status'', JStr ''exists''), (''id'', i)]), s)
             else if \<not> object_row_exists (el_objects s) h (cl_cas_tenant cl)
             then (Fail 422 (JStr ''object_id must reference an already-uploaded object''), s)
             else (Ok 200 (JObj [(''status'', JStr ''created''), (''id'', i)]),
                   note_audit (cl_username cl) ''eval.register'' project [(''suite_id'', i)] 201
                     (emit_event (cl_now cl) project ''eval''
                       [(''action'', JStr ''suite_registered''), (''suite_id'', i)]
                       (s\<lparr>el_suites := el_suites s @
                          [\<lparr>su_id = i, su_project = project, su_object = h, su_name = field b ''name'' JNull,
                           su_frozen = False, su_blind = truthy (field b ''blind'' JNull),
                           su_created_by = cl_username cl, su_created = cl_now cl,
                           su_updated = cl_now cl\<rparr>]\<rparr>))))"

definition eval_suite_to_dict :: "eval_suite \<Rightarrow> json" where
  "eval_suite_to_dict r =
     JObj [(''id'', su_id r), (''project_id'', su_project r), (''object_id'', JStr (su_object r)),
       (''name'', su_name r), (''frozen'', JBool (su_frozen r)), (''blind'', JBool (su_blind r)),
       (''created_by'', jopt (su_created_by r)), (''created_at'', JStr (isoformat (su_created r)))]"

definition list_eval_suites :: "string option \<Rightarrow> nat \<Rightarrow> nat \<Rightarrow> evals_db \<Rightarrow> reply" where
  "list_eval_suites project lmt off s =
     listing ''suites'' eval_suite_to_dict su_created lmt off
       (filter (\<lambda>r. matches project (su_project r)) (el_suites s))"

definition fetch_eval_suite :: "evals_db \<Rightarrow> json \<Rightarrow> eval_suite option" where
  "fetch_eval_suite s i = find_row su_id i (el_suites s)"

definition get_eval_suite :: "string \<Rightarrow> evals_db \<Rightarrow> reply" where
  "get_eval_suite i s =
     (case fetch_eval_suite s (JStr i) of
        None \<Rightarrow> Fail 404 (JStr ''Eval suite not found'') | Some r \<Rightarrow> Ok 200 (eval_suite_to_dict r))"

text \<open>The change of a row that an update asks for; \<open>Inl\<close> is the refusal of its object id.\<close>

definition suite_update :: "caller \<Rightarrow> body \<Rightarrow> evals_db \<Rightarrow> reply + (eval_suite \<Rightarrow> eval_suite)" where
  "suite_update cl b s =
     (let rest = (\<lambda>r. r\<lparr>su_name := (if has_key b ''name'' then field b ''name'' JNull else su_name r),
                        su_blind := (if has_key b ''blind'' then truthy (field b ''blind'' JNull) else su_blind r),
                        su_updated := cl_now cl\<rparr>)
      in if has_key b ''object_id''
         then (case require_uploaded_object_id ''object_id'' (field b ''object_id'' JNull) of
             Inl rep \<Rightarrow> Inl rep
           | Inr h \<Rightarrow> if object_row_exists (el_objects s) h (cl_cas_tenant cl)
                      then Inr (\<lambda>r. rest (r\<lparr>su_object := h\<rparr>))
                      else Inl (Fail 422 (JStr ''object_id must reference an already-uploaded object'')))
         else Inr rest)"

definition update_eval_suite :: "caller \<Rightarrow> string \<Rightarrow> body \<Rightarrow> evals_db \<Rightarrow> reply \<times> evals_db" where
  "update_eval_suite cl i b s =
     (case fetch_eval_suite s (JStr i) of
        None \<Rightarrow> (Fail 404 (JStr ''Eval suite not found''), s)
      | Some r \<Rightarrow>
          if su_frozen r then (Fail 409 (JStr ''Eval suite is frozen and cannot be modified''), s)
          else (case suite_update cl b s of
              Inl rep \<Rightarrow> (rep, s)
            | Inr f \<Rightarrow> (Ok 200 (eval_suite_to_dict (f r)),
                note_audit (cl_username cl) ''eval.update'' (su_project r) [(''suite_id'', JStr i)] 200
                  (s\<lparr>el_suites := upd_row su_id (JStr i) f (el_suites s)\<rparr>))))"

definition freeze_eval_suite :: "caller \<Rightarrow> string \<Rightarrow> evals_db \<Rightarrow> reply \<times> evals_db" where
  "freeze_eval_suite cl i s =
     (case fetch_eval_suite s (JStr i) of
        None \<Rightarrow> (Fail 404 (JStr ''Eval suite not found''), s)
      | Some r \<Rightarrow>
          (Ok 200 (eval_suite_to_dict (r\<lparr>su_frozen := True, su_updated := cl_now cl\<rparr>)),
           note_audit (cl_username cl) ''eval.freeze'' (su_project r) [(''suite_id'', JStr i)] 200
             (emit_event (cl_now cl) (su_project r) ''eval''
               [(''action'', JStr ''suite_frozen''), (''suite_id'', JStr i)]
               (s\<lparr>el_suites := upd_row su_id (JStr i)
                  (\<lambda>r. r\<lparr>su_frozen := True, su_updated := cl_now cl\<rparr>) (el_suites s)\<rparr>))))"

section \<open>Eval results\<close>

definition create_eval_result :: "caller \<Rightarrow> body \<Rightarrow> evals_db \<Rightarrow> reply \<times> evals_db" where
  "create_eval_result cl b s =
     (let project = field b ''project_id'' JNull; suite = field b ''suite_id'' JNull;
          run = field b ''run_id'' JNull; i = el_next_result s
      in if \<not> truthy project \<or> \<not> truthy suite
         then (Fail 422 (JStr ''project_id and suite_id are required''), s)
         else case fetch_eval_suite s suite of
           None \<Rightarrow> (Fail 422 (JStr ''Unknown eval suite''), s)
         | Some su \<Rightarrow>
             (Ok 200 (JObj [(''status'', JStr ''recorded''), (''id'', JInt (int i)),
                            (''revealed'', JBool (\<not> su_blind su))]),
              note_audit (cl_username cl) ''eval.score'' project
                [(''suite_id'', suite), (''eval_result_id'', JInt (int i))] 201
                (emit_event (cl_now cl) project ''eval''
                  [(''action'', JStr ''scored''), (''suite_id'', suite),
                   (''eval_result_id'', JInt (int i)), (''run_id'', run)]
                  (s\<lparr>el_results := el_results s @
                     [\<lparr>er_id = i, er_project = project, er_suite = suite, er_run = run,
                      er_score = field b ''score'' JNull, er_details = field b ''details'' JNull,
                      er_revealed = (\<not> su_blind su), er_scored_by = cl_username cl,
                      er_created = cl_now cl\<rparr>],
                     el_next_result := Suc i\<rparr>))))"

definition eval_result_to_dict :: "eval_result \<Rightarrow> bool \<Rightarrow> json" where
  "eval_result_to_dict r redact =
     (if redact \<and> \<not> er_revealed r
      then JObj [(''id'', JInt (int (er_id r))), (''project_id'', er_project r), (''suite_id'', er_suite r),
        (''run_id'', er_run r), (''revealed'', JBool False), (''score'', JNull), (''details'', JNull)]
      else JObj [(''id'', JInt (int (er_id r))), (''project_id'', er_project r), (''suite_id'', er_suite r),
        (''run_id'', er_run r), (''revealed'', JBool (er_revealed r)), (''score'', er_score r),
        (''details'', er_details r), (''scored_by'', jopt (er_scored_by r)),
        (''created_at'', JStr (isoformat (er_created r)))])"

definition effective_scopes :: "caller \<Rightarrow> string list" where
  "effective_scopes cl = (case cl_scopes cl of Some (x # xs) \<Rightarrow> x # xs | _ \<Rightarrow> [''*''])"

definition reads_scores :: "caller \<Rightarrow> bool" where
  "reads_scores cl \<longleftrightarrow> ''*'' \<in> set (effective_scopes cl) \<or> ''scorer'' \<in> set (effective_scopes cl)"

definition list_eval_results ::
  "caller \<Rightarrow> string option \<Rightarrow> string option \<Rightarrow> string option \<Rightarrow> nat \<Rightarrow> nat \<Rightarrow> evals_db \<Rightarrow> reply" where
  "list_eval_results cl project suite run lmt off s =
     listing ''eval_results'' (\<lambda>r. eval_result_to_dict r (\<not> reads_scores cl)) er_created lmt off
       (filter (\<lambda>r. matches project (er_project r) \<and> matches suite (er_suite r) \<and> matches run (er_run r))
         (el_results s))"

definition reveal_eval_result :: "caller \<Rightarrow> nat \<Rightarrow> evals_db \<Rightarrow> reply \<times> evals_db" where
  "reveal_eval_result cl i s =
     (case find_row er_id i (el_results s) of
        None \<Rightarrow> (Fail 404 (JStr ''Eval result not found''), s)
      | Some r \<Rightarrow>
          (Ok 200 (eval_result_to_dict (r\<lparr>er_revealed := True\<rparr>) False),
           note_audit (cl_username cl) ''eval.reveal'' (er_project r) [(''eval_result_id'', JInt (int i))] 200
             (emit_event (cl_now cl) (er_project r) ''eval''
               [(''action'', JStr ''revealed''), (''eval_result_id'', JInt (int i))]
               (s\<lparr>el_results := upd_row er_id i (\<lambda>r. r\<lparr>er_revealed := True\<rparr>) (el_results s)\<rparr>))))"

section \<open>Adapters\<close>

fun is_command :: "json \<Rightarrow> bool" where
  "is_command (JList (c # cs)) = list_all is_str (c # cs)"
| "is_command _ = False"

definition create_eval_adapter :: "caller \<Rightarrow> body \<Rightarrow> evals_db \<Rightarrow> reply \<times> evals_db" where
  "create_eval_adapter cl b s =
     (let i = chosen_id cl b; project = field b ''project_id'' JNull; name = field b ''name'' JNull;
          command = field b ''command'' JNull
      in if \<not> truthy project \<or> \<not> truthy name
         then (Fail 422 (JStr ''project_id and name are required''), s)
         else if \<not> is_command command
         then (Fail 422 (JStr ''command must be a non-empty list of strings''), s)
         else if has_row ea_id (el_adapters s) i
         then (Ok 200 (JObj [(''status'', JStr ''exists''), (''id'', i)]), s)
         else (Ok 200 (JObj [(''status'', JStr ''created''), (''id'', i)]),
               note_audit (cl_username cl) ''eval.adapter_register'' project
                 [(''adapter_id'', i), (''name'', name)] 201
                 (s\<lparr>el_adapters := el_adapters s @
                    [\<lparr>ea_id = i, ea_project = project, ea_name = name, ea_command = command,
                     ea_created_by = cl_username cl, ea_created = cl_now cl\<rparr>]\<rparr>)))"

definition eval_adapter_dict :: "eval_adapter \<Rightarrow> json" where
  "eval_adapter_dict r =
     JObj [(''id'', ea_id r), (''project_id'', ea_project r), (''name'', ea_name r), (''command'', ea_command r),
       (''created_by'', jopt (ea_created_by r)), (''created_at'', JStr (isoformat (ea_created r)))]"

text \<open>The envelope of a paged list without a total.\<close>

definition plain_listing ::
  "string \<Rightarrow> ('r \<Rightarrow> json) \<Rightarrow> ('r \<Rightarrow> datetime) \<Rightarrow> nat \<Rightarrow> nat \<Rightarrow> 'r list \<Rightarrow> reply" where
  "plain_listing name render made lmt off rows =
     Ok 200 (JObj [(name, JList (map render (page lmt off (newest_first made rows))))])"

definition list_eval_adapters :: "string option \<Rightarrow> nat \<Rightarrow> nat \<Rightarrow> evals_db \<Rightarrow> reply" where
  "list_eval_adapters project lmt off s =
     plain_listing ''adapters'' eval_adapter_dict ea_created lmt off
       (filter (\<lambda>r. matches project (ea_project r)) (el_adapters s))"

section \<open>Curriculum tasks\<close>

definition create_task :: "caller \<Rightarrow> body \<Rightarrow> evals_db \<Rightarrow> reply \<times> evals_db" where
  "create_task cl b s =
     (let i = chosen_id cl b; project = field b ''project_id'' JNull; title = field b ''title'' JNull
      in if \<not> truthy project \<or> \<not> truthy title
         then (Fail 422 (JStr ''project_id and title are required''), s)
         else if has_row tk_id (el_tasks s) i
         then (Ok 200 (JObj [(''status'', JStr ''exists''), (''id'', i)]), s)
         else (Ok 200 (JObj [(''status'', JStr ''created''), (''id'', i)]),
               note_audit (cl_username cl) ''task.propose'' project [(''task_id'', i)] 201
                 (s\<lparr>el_tasks := el_tasks s @
                    [\<lparr>tk_id = i, tk_project = project, tk_title = title,
                     tk_description = field b ''description'' JNull, tk_difficulty = field b ''difficulty'' JNull,
                     tk_status = ''proposed'', tk_created_by = cl_username cl, tk_created = cl_now cl,
                     tk_updated = cl_now cl\<rparr>]\<rparr>)))"

definition task_to_dict :: "task \<Rightarrow> json" where
  "task_to_dict r =
     JObj [(''id'', tk_id r), (''project_id'', tk_project r), (''title'', tk_title r),
       (''description'', tk_description r), (''difficulty'', tk_difficulty r), (''status'', JStr (tk_status r)),
       (''created_by'', jopt (tk_created_by r)), (''created_at'', JStr (isoformat (tk_created r)))]"

definition list_tasks :: "string option \<Rightarrow> string option \<Rightarrow> nat \<Rightarrow> nat \<Rightarrow> evals_db \<Rightarrow> reply" where
  "list_tasks project status lmt off s =
     plain_listing ''tasks'' task_to_dict tk_created lmt off
       (filter (\<lambda>r. matches project (tk_project r) \<and> matches status (JStr (tk_status r))) (el_tasks s))"

definition update_task_status :: "caller \<Rightarrow> string \<Rightarrow> body \<Rightarrow> evals_db \<Rightarrow> reply \<times> evals_db" where
  "update_task_status cl i b s =
     (case field b ''status'' JNull of
        JStr st \<Rightarrow>
          if st \<noteq> ''accepted'' \<and> st \<noteq> ''rejected''
          then (Fail 422 (JStr ''status must be accepted or rejected''), s)
          else (case find_row tk_id (JStr i) (el_tasks s) of
              None \<Rightarrow> (Fail 404 (JStr ''Task not found''), s)
            | Some r \<Rightarrow>
                (Ok 200 (task_to_dict (r\<lparr>tk_status := st, tk_updated := cl_now cl\<rparr>)),
                 note_audit (cl_username cl) (''task.'' @ st) (tk_project r) [(''task_id'', JStr i)] 200
                   (s\<lparr>el_tasks := upd_row tk_id (JStr i)
                      (\<lambda>r. r\<lparr>tk_status := st, tk_updated := cl_now cl\<rparr>) (el_tasks s)\<rparr>)))
      | _ \<Rightarrow> (Fail 422 (JStr ''status must be accepted or rejected''), s))"

section \<open>Plans\<close>

definition create_plan :: "caller \<Rightarrow> body \<Rightarrow> evals_db \<Rightarrow> reply \<times> evals_db" where
  "create_plan cl b s =
     (let i = chosen_id cl b; project = field b ''project_id'' JNull
      in if \<not> truthy project then (Fail 422 (JStr ''project_id is required''), s)
         else case require_uploaded_object_id ''object_id'' (field b ''object_id'' JNull) of
           Inl r \<Rightarrow> (r, s)
         | Inr h \<Rightarrow>
             if has_row pl_id (el_plans s) i
             then (Ok 200 (JObj [(''status'', JStr ''exists''), (''id'', i)]), s)
             else if \<not> object_row_exists (el_objects s) h (cl_cas_tenant cl)
             then (Fail 422 (JStr ''object_id must reference an already-uploaded object''), s)
             else (Ok 200 (JObj [(''status'', JStr ''created''), (''id'', i)]),
                   note_audit (cl_username cl) ''plan.create'' project [(''plan_id'', i)] 201
                     (s\<lparr>el_plans := el_plans s @
                        [\<lparr>pl_id = i, pl_project = project, pl_object = h,
                         pl_created_by = cl_username cl, pl_created = cl_now cl\<rparr>]\<rparr>)))"

definition plan_to_dict :: "plan \<Rightarrow> json" where
  "plan_to_dict r =
     JObj [(''id'', pl_id r), (''project_id'', pl_project r), (''object_id'', JStr (pl_object r)),
       (''created_by'', jopt (pl_created_by r)), (''created_at'', JStr (isoformat (pl_created r)))]"

definition list_plans :: "string option \<Rightarrow> nat \<Rightarrow> nat \<Rightarrow> evals_db \<Rightarrow> reply" where
  "list_plans project lmt off s =
     plain_listing ''plans'' plan_to_dict pl_created lmt off
       (filter (\<lambda>r. matches project (pl_project r)) (el_plans s))"

definition get_plan :: "string \<Rightarrow> evals_db \<Rightarrow> reply" where
  "get_plan i s =
     (case find_row pl_id (JStr i) (el_plans s) of
        None \<Rightarrow> Fail 404 (JStr ''Plan not found'') | Some r \<Rightarrow> Ok 200 (plan_to_dict r))"

section \<open>Budgets\<close>

text \<open>
  The numeric columns: a 64-bit and a 32-bit integer on the database, a float for the seconds. A
  value that does not fit, or is not a number, is refused by the database, a 500.
\<close>

definition fits :: "nat \<Rightarrow> int \<Rightarrow> bool" where
  "fits w i \<longleftrightarrow> - (2 ^ (w - 1)) \<le> i \<and> i < 2 ^ (w - 1)"

fun limit_col :: "json \<Rightarrow> int option option" where
  "limit_col JNull = Some None"
| "limit_col (JBool b) = Some (Some (of_bool b))"
| "limit_col (JInt i) = Some (Some i)"
| "limit_col _ = None"

text \<open>
  The float column takes an integer as its float, or refuses it when there is none. Reading numbers and
  writing them is the library's: \<open>float\<close> and \<open>int\<close> of a text (\<open>None\<close> is the \<open>ValueError\<close>) and the JSON
  form of a float in a response, \<open>None\<close> for one the framework's \<open>JSONResponse\<close> refuses to render.
\<close>

fun seconds_limit_col :: "json \<Rightarrow> double option option" where
  "seconds_limit_col JNull = Some None"
| "seconds_limit_col (JBool b) = map_option Some (float_of_int (of_bool b))"
| "seconds_limit_col (JInt i) = map_option Some (float_of_int i)"
| "seconds_limit_col _ = None"

record text_numbers =
  tn_float :: "string \<Rightarrow> double option"
  tn_int :: "string \<Rightarrow> int option"
  tn_json :: "double \<Rightarrow> json option"

definition opt_fits :: "nat \<Rightarrow> int option \<Rightarrow> bool" where
  "opt_fits w x = (case x of None \<Rightarrow> True | Some i \<Rightarrow> fits w i)"

definition create_budget :: "caller \<Rightarrow> body \<Rightarrow> evals_db \<Rightarrow> reply \<times> evals_db" where
  "create_budget cl b s =
     (let i = chosen_id cl b; project = field b ''project_id'' JNull; sc = field b ''scope'' JNull;
          ref = field b ''scope_ref'' JNull
      in if \<not> truthy project \<or> sc \<notin> {JStr ''run'', JStr ''lineage''} \<or> \<not> truthy ref
         then (Fail 422 (JStr ''project_id, scope and scope_ref are required''), s)
         else if has_row bg_id (el_budgets s) i
         then (Ok 200 (JObj [(''status'', JStr ''exists''), (''id'', i)]), s)
         else case (seconds_limit_col (field b ''compute_seconds_limit'' JNull),
                    limit_col (field b ''storage_bytes_limit'' JNull), limit_col (field b ''step_limit'' JNull)) of
             (Some c, Some st, Some sp) \<Rightarrow>
               if \<not> opt_fits 64 st \<or> \<not> opt_fits 32 sp then (Fail 500 (JStr ''DBAPIError''), s)
               else (Ok 200 (JObj [(''status'', JStr ''created''), (''id'', i)]),
                     note_audit (cl_username cl) ''budget.set'' project [(''budget_id'', i)] 201
                       (s\<lparr>el_budgets := el_budgets s @
                          [\<lparr>bg_id = i, bg_project = project,
                           bg_scope = (if sc = JStr ''run'' then ''run'' else ''lineage''), bg_ref = ref,
                           bg_compute_limit = c, bg_storage_limit = st, bg_step_limit = sp,
                           bg_compute = Finite 0, bg_storage = 0, bg_steps = 0,
                           bg_created_by = cl_username cl, bg_created = cl_now cl, bg_updated = cl_now cl\<rparr>]\<rparr>))
           | _ \<Rightarrow> (Fail 500 (JStr ''DBAPIError''), s))"

text \<open>The response after the commit cannot be rendered: a 500 that undoes nothing.\<close>

definition UNRENDERED :: reply where
  "UNRENDERED = Fail 500 (JStr ''ValueError: Out of range float values are not JSON compliant'')"

definition answer :: "body option \<Rightarrow> body \<Rightarrow> reply" where
  "answer d rest = (case d of None \<Rightarrow> UNRENDERED | Some fs \<Rightarrow> Ok 200 (JObj (fs @ rest)))"

definition budget_to_dict :: "text_numbers \<Rightarrow> budget_row \<Rightarrow> body option" where
  "budget_to_dict nums r =
     (case (case bg_compute_limit r of None \<Rightarrow> Some JNull | Some l \<Rightarrow> tn_json nums l, tn_json nums (bg_compute r)) of
        (Some lmt, Some used) \<Rightarrow> Some
          [(''id'', bg_id r), (''project_id'', bg_project r), (''scope'', JStr (bg_scope r)), (''scope_ref'', bg_ref r),
           (''compute_seconds_limit'', lmt),
           (''storage_bytes_limit'', opt_json JInt (bg_storage_limit r)), (''step_limit'', opt_json JInt (bg_step_limit r)),
           (''compute_seconds_used'', used), (''storage_bytes_used'', JInt (bg_storage r)),
           (''steps_used'', JInt (bg_steps r)), (''created_at'', JStr (isoformat (bg_created r))),
           (''updated_at'', JStr (isoformat (bg_updated r)))]
      | _ \<Rightarrow> None)"

definition get_budget :: "text_numbers \<Rightarrow> string \<Rightarrow> evals_db \<Rightarrow> reply" where
  "get_budget nums i s =
     (case find_row bg_id (JStr i) (el_budgets s) of
        None \<Rightarrow> Fail 404 (JStr ''Budget not found'') | Some r \<Rightarrow> answer (budget_to_dict nums r) [])"

definition list_budgets ::
  "text_numbers \<Rightarrow> string option \<Rightarrow> string option \<Rightarrow> nat \<Rightarrow> nat \<Rightarrow> evals_db \<Rightarrow> reply" where
  "list_budgets nums project ref lmt off s =
     (let rows = page lmt off (newest_first bg_created
            (filter (\<lambda>r. matches project (bg_project r) \<and> matches ref (bg_ref r)) (el_budgets s)))
      in case those (map (budget_to_dict nums) rows) of
           None \<Rightarrow> UNRENDERED | Some ds \<Rightarrow> Ok 200 (JObj [(''budgets'', JList (map JObj ds))]))"

definition over :: "('n \<Rightarrow> 'n \<Rightarrow> bool) \<Rightarrow> 'n option \<Rightarrow> 'n \<Rightarrow> bool" where
  "over gt lmt used \<longleftrightarrow> (case lmt of None \<Rightarrow> False | Some l \<Rightarrow> gt used l)"

definition budget_exceeded_dims :: "budget_row \<Rightarrow> string list" where
  "budget_exceeded_dims r =
     (if over fgreater (bg_compute_limit r) (bg_compute r) then [''compute_seconds''] else [])
     @ (if over (>) (bg_storage_limit r) (bg_storage r) then [''storage_bytes''] else [])
     @ (if over (>) (bg_step_limit r) (bg_steps r) then [''steps''] else [])"

text \<open>
  \<open>int(body.get(k, 0) or 0)\<close> and \<open>float(...)\<close>; \<open>None\<close> is a \<open>TypeError\<close>, \<open>ValueError\<close> or
  \<open>OverflowError\<close>, a 500.
\<close>

fun amount :: "(string \<Rightarrow> int option) \<Rightarrow> json \<Rightarrow> int option" where
  "amount parse (JInt i) = Some i"
| "amount parse (JBool b) = Some (of_bool b)"
| "amount parse (JStr t) = (if t = [] then Some 0 else parse t)"
| "amount parse j = (if truthy j then None else Some 0)"

fun seconds :: "(string \<Rightarrow> double option) \<Rightarrow> json \<Rightarrow> double option" where
  "seconds parse (JInt i) = float_of_int i"
| "seconds parse (JBool b) = float_of_int (of_bool b)"
| "seconds parse (JStr t) = (if t = [] then Some (Finite 0) else parse t)"
| "seconds parse j = (if truthy j then None else Some (Finite 0))"

definition spend :: "datetime \<Rightarrow> double \<Rightarrow> int \<Rightarrow> int \<Rightarrow> budget_row \<Rightarrow> budget_row" where
  "spend now c st sp r =
     r\<lparr>bg_compute := fadd (bg_compute r) c, bg_storage := bg_storage r + st, bg_steps := bg_steps r + sp,
       bg_updated := now\<rparr>"

definition consume_budget ::
  "text_numbers \<Rightarrow> caller \<Rightarrow> string \<Rightarrow> body \<Rightarrow> evals_db \<Rightarrow> reply \<times> evals_db" where
  "consume_budget nums cl i b s =
     (case find_row bg_id (JStr i) (el_budgets s) of
        None \<Rightarrow> (Fail 404 (JStr ''Budget not found''), s)
      | Some r \<Rightarrow>
          (case (seconds (tn_float nums) (field b ''compute_seconds'' (JInt 0)),
                 amount (tn_int nums) (field b ''storage_bytes'' (JInt 0)),
                 amount (tn_int nums) (field b ''steps'' (JInt 0))) of
             (Some c, Some st, Some sp) \<Rightarrow>
               (let r' = spend (cl_now cl) c st sp r; dims = budget_exceeded_dims r'
                in if \<not> fits 64 (bg_storage r') \<or> \<not> fits 32 (bg_steps r')
                   then (Fail 500 (JStr ''DBAPIError''), s)
                   else (answer (budget_to_dict nums r')
                           [(''exhausted'', JBool (dims \<noteq> [])), (''exceeded_dims'', JList (map JStr dims))],
                         note_audit (cl_username cl) ''budget.consume'' (bg_project r)
                           [(''budget_id'', JStr i), (''exceeded'', JList (map JStr dims))] 200
                           (s\<lparr>el_budgets := upd_row bg_id (JStr i) (spend (cl_now cl) c st sp) (el_budgets s)\<rparr>)))
           | _ \<Rightarrow> (Fail 500 (JStr ''ValueError''), s)))"

section \<open>The registry as a service\<close>

datatype eval_op =
    CreateSuite body | ListSuites "string option" nat nat | GetSuite string
  | UpdateSuite string body | FreezeSuite string
  | Score body | ListResults "string option" "string option" "string option" nat nat | Reveal nat
  | CreateAdapter body | ListAdapters "string option" nat nat
  | CreateTask body | ListTasks "string option" "string option" nat nat | TaskStatus string body
  | CreatePlan body | ListPlans "string option" nat nat | GetPlan string
  | CreateBudget body | GetBudget string | ListBudgets "string option" "string option" nat nat
  | Consume string body

text \<open>The scope a route requires, and the handler behind the guard.\<close>

fun op_scope :: "eval_op \<Rightarrow> string option" where
  "op_scope (CreateSuite _) = Some ''eval:write''"
| "op_scope (UpdateSuite _ _) = Some ''eval:write''"
| "op_scope (FreezeSuite _) = Some ''eval:write''"
| "op_scope (CreateAdapter _) = Some ''eval:write''"
| "op_scope (Score _) = Some ''scorer''"
| "op_scope (Reveal _) = Some ''scorer''"
| "op_scope _ = None"

fun eval_handler :: "text_numbers \<Rightarrow> caller \<Rightarrow> eval_op \<Rightarrow> evals_db \<Rightarrow> reply \<times> evals_db" where
  "eval_handler nums cl (CreateSuite b) s = create_eval_suite cl b s"
| "eval_handler nums cl (ListSuites p l n) s = (list_eval_suites p l n s, s)"
| "eval_handler nums cl (GetSuite i) s = (get_eval_suite i s, s)"
| "eval_handler nums cl (UpdateSuite i b) s = update_eval_suite cl i b s"
| "eval_handler nums cl (FreezeSuite i) s = freeze_eval_suite cl i s"
| "eval_handler nums cl (Score b) s = create_eval_result cl b s"
| "eval_handler nums cl (ListResults p u r l n) s = (list_eval_results cl p u r l n s, s)"
| "eval_handler nums cl (Reveal i) s = reveal_eval_result cl i s"
| "eval_handler nums cl (CreateAdapter b) s = create_eval_adapter cl b s"
| "eval_handler nums cl (ListAdapters p l n) s = (list_eval_adapters p l n s, s)"
| "eval_handler nums cl (CreateTask b) s = create_task cl b s"
| "eval_handler nums cl (ListTasks p st l n) s = (list_tasks p st l n s, s)"
| "eval_handler nums cl (TaskStatus i b) s = update_task_status cl i b s"
| "eval_handler nums cl (CreatePlan b) s = create_plan cl b s"
| "eval_handler nums cl (ListPlans p l n) s = (list_plans p l n s, s)"
| "eval_handler nums cl (GetPlan i) s = (get_plan i s, s)"
| "eval_handler nums cl (CreateBudget b) s = create_budget cl b s"
| "eval_handler nums cl (GetBudget i) s = (get_budget nums i s, s)"
| "eval_handler nums cl (ListBudgets p r l n) s = (list_budgets nums p r l n s, s)"
| "eval_handler nums cl (Consume i b) s = consume_budget nums cl i b s"

record eval_req =
  eq_clock :: int
  eq_caller :: caller
  eq_op :: eval_op

definition eval_step :: "auth_config \<Rightarrow> text_numbers \<Rightarrow> eval_req \<Rightarrow> evals_db \<Rightarrow> reply \<times> evals_db" where
  "eval_step cfg nums rq s =
     (case op_scope (eq_op rq) of
        None \<Rightarrow> eval_handler nums (eq_caller rq) (eq_op rq) s
      | Some scope \<Rightarrow>
          (case require_scope cfg (eq_clock rq) scope (eq_caller rq) s of
             (Some r, s') \<Rightarrow> (r, s')
           | (None, s') \<Rightarrow> eval_handler nums (eq_caller rq) (eq_op rq) s'))"

section \<open>What the guards and the side effects leave alone\<close>

text \<open>The effects every handler shares, and the route guard, touch no table of this registry.\<close>

lemma effects_keep_evals [simp]:
  "el_suites (note_audit u a p d st s) = el_suites s" "el_suites (emit_event now p k pl s) = el_suites s"
  "el_results (note_audit u a p d st s) = el_results s" "el_results (emit_event now p k pl s) = el_results s"
  "el_budgets (note_audit u a p d st s) = el_budgets s" "el_budgets (emit_event now p k pl s) = el_budgets s"
  by (simp_all add: note_audit_def emit_event_def Let_def)

lemma note_auth_failure_keeps [simp]:
  "el_suites (snd (note_auth_failure cfg now k s)) = el_suites s"
  "el_results (snd (note_auth_failure cfg now k s)) = el_results s"
  "el_budgets (snd (note_auth_failure cfg now k s)) = el_budgets s"
  by (simp_all add: note_auth_failure_def Let_def)

lemma require_scope_keeps:
  "el_suites (snd (require_scope cfg clk sc cl s)) = el_suites s"
  "el_results (snd (require_scope cfg clk sc cl s)) = el_results s"
  "el_budgets (snd (require_scope cfg clk sc cl s)) = el_budgets s"
  unfolding require_scope_def Let_def emit_auth_spike_anomaly_def case_prod_unfold
  by (simp_all split: bool.split)

text \<open>So a property of those tables is kept by a request when its handler keeps it.\<close>

lemma eval_step_keeps:
  assumes "\<And>t. el_suites t = el_suites s \<Longrightarrow> el_results t = el_results s \<Longrightarrow> el_budgets t = el_budgets s \<Longrightarrow>
      P (snd (eval_handler nums (eq_caller rq) (eq_op rq) t))"
    and "\<And>t. el_suites t = el_suites s \<Longrightarrow> el_results t = el_results s \<Longrightarrow> el_budgets t = el_budgets s \<Longrightarrow> P t"
  shows "P (snd (eval_step cfg nums rq s))"
proof (cases "op_scope (eq_op rq)")
  case (Some sc)
  obtain r t where g: "require_scope cfg (eq_clock rq) sc (eq_caller rq) s = (r, t)" by (cases "require_scope cfg (eq_clock rq) sc (eq_caller rq) s")
  with require_scope_keeps [of cfg "eq_clock rq" sc "eq_caller rq" s]
  have "el_suites t = el_suites s" "el_results t = el_results s" "el_budgets t = el_budgets s" by simp_all
  with assms g Some show ?thesis by (simp add: eval_step_def split: option.split)
qed (simp add: eval_step_def assms)

section \<open>Frozen suites\<close>

definition frozen_as :: "eval_suite \<Rightarrow> evals_db \<Rightarrow> bool" where
  "frozen_as r s \<longleftrightarrow> (\<exists>t. find_row su_id (su_id r) (el_suites s) = Some (r\<lparr>su_updated := t\<rparr>)) \<and> su_frozen r"

lemma frozen_as_cong: "el_suites s = el_suites t \<Longrightarrow> frozen_as r s = frozen_as r t"
  by (simp add: frozen_as_def)

lemma frozen_again: "su_frozen r \<Longrightarrow> r\<lparr>su_frozen := True, su_updated := t\<rparr> = r\<lparr>su_updated := t\<rparr>"
  by (cases r) simp

lemma suite_update_keeps_id: "suite_update cl b s = Inr f \<Longrightarrow> su_id (f r) = su_id r"
  by (auto simp: suite_update_def Let_def split: if_splits sum.splits)

lemma suite_handlers_keep_frozen:
  assumes "frozen_as r s"
  shows "frozen_as r (snd (create_eval_suite cl b s))"
    and "frozen_as r (snd (update_eval_suite cl i b s))"
    and "frozen_as r (snd (freeze_eval_suite cl i s))"
proof -
  obtain t where t: "find_row su_id (su_id r) (el_suites s) = Some (r\<lparr>su_updated := t\<rparr>)" and fr: "su_frozen r"
    using assms by (auto simp: frozen_as_def)
  show "frozen_as r (snd (create_eval_suite cl b s))"
    using t fr by (auto simp: create_eval_suite_def frozen_as_def Let_def find_row_append split: sum.split)
  show "frozen_as r (snd (freeze_eval_suite cl i s))"
    using t fr by (auto simp: freeze_eval_suite_def frozen_as_def fetch_eval_suite_def find_row_upd frozen_again split: option.split)
  show "frozen_as r (snd (update_eval_suite cl i b s))"
  proof (cases "fetch_eval_suite s (JStr i)")
    case (Some q)
    show ?thesis
    proof (cases "su_frozen q \<or> (\<exists>rep. suite_update cl b s = Inl rep)")
      case False
      then obtain f where f: "suite_update cl b s = Inr f" by (cases "suite_update cl b s") auto
      have "su_id r \<noteq> JStr i" using False Some t fr by (auto simp: fetch_eval_suite_def)
      then show ?thesis
        using False Some f t fr by (auto simp: update_eval_suite_def frozen_as_def find_row_upd suite_update_keeps_id [OF f])
    qed (use Some assms in \<open>auto simp: update_eval_suite_def\<close>)
  qed (simp add: update_eval_suite_def assms)
qed

text \<open>The handlers of the other tables leave the suites alone.\<close>

lemma other_handlers_keep_suites:
  "el_suites (snd (create_eval_result cl b s)) = el_suites s"
  "el_suites (snd (reveal_eval_result cl n s)) = el_suites s"
  "el_suites (snd (create_eval_adapter cl b s)) = el_suites s"
  "el_suites (snd (create_task cl b s)) = el_suites s"
  "el_suites (snd (update_task_status cl i b s)) = el_suites s"
  "el_suites (snd (create_plan cl b s)) = el_suites s"
  "el_suites (snd (create_budget cl b s)) = el_suites s"
  "el_suites (snd (consume_budget nums cl i b s)) = el_suites s"
  by (simp_all add: create_eval_result_def reveal_eval_result_def create_eval_adapter_def create_task_def
      update_task_status_def create_plan_def create_budget_def consume_budget_def Let_def
      split: option.split sum.split json.split)

lemma handler_keeps_frozen: "frozen_as r s \<Longrightarrow> frozen_as r (snd (eval_handler nums cl op s))"
  by (cases op) (simp_all add: suite_handlers_keep_frozen other_handlers_keep_suites
      frozen_as_cong [where s = "snd (f s)" and t = s for f s])

text \<open>
  C32. A frozen eval suite is immutable. Once a suite is frozen, no sequence of requests to the
  registry by any callers changes its project, object, name, blindness, author or creation time, or
  unfreezes it: its row is still there and equal but for the time stamp of the last update.
\<close>

theorem frozen_suite_immutable:
  assumes "fetch_eval_suite s i = Some r" and "su_frozen r"
  shows "\<exists>t. fetch_eval_suite (snd (serve (eval_step cfg nums) rqs s)) i = Some (r\<lparr>su_updated := t\<rparr>)"
proof -
  have i: "su_id r = i" using assms(1) by (auto simp: fetch_eval_suite_def dest: find_row_SomeD)
  have "frozen_as r (snd (serve (eval_step cfg nums) rqs s))"
  proof (rule serve_invariant)
    show "frozen_as r s" using assms i by (auto simp: frozen_as_def fetch_eval_suite_def intro!: exI [of _ "su_updated r"])
    show "frozen_as r (snd (eval_step cfg nums rq t))" if "frozen_as r t" for rq t
      by (rule eval_step_keeps) (use that frozen_as_cong handler_keeps_frozen in blast)+
  qed
  then show ?thesis using i by (auto simp: frozen_as_def fetch_eval_suite_def)
qed

section \<open>Blind scoring\<close>

text \<open>The state with the score and details of the unrevealed results in \<open>H\<close> blanked out.\<close>

definition hide_row :: "nat set \<Rightarrow> eval_result \<Rightarrow> eval_result" where
  "hide_row H r = (if er_id r \<in> H \<and> \<not> er_revealed r then r\<lparr>er_score := JNull, er_details := JNull\<rparr> else r)"

definition set_results :: "eval_result list \<Rightarrow> evals_db \<Rightarrow> evals_db" where
  "set_results x s = s\<lparr>el_results := x\<rparr>"

definition hide :: "nat set \<Rightarrow> evals_db \<Rightarrow> evals_db" where
  "hide H s = set_results (map (hide_row H) (el_results s)) s"

lemma set_results_simps [simp]:
  "el_objects (set_results x s) = el_objects s" "el_suites (set_results x s) = el_suites s"
  "el_results (set_results x s) = x" "el_next_result (set_results x s) = el_next_result s"
  "el_adapters (set_results x s) = el_adapters s" "el_tasks (set_results x s) = el_tasks s"
  "el_plans (set_results x s) = el_plans s" "el_budgets (set_results x s) = el_budgets s"
  "el_suites_update f (set_results x s) = set_results x (el_suites_update f s)"
  "el_adapters_update g (set_results x s) = set_results x (el_adapters_update g s)"
  "el_tasks_update h (set_results x s) = set_results x (el_tasks_update h s)"
  "el_plans_update p (set_results x s) = set_results x (el_plans_update p s)"
  "el_budgets_update b (set_results x s) = set_results x (el_budgets_update b s)"
  "au_calls (set_results x s) = au_calls s" "au_window (set_results x s) = au_window s"
  "au_calls_update n (set_results x s) = set_results x (au_calls_update n s)"
  "au_window_update w (set_results x s) = set_results x (au_window_update w s)"
  "set_results x (set_results y s) = set_results x s"
  by (simp_all add: set_results_def)

lemma hide_row_fields [simp]:
  "er_id (hide_row H r) = er_id r" "er_project (hide_row H r) = er_project r"
  "er_suite (hide_row H r) = er_suite r" "er_run (hide_row H r) = er_run r"
  "er_revealed (hide_row H r) = er_revealed r" "er_created (hide_row H r) = er_created r"
  "hide_row H (hide_row H r) = hide_row H r" "hide_row H \<circ> hide_row H = hide_row H"
  by (simp_all add: hide_row_def fun_eq_iff)

lemma hide_row_outside [simp]: "er_id r \<notin> H \<Longrightarrow> hide_row H r = r"
  by (simp add: hide_row_def)

lemma hide_row_redacted [simp]: "eval_result_to_dict (hide_row H r) True = eval_result_to_dict r True"
  by (simp add: eval_result_to_dict_def hide_row_def)

text \<open>The shared effects and the guards do not read the results.\<close>

lemma effects_commute_results [simp]:
  "note_audit u a p d st (set_results x s) = set_results x (note_audit u a p d st s)"
  "emit_event now p k pl (set_results x s) = set_results x (emit_event now p k pl s)"
  by (simp_all add: note_audit_def emit_event_def Let_def set_results_def)

lemma require_scope_commute [simp]:
  "require_scope cfg clk sc cl (set_results x s) =
     (fst (require_scope cfg clk sc cl s), set_results x (snd (require_scope cfg clk sc cl s)))"
proof -
  have nf: "note_auth_failure cfg clk k (set_results x t) =
      (fst (note_auth_failure cfg clk k t), set_results x (snd (note_auth_failure cfg clk k t)))"
    for k and t :: evals_db
    by (rule prod_eqI) (simp_all add: note_auth_failure_def Let_def if_distrib [of fst] if_distrib [of snd]
        if_distrib [of "set_results x"] split del: if_split cong: if_cong)
  show ?thesis
    unfolding require_scope_def Let_def emit_auth_spike_anomaly_def effects_commute_results nf case_prod_unfold
    by (simp split: bool.split)
qed

lemma fetch_eval_suite_results [simp]: "fetch_eval_suite (set_results x s) i = fetch_eval_suite s i"
  by (simp add: fetch_eval_suite_def)

lemma suite_update_results [simp]: "suite_update cl b (set_results x s) = suite_update cl b s"
  by (simp add: suite_update_def Let_def cong: if_cong sum.case_cong)

text \<open>A handler that neither reads nor writes the results commutes with replacing them.\<close>

definition ignores_results :: "(evals_db \<Rightarrow> reply \<times> evals_db) \<Rightarrow> bool" where
  "ignores_results h \<longleftrightarrow>
     (\<forall>s x. h (set_results x s) = (fst (h s), set_results x (snd (h s))) \<and> el_results (snd (h s)) = el_results s)"

lemma handlers_ignore_results:
  "ignores_results (create_eval_suite cl b)"
  "ignores_results (update_eval_suite cl i b)"
  "ignores_results (freeze_eval_suite cl i)"
  "ignores_results (create_eval_adapter cl b)"
  "ignores_results (create_task cl b)"
  "ignores_results (update_task_status cl i b)"
  "ignores_results (create_plan cl b)"
  "ignores_results (create_budget cl b)"
  "ignores_results (consume_budget nums cl i b)"
  by (simp_all add: ignores_results_def create_eval_suite_def update_eval_suite_def freeze_eval_suite_def
      create_eval_adapter_def create_task_def update_task_status_def create_plan_def create_budget_def
      consume_budget_def Let_def split: option.split sum.split json.split)

lemma readers_ignore_results:
  "ignores_results (\<lambda>s. (list_eval_suites p l n s, s))" "ignores_results (\<lambda>s. (get_eval_suite i s, s))"
  "ignores_results (\<lambda>s. (list_eval_adapters p l n s, s))" "ignores_results (\<lambda>s. (list_tasks p st l n s, s))"
  "ignores_results (\<lambda>s. (list_plans p l n s, s))" "ignores_results (\<lambda>s. (get_plan i s, s))"
  "ignores_results (\<lambda>s. (get_budget nums i s, s))" "ignores_results (\<lambda>s. (list_budgets nums p st l n s, s))"
  by (simp_all add: ignores_results_def list_eval_suites_def get_eval_suite_def list_eval_adapters_def
      list_tasks_def list_plans_def get_plan_def get_budget_def list_budgets_def)

lemma ignores_results_hide:
  assumes "ignores_results h"
  shows "fst (h (hide H s)) = fst (h s) \<and> hide H (snd (h (hide H s))) = hide H (snd (h s))"
  using assms unfolding ignores_results_def hide_def by simp

text \<open>The three handlers of results: scoring does not read them, listing redacts for outsiders, revealing
  needs a scorer.\<close>

lemma create_eval_result_hide:
  "fst (create_eval_result cl b (hide H s)) = fst (create_eval_result cl b s)
   \<and> hide H (snd (create_eval_result cl b (hide H s))) = hide H (snd (create_eval_result cl b s))"
  by (cases "fetch_eval_suite s (field b ''suite_id'' JNull)")
    (simp_all add: create_eval_result_def hide_def set_results_def Let_def note_audit_def emit_event_def
      fetch_eval_suite_def)

lemma list_eval_results_hide:
  assumes "\<not> reads_scores cl"
  shows "list_eval_results cl p u r l n (hide H s) = list_eval_results cl p u r l n s"
proof -
  have "map (\<lambda>q. eval_result_to_dict q True) (page l n (newest_first er_created (map (hide_row H) rows))) =
      map (\<lambda>q. eval_result_to_dict q True) (page l n (newest_first er_created rows))" for rows
    by (simp add: newest_first_map page_def drop_map take_map)
  then show ?thesis
    using assms by (simp add: list_eval_results_def listing_def hide_def filter_map comp_def)
qed

lemma reveal_eval_result_hide:
  assumes "i \<notin> H"
  shows "fst (reveal_eval_result cl i (hide H s)) = fst (reveal_eval_result cl i s)
   \<and> hide H (snd (reveal_eval_result cl i (hide H s))) = hide H (snd (reveal_eval_result cl i s))"
proof -
  have find: "find_row er_id i (map (hide_row H) rows) = find_row er_id i rows" for rows
    using assms by (induction rows) auto
  have upd: "map (hide_row H) (upd_row er_id i (\<lambda>r. r\<lparr>er_revealed := True\<rparr>) (map (hide_row H) rows)) =
      map (hide_row H) (upd_row er_id i (\<lambda>r. r\<lparr>er_revealed := True\<rparr>) rows)" for rows
    using assms by (induction rows) (auto simp: upd_row_def)
  show ?thesis
    by (cases "find_row er_id i (el_results s)")
      (simp_all add: reveal_eval_result_def hide_def find upd set_results_def note_audit_def emit_event_def Let_def)
qed

definition low_eq :: "nat set \<Rightarrow> evals_db \<Rightarrow> evals_db \<Rightarrow> bool" where
  "low_eq H s t \<longleftrightarrow> hide H s = hide H t"

definition outsider :: "eval_req \<Rightarrow> bool" where
  "outsider rq \<longleftrightarrow> \<not> reads_scores (eq_caller rq)"

definition keeps_secret :: "nat set \<Rightarrow> eval_req \<Rightarrow> bool" where
  "keeps_secret H rq \<longleftrightarrow> outsider rq \<or> (case eq_op rq of Reveal i \<Rightarrow> i \<notin> H | _ \<Rightarrow> True)"

lemmas hidden_facts =
  handlers_ignore_results [THEN ignores_results_hide] readers_ignore_results [THEN ignores_results_hide]

lemma handler_hide:
  assumes "case op of Reveal i \<Rightarrow> i \<notin> H | _ \<Rightarrow> True"
  shows "hide H (snd (eval_handler nums cl op (hide H s))) = hide H (snd (eval_handler nums cl op s))"
    and "\<not> reads_scores cl \<Longrightarrow> fst (eval_handler nums cl op (hide H s)) = fst (eval_handler nums cl op s)"
  using assms hidden_facts
    create_eval_result_hide list_eval_results_hide reveal_eval_result_hide
  by (cases op; simp)+

lemma require_scope_hide:
  "require_scope cfg clk sc cl (hide H s) =
     (fst (require_scope cfg clk sc cl s), hide H (snd (require_scope cfg clk sc cl s)))"
  by (simp add: hide_def require_scope_keeps)

text \<open>The scope a scorer route requires is the scope that reads scores.\<close>

lemma outsider_denied:
  "\<not> reads_scores cl \<Longrightarrow> fst (require_scope cfg clk ''scorer'' cl s) \<noteq> None"
  by (auto simp: require_scope_def reads_scores_def effective_scopes_def Let_def split: option.splits list.splits)

lemma eval_step_hide:
  assumes "keeps_secret H rq"
  shows "hide H (snd (eval_step cfg nums rq (hide H s))) = hide H (snd (eval_step cfg nums rq s))"
    and "outsider rq \<Longrightarrow> fst (eval_step cfg nums rq (hide H s)) = fst (eval_step cfg nums rq s)"
proof -
  have "hide H (snd (eval_step cfg nums rq (hide H s))) = hide H (snd (eval_step cfg nums rq s))
    \<and> (outsider rq \<longrightarrow> fst (eval_step cfg nums rq (hide H s)) = fst (eval_step cfg nums rq s))"
  proof (cases "op_scope (eq_op rq)")
    case None
    then have "case eq_op rq of Reveal i \<Rightarrow> i \<notin> H | _ \<Rightarrow> True" by (cases "eq_op rq") auto
    from handler_hide [OF this] None show ?thesis by (simp add: eval_step_def outsider_def)
  next
    case (Some sc)
    obtain g t where g: "require_scope cfg (eq_clock rq) sc (eq_caller rq) s = (g, t)"
      by (cases "require_scope cfg (eq_clock rq) sc (eq_caller rq) s")
    have idem: "hide H (hide H t) = hide H t" by (simp add: hide_def)
    show ?thesis
    proof (cases g)
      case (Some r)
      with g \<open>op_scope (eq_op rq) = Some sc\<close> show ?thesis by (simp add: eval_step_def require_scope_hide idem)
    next
      case admitted: None
      have "case eq_op rq of Reveal i \<Rightarrow> i \<notin> H | _ \<Rightarrow> True"
        using assms Some g admitted outsider_denied [of "eq_caller rq" cfg "eq_clock rq" s]
        by (cases "eq_op rq") (auto simp: keeps_secret_def outsider_def)
      from handler_hide [OF this] g admitted Some show ?thesis
        by (simp add: eval_step_def require_scope_hide outsider_def)
    qed
  qed
  then show "hide H (snd (eval_step cfg nums rq (hide H s))) = hide H (snd (eval_step cfg nums rq s))"
    and "outsider rq \<Longrightarrow> fst (eval_step cfg nums rq (hide H s)) = fst (eval_step cfg nums rq s)" by blast+
qed

interpretation vault: unwinding "eval_step cfg nums" "low_eq H" "\<lambda>a b. a = b \<and> keeps_secret H a" outsider
  for cfg nums H
proof unfold_locales
  fix s t :: evals_db and a b :: eval_req
  assume eq: "low_eq H s t" "a = b \<and> keeps_secret H a"
  then show "low_eq H (snd (eval_step cfg nums a s)) (snd (eval_step cfg nums b t))"
    unfolding low_eq_def by (metis eval_step_hide(1))
  from eq show "outsider a \<Longrightarrow> fst (eval_step cfg nums a s) = fst (eval_step cfg nums b t)"
    unfolding low_eq_def by (metis eval_step_hide(2))
qed simp

text \<open>Everything a reader without the \<open>scorer\<close> scope is told by the registry.\<close>

definition outsider_view :: "auth_config \<Rightarrow> text_numbers \<Rightarrow> eval_req list \<Rightarrow> evals_db \<Rightarrow> reply list" where
  "outsider_view cfg nums rqs s = map snd (filter (\<lambda>(rq, _). outsider rq) (fst (serve (eval_step cfg nums) rqs s)))"

lemma outsider_view_low_eq:
  assumes "low_eq H s t" and "list_all (keeps_secret H) rqs"
  shows "outsider_view cfg nums rqs s = outsider_view cfg nums rqs t"
proof -
  have "list_all2 (\<lambda>a b. a = b \<and> keeps_secret H a) rqs rqs" using assms(2) by (induction rqs) auto
  from vault.noninterference [OF this assms(1), of cfg nums] show ?thesis
    by (simp add: outsider_view_def vault.seen_def)
qed

definition score_req :: "int \<Rightarrow> caller \<Rightarrow> body \<Rightarrow> eval_req" where
  "score_req clk cl b = \<lparr>eq_clock = clk, eq_caller = cl, eq_op = Score b\<rparr>"

lemma blind_scores_low_eq:
  assumes "fetch_eval_suite s (field b ''suite_id'' JNull) = Some su" and "su_blind su"
    and "\<And>k. k \<in> {''project_id'', ''suite_id'', ''run_id''} \<Longrightarrow> field b k JNull = field b' k JNull"
  shows "low_eq {el_next_result s} (snd (create_eval_result cl b s)) (snd (create_eval_result cl b' s))
    \<and> fst (create_eval_result cl b s) = fst (create_eval_result cl b' s)"
  using assms(1,2) assms(3) [of "''project_id''"] assms(3) [of "''suite_id''"] assms(3) [of "''run_id''"]
  by (simp add: create_eval_result_def low_eq_def hide_def hide_row_def set_results_def Let_def
      note_audit_def emit_event_def)

text \<open>
  C5. A blind score stays hidden until it is revealed. Scoring a blind suite with two different
  scores and details: whatever requests follow, by any callers, as long as nobody with the scorer
  scope reveals this result, every reply that any caller without the scorer scope gets is the same in
  both cases. So nothing the registry tells such callers depends on the score.
\<close>

theorem blind_score_hidden:
  assumes "fetch_eval_suite s (field b ''suite_id'' JNull) = Some su" and "su_blind su"
    and "\<forall>k \<in> {''project_id'', ''suite_id'', ''run_id''}. field b k JNull = field b' k JNull"
    and "list_all (keeps_secret {el_next_result s}) rqs"
  shows "outsider_view cfg nums (score_req clk cl b # rqs) s = outsider_view cfg nums (score_req clk cl b' # rqs) s"
proof -
  let ?H = "{el_next_result s}"
  obtain g t where g: "require_scope cfg clk ''scorer'' cl s = (g, t)" by (cases "require_scope cfg clk ''scorer'' cl s")
  have step: "low_eq ?H (snd (eval_step cfg nums (score_req clk cl b) s)) (snd (eval_step cfg nums (score_req clk cl b') s))
    \<and> fst (eval_step cfg nums (score_req clk cl b) s) = fst (eval_step cfg nums (score_req clk cl b') s)"
  proof (cases g)
    case (Some r)
    with g show ?thesis by (simp add: eval_step_def score_req_def low_eq_def)
  next
    case None
    then have "t = s" using g by (auto simp: require_scope_def Let_def split: if_splits)
    with None g blind_scores_low_eq [OF assms(1,2), of b' cl] assms(3) show ?thesis
      by (simp add: eval_step_def score_req_def)
  qed
  then show ?thesis
    using outsider_view_low_eq [OF conjunct1 [OF step] assms(4), of cfg nums]
    by (simp add: outsider_view_def case_prod_unfold score_req_def outsider_def)
qed

section \<open>Budgets\<close>

text \<open>
  The amounts that the accepted consumptions of budget \<open>i\<close> name under \<open>key\<close>. A consumption whose
  response cannot be rendered is committed all the same.
\<close>

definition accepted :: "reply \<Rightarrow> bool" where
  "accepted rep \<longleftrightarrow> \<not> failed rep \<or> rep = UNRENDERED"












text \<open>
  A text such as \<open>inf\<close> is an amount: the consumption is committed, its response and every later read of
  the budget are a 500, provided the framework does not render an infinite number.
\<close>

lemma infinite_seconds_break_reads:
  assumes "find_row bg_id (JStr i) (el_budgets s) = Some r" and "bg_compute r = Finite x"
    and "tn_float nums ''inf'' = Some (Infinite False)" and "tn_json nums (Infinite False) = None"
    and "fits 64 (bg_storage r)" and "fits 32 (bg_steps r)"
    and "consume_budget nums cl i [(''compute_seconds'', JStr ''inf'')] s = (rep, t)"
  shows "rep = UNRENDERED \<and> get_budget nums i t = UNRENDERED"
proof -
  let ?r = "spend (cl_now cl) (Infinite False) 0 0 r"
  have r: "bg_compute ?r = Infinite False" "bg_storage ?r = bg_storage r" "bg_steps ?r = bg_steps r" "bg_id ?r = bg_id r"
    using assms(2) by (simp_all add: spend_def)
  then have none: "budget_to_dict nums ?r = None"
    using assms(4) by (simp add: budget_to_dict_def split: option.split)
  have keep: "bg_id (spend now c st sp q) = bg_id q" for now c st sp q by (simp add: spend_def)
  from assms(1,3,5,6,7) r none show ?thesis
    by (auto simp: consume_budget_def get_budget_def answer_def Let_def field_def dget_or_def find_row_upd keep)
qed

section \<open>Concrete requests\<close>

definition demo_suite :: eval_suite where
  "demo_suite = \<lparr>su_id = JStr ''s'', su_project = JStr ''p'', su_object = replicate 64 CHR ''a'', su_name = JNull,
     su_frozen = True, su_blind = True, su_created_by = None, su_created = 0, su_updated = 0\<rparr>"

definition demo_budget :: budget_row where
  "demo_budget = \<lparr>bg_id = JStr ''b'', bg_project = JStr ''p'', bg_scope = ''run'', bg_ref = JStr ''r'',
     bg_compute_limit = None, bg_storage_limit = None, bg_step_limit = Some 10,
     bg_compute = Finite 0, bg_storage = 0, bg_steps = 0, bg_created_by = None, bg_created = 0, bg_updated = 0\<rparr>"

definition demo_evals :: evals_db where
  "demo_evals = auth_db.extend demo_auth_db
     \<lparr>el_objects = [], el_suites = [demo_suite], el_results = [], el_next_result = 1, el_adapters = [],
      el_tasks = [], el_plans = [], el_budgets = [demo_budget]\<rparr>"

definition demo_nums :: text_numbers where
  "demo_nums = \<lparr>tn_float = (\<lambda>_. None), tn_int = (\<lambda>_. None), tn_json = (\<lambda>x. Some JNull)\<rparr>"

definition request :: "string list \<Rightarrow> eval_op \<Rightarrow> eval_req" where
  "request scopes op = \<lparr>eq_clock = 0, eq_caller = demo_caller\<lparr>cl_scopes := Some scopes\<rparr>, eq_op = op\<rparr>"

lemma frozen_suite_immutable_witness:
  "\<exists>t. fetch_eval_suite (snd (serve (eval_step demo_auth demo_nums)
      [request [''*''] (UpdateSuite ''s'' [(''blind'', JBool False)]), request [''*''] (FreezeSuite ''s'')] demo_evals)) (JStr ''s'')
    = Some (demo_suite\<lparr>su_updated := t\<rparr>)"
  by (rule frozen_suite_immutable)
    (simp_all add: demo_evals_def auth_db.extend_def fetch_eval_suite_def demo_suite_def)

definition scored :: "int \<Rightarrow> body" where
  "scored n = [(''project_id'', JStr ''p''), (''suite_id'', JStr ''s''), (''score'', JInt n)]"

definition peeks :: "eval_req list" where
  "peeks = [request [''read''] (ListResults None None None 50 0), request [''read''] (Reveal 1)]"

text \<open>The reader learns of one result, without its score, and is refused the reveal.\<close>

lemma blind_score_hidden_witness:
  "outsider_view demo_auth demo_nums (score_req 0 demo_caller (scored 1) # peeks) demo_evals
     = outsider_view demo_auth demo_nums (score_req 0 demo_caller (scored 99) # peeks) demo_evals
   \<and> map failed (outsider_view demo_auth demo_nums (score_req 0 demo_caller (scored 1) # peeks) demo_evals) = [False, True]"
proof
  show "outsider_view demo_auth demo_nums (score_req 0 demo_caller (scored 1) # peeks) demo_evals
     = outsider_view demo_auth demo_nums (score_req 0 demo_caller (scored 99) # peeks) demo_evals"
  proof (rule blind_score_hidden [where su = demo_suite])
    show "fetch_eval_suite demo_evals (field (scored 1) ''suite_id'' JNull) = Some demo_suite" "su_blind demo_suite"
      by code_simp+
    show "\<forall>k \<in> {''project_id'', ''suite_id'', ''run_id''}. field (scored 1) k JNull = field (scored 99) k JNull"
      by code_simp
    show "list_all (keeps_secret {el_next_result demo_evals}) peeks"
      by code_simp
  qed
  show "map failed (outsider_view demo_auth demo_nums (score_req 0 demo_caller (scored 1) # peeks) demo_evals) = [False, True]"
    by code_simp
qed




end
