(* ===== verification/Commits.thy ===== *)
theory Commits
  imports Complex_Main Runs Merkle SemDiff Auth
begin

text \<open>
  Commits on the registry: \<open>push_commit\<close> with its checks, the run it links, the anomaly detectors and
  their cache of resolved trees, and the routes that read commits back. \<open>datetime.fromisoformat\<close>,
  \<open>json.loads\<close>, float division and the JSON rendering of a diff summary are fields of the
  configuration. A database error and any other exception inside the handler's \<open>try\<close> is a 500 and
  leaves the tables as they were.
\<close>

section \<open>Rows and state\<close>

record commit_row =
  co_hash :: hash
  co_tenant :: string
  co_message :: json
  co_author :: json
  co_timestamp :: datetime
  co_parent :: json
  co_extra :: "string option"
  co_signature :: "string option"
  co_env :: "string option"
  co_root :: hash
  co_tags :: "json list"
  co_metrics :: body
  co_project :: string
  co_project_name :: string

type_synonym leaves = "(string, leaf) dict"

record commits_db = runs_db +
  cm_commits :: "commit_row list"
  cm_trees :: "merkle_row list"
  cm_cache :: "(hash, leaves) dict"
  cm_local :: "(hash, json) dict"

text \<open>
  \<open>cf_fuel\<close> bounds the depth of a resolved tree; a tree whose walk does not end within it needs a
  hash collision and is treated like an exception. \<open>cf_ratio\<close> is
  \<open>AV_ANOMALY_METRIC_JUMP_RATIO\<close>, \<open>cf_float\<close> renders a ratio.
\<close>

record commit_config =
  cf_sha :: "string \<Rightarrow> hash"
  cf_iso :: "string \<Rightarrow> datetime option"
  cf_loads :: "string \<Rightarrow> json option"
  cf_float :: "rat \<Rightarrow> json"
  cf_summary :: "sem_diff \<times> string \<Rightarrow> body"
  cf_fuel :: nat
  cf_ratio :: rat
  cf_mass :: nat
  cf_tenancy :: bool

section \<open>Limits and fields of a push\<close>

definition MAX_TREE_ENTRIES :: int where "MAX_TREE_ENTRIES = 100000"
definition MAX_METRICS :: int where "MAX_METRICS = 1000"
definition MAX_TAGS :: int where "MAX_TAGS = 200"
definition MAX_MESSAGE_LEN :: int where "MAX_MESSAGE_LEN = 20000"
definition MAX_TAG_LEN :: int where "MAX_TAG_LEN = 200"

text \<open>\<open>len(x or "")\<close>; \<open>None\<close> is the \<open>TypeError\<close>.\<close>

fun length_or_empty :: "json \<Rightarrow> nat option" where
  "length_or_empty (JStr t) = Some (length t)"
| "length_or_empty (JList js) = Some (length js)"
| "length_or_empty (JObj fs) = Some (length fs)"
| "length_or_empty j = (if truthy j then None else Some 0)"

fun tag_ok :: "json \<Rightarrow> bool" where
  "tag_ok (JStr t) = (int (length t) \<le> MAX_TAG_LEN)"
| "tag_ok _ = False"

text \<open>The size checks, in order; \<open>Inr\<close> carries the tree, metrics and tags.\<close>

definition check_sizes :: "body \<Rightarrow> reply + body \<times> body \<times> json list" where
  "check_sizes b =
     (case field b ''tree'' (JObj []) of
        JObj tree \<Rightarrow>
          if MAX_TREE_ENTRIES < int (length tree) then Inl (Fail 422 (JStr ''Commit tree too large or malformed''))
          else (case field b ''metrics'' (JObj []) of
            JObj metrics \<Rightarrow>
              if MAX_METRICS < int (length metrics) then Inl (Fail 422 (JStr ''Too many metrics or malformed''))
              else (case field b ''tags'' (JList []) of
                JList tags \<Rightarrow>
                  if MAX_TAGS < int (length tags) \<or> \<not> list_all tag_ok tags
                  then Inl (Fail 422 (JStr ''Too many/oversized tags or malformed''))
                  else (case length_or_empty (field b ''message'' (JStr [])) of
                      None \<Rightarrow> Inl (Fail 500 (JStr ''TypeError''))
                    | Some n \<Rightarrow> if MAX_MESSAGE_LEN < int n then Inl (Fail 422 (JStr ''Commit message too long''))
                                else Inr (tree, metrics, tags))
              | _ \<Rightarrow> Inl (Fail 422 (JStr ''Too many/oversized tags or malformed'')))
          | _ \<Rightarrow> Inl (Fail 422 (JStr ''Too many metrics or malformed'')))
      | _ \<Rightarrow> Inl (Fail 422 (JStr ''Commit tree too large or malformed'')))"

definition project_fields :: "body \<Rightarrow> (string \<times> string) option" where
  "project_fields b =
     (case (or_else (field b ''project_id'' JNull) (JStr ''legacy''),
            or_else (field b ''project_name'' JNull) (JStr ''Legacy / Unknown'')) of
        (JStr p, JStr n) \<Rightarrow> if length p \<le> 128 \<and> length n \<le> 200 then Some (p, n) else None
      | _ \<Rightarrow> None)"

text \<open>The legacy \<open>{code, artifacts}\<close> form becomes a flat tree; \<open>None\<close> is the \<open>AttributeError\<close>.\<close>

definition legacy_code :: "body \<Rightarrow> flat_tree" where
  "legacy_code cs =
     foldl (\<lambda>d (p, h). dset d p (JObj [(''hash'', h), (''size'', JInt 0), (''type'', JStr ''code'')])) [] cs"

definition flatten_legacy :: "body \<Rightarrow> flat_tree option" where
  "flatten_legacy t =
     (if has_key t ''code'' \<or> has_key t ''artifacts''
      then (case (field t ''code'' (JObj []), field t ''artifacts'' (JObj [])) of
              (JObj cs, JObj arts) \<Rightarrow> Some (foldl (\<lambda>d (p, i). dset d p i) (legacy_code cs) arts)
            | _ \<Rightarrow> None)
      else Some t)"

definition replace_Z :: "string \<Rightarrow> string" where
  "replace_Z t = concat (map (\<lambda>c. if c = CHR ''Z'' then ''+00:00'' else [c]) t)"

text \<open>\<open>None\<close>: the \<open>AttributeError\<close> of a time stamp that is no text, which is not caught.\<close>

fun commit_time :: "(string \<Rightarrow> datetime option) \<Rightarrow> json \<Rightarrow> datetime option option" where
  "commit_time parse (JStr t) = Some (if t = [] then None else parse (replace_Z t))"
| "commit_time parse j = (if truthy j then None else Some None)"

text \<open>\<open>parents[0]\<close> and \<open>json.dumps(parents[1:])\<close>; \<open>None\<close> is an exception.\<close>

fun parent_columns :: "json \<Rightarrow> (json \<times> string option) option" where
  "parent_columns (JList (p # ps)) = Some (p, if ps = [] then None else Some (dumps (JList ps)))"
| "parent_columns (JStr (c # cs)) = Some (JStr [c], if cs = [] then None else Some (dumps (JStr cs)))"
| "parent_columns j = (if j \<in> {JList [], JStr [], JObj []} then Some (JNull, None) else None)"

definition commit_author :: "caller \<Rightarrow> body \<Rightarrow> json" where
  "commit_author cl b =
     (let a = field b ''author'' (JStr ''anonymous'')
      in case cl_username cl of
           Some (c # cs) \<Rightarrow> if a = JStr ''anonymous'' then JStr (c # cs) else a
         | _ \<Rightarrow> a)"

fun env_field :: "json \<Rightarrow> string option" where
  "env_field (JStr h) = (if is_sha256_hex h then Some h else None)"
| "env_field _ = None"

definition row_tenant :: "caller \<Rightarrow> string" where
  "row_tenant cl = (case cl_tenant cl of Some (c # cs) \<Rightarrow> c # cs | _ \<Rightarrow> DEFAULT_TENANT_ID)"

definition find_commit :: "json \<Rightarrow> 'a commits_db_scheme \<Rightarrow> commit_row option" where
  "find_commit h s = find_row (\<lambda>c. JStr (co_hash c)) h (cm_commits s)"

section \<open>Linking the run\<close>

text \<open>A run the registry has not seen is created on the spot, in state \<open>created\<close>.\<close>

definition lazy_run :: "caller \<Rightarrow> json \<Rightarrow> string \<Rightarrow> json \<Rightarrow> body \<Rightarrow> run_row" where
  "lazy_run cl run project author metrics =
     \<lparr>rn_id = run, rn_project = JStr project, rn_name = JNull, rn_status = ''created'', rn_kind = ''train'',
      rn_improver = JNull, rn_parent = JNull,
      rn_created_by = (case cl_username cl of Some (c # cs) \<Rightarrow> Some (c # cs) | _ \<Rightarrow> text_col author),
      rn_config = JNull, rn_code = JNull, rn_env = JNull, rn_avh = JNull, rn_policy = JNull,
      rn_integrity = JNull, rn_plan = JNull, rn_budget = JNull, rn_stop = JNull,
      rn_metrics = JObj metrics, rn_created = cl_now cl, rn_completed = None, rn_updated = cl_now cl\<rparr>"

definition backfill_env :: "json \<Rightarrow> run_row \<Rightarrow> run_row" where
  "backfill_env env r = (if truthy env \<and> \<not> truthy (rn_env r) then r\<lparr>rn_env := JStr (py_str env)\<rparr> else r)"

definition link_run ::
  "caller \<Rightarrow> body \<Rightarrow> hash \<Rightarrow> string \<Rightarrow> json \<Rightarrow> body \<Rightarrow> 'a commits_db_scheme \<Rightarrow> 'a commits_db_scheme option" where
  "link_run cl b h project author metrics s =
     (let run = field b ''run_id'' JNull; env = field b ''env_snapshot_id'' JNull;
          link = \<lparr>rc_run = run, rc_commit = h, rc_created = cl_now cl\<rparr>
      in if \<not> truthy run then Some s
         else if \<not> text_column run then None
         else case find_row rn_id run (rs_runs s) of
           None \<Rightarrow> Some (s\<lparr>rs_runs := rs_runs s @ [backfill_env env (lazy_run cl run project author metrics)],
                           rs_links := rs_links s @ [link]\<rparr>)
         | Some r \<Rightarrow>
             (case (if metrics = [] then Some (rn_metrics r) else merge_metrics (rn_metrics r) (JObj metrics)) of
                None \<Rightarrow> None
              | Some m \<Rightarrow> Some (s\<lparr>rs_runs := upd_row rn_id run
                    (\<lambda>_. backfill_env env (r\<lparr>rn_metrics := m, rn_updated := cl_now cl\<rparr>)) (rs_runs s),
                    rs_links := rs_links s @ [link]\<rparr>)))"

section \<open>Anomaly detectors\<close>

text \<open>Numbers and, as in Python, booleans.\<close>

fun metric_num :: "json \<Rightarrow> int option" where
  "metric_num (JInt i) = Some i"
| "metric_num (JBool b) = Some (of_bool b)"
| "metric_num _ = None"

definition metric_jump :: "commit_config \<Rightarrow> body \<Rightarrow> string \<times> json \<Rightarrow> body list" where
  "metric_jump cfg old kv =
     (case kv of (key, new_val) \<Rightarrow>
       (case (metric_num new_val, metric_num (field old key JNull)) of
          (Some n, Some m) \<Rightarrow>
            (let row = (\<lambda>r. [[(''metric'', JStr key), (''old'', field old key JNull), (''new'', new_val), (''ratio'', r)]])
             in if m = 0 then (if n \<noteq> 0 then row JNull else [])
                else let ratio = of_int \<bar>n - m\<bar> / of_int \<bar>m\<bar>
                     in if cf_ratio cfg \<le> ratio then row (cf_float cfg ratio) else [])
        | _ \<Rightarrow> []))"

definition detect_metric_jump :: "commit_config \<Rightarrow> body \<Rightarrow> body \<Rightarrow> body list" where
  "detect_metric_jump cfg old new = concat (map (metric_jump cfg old) new)"

text \<open>
  The cache of resolved trees, least recently used first. An entry of a resolved tree as the
  summary reads it; \<open>None\<close> for an entry that is not of the client's form, which counts as an
  exception of the detector.
\<close>

definition TREE_CACHE_MAX :: nat where "TREE_CACHE_MAX = 256"

definition touch :: "hash \<Rightarrow> leaves \<Rightarrow> (hash, leaves) dict \<Rightarrow> (hash, leaves) dict" where
  "touch h t c = ddel c h @ [(h, t)]"

definition resolve_tree_cached ::
  "commit_config \<Rightarrow> hash \<Rightarrow> 'a commits_db_scheme \<Rightarrow> leaves option \<times> 'a commits_db_scheme" where
  "resolve_tree_cached cfg h s =
     (case dget (cm_cache s) h of
        Some t \<Rightarrow> (Some t, s\<lparr>cm_cache := touch h t (cm_cache s)\<rparr>)
      | None \<Rightarrow>
          (case resolve_tree (cf_fuel cfg) (cm_trees s) h of
             None \<Rightarrow> (None, s)
           | Some t \<Rightarrow> (let c = touch h t (cm_cache s)
                        in (Some t, s\<lparr>cm_cache := drop (length c - TREE_CACHE_MAX) c\<rparr>))))"

fun text_or_null :: "json \<Rightarrow> string option option" where
  "text_or_null JNull = Some None"
| "text_or_null (JStr t) = Some (Some t)"
| "text_or_null _ = None"

fun int_or_null :: "json \<Rightarrow> int option option" where
  "int_or_null JNull = Some None"
| "int_or_null (JInt i) = Some (Some i)"
| "int_or_null _ = None"

fun all_some :: "'x option list \<Rightarrow> 'x list option" where
  "all_some [] = Some []"
| "all_some (None # xs) = None"
| "all_some (Some x # xs) = map_option ((#) x) (all_some xs)"

fun layer_of :: "json \<Rightarrow> sem_layer option" where
  "layer_of (JObj fs) =
     (case (field fs ''name'' JNull, field fs ''hash'' JNull, int_or_null (field fs ''size'' JNull)) of
        (JStr n, JStr h, Some z) \<Rightarrow> Some \<lparr>sl_name = n, sl_hash = h, sl_size = z\<rparr>
      | _ \<Rightarrow> None)"
| "layer_of _ = None"

fun chunk_of :: "json \<Rightarrow> sem_chunk option" where
  "chunk_of (JObj fs) =
     (case (field fs ''hash'' JNull, int_or_null (field fs ''size'' JNull)) of
        (JStr h, Some z) \<Rightarrow> Some \<lparr>sc_hash = h, sc_size = z\<rparr>
      | _ \<Rightarrow> None)"
| "chunk_of _ = None"

fun json_list :: "json \<Rightarrow> json list option" where
  "json_list (JList js) = Some js"
| "json_list _ = None"

definition sem_of_leaf :: "leaf \<Rightarrow> sem_entry option" where
  "sem_of_leaf l =
     (case (text_or_null (lf_hash l), text_or_null (lf_type l), int_or_null (lf_size l),
            Option.bind (json_list (lf_layers l)) (\<lambda>js. all_some (map layer_of js)),
            Option.bind (json_list (lf_chunks l)) (\<lambda>js. all_some (map chunk_of js))) of
        (Some h, Some ty, Some z, Some las, Some chs) \<Rightarrow>
          Some \<lparr>se_hash = h, se_type = Some ty, se_size = z, se_layers = las, se_chunks = chs\<rparr>
      | _ \<Rightarrow> None)"

definition sem_of_tree :: "leaves \<Rightarrow> sem_tree option" where
  "sem_of_tree t = all_some (map (\<lambda>(p, l). map_option (Pair p) (sem_of_leaf l)) t)"

definition changed_files :: "sem_diff \<Rightarrow> nat" where
  "changed_files d = length (sd_added d) + length (sd_removed d) + length (sd_changed d)"

text \<open>
  Never raises: an exception ends the detection and keeps the events emitted so far. The cache lives
  in the process and keeps what was resolved.
\<close>

definition mass_rewrite ::
  "commit_config \<Rightarrow> datetime \<Rightarrow> string \<Rightarrow> hash \<Rightarrow> json \<Rightarrow> hash \<Rightarrow> hash \<Rightarrow> 'a commits_db_scheme \<Rightarrow> 'a commits_db_scheme" where
  "mass_rewrite cfg now project h parent old_root new_root s =
     (case resolve_tree_cached cfg old_root s of
        (None, s1) \<Rightarrow> s1
      | (Some old, s1) \<Rightarrow>
          (case resolve_tree_cached cfg new_root s1 of
             (None, s2) \<Rightarrow> s2
           | (Some new, s2) \<Rightarrow>
               (case (sem_of_tree old, sem_of_tree new) of
                  (Some o', Some n) \<Rightarrow>
                    (let count = changed_files (fst (summarize_tree_diff o' n))
                     in if cf_mass cfg \<le> count
                        then emit_event now (JStr project) ''anomaly''
                          [(''type'', JStr ''mass_rewrite''), (''commit_hash'', JStr h), (''parent_hash'', parent),
                           (''changed_files'', JInt (int count))] s2
                        else s2)
                | _ \<Rightarrow> s2)))"

definition detect_commit_anomalies ::
  "commit_config \<Rightarrow> datetime \<Rightarrow> string \<Rightarrow> hash \<Rightarrow> body \<Rightarrow> json \<Rightarrow> hash \<Rightarrow> 'a commits_db_scheme \<Rightarrow> 'a commits_db_scheme" where
  "detect_commit_anomalies cfg now project h metrics parent rh s =
     (if \<not> truthy parent then s
      else case find_commit parent s of
        None \<Rightarrow> s
      | Some p \<Rightarrow>
          (let s1 = fold (\<lambda>jump. emit_event now (JStr project) ''anomaly''
                 ([(''type'', JStr ''metric_jump''), (''commit_hash'', JStr h), (''parent_hash'', parent)] @ jump))
               (detect_metric_jump cfg (co_metrics p) metrics) s
           in if co_root p \<noteq> [] \<and> rh \<noteq> [] then mass_rewrite cfg now project h parent (co_root p) rh s1
              else s1))"

section \<open>Pushing\<close>

definition commit_of_body ::
  "caller \<Rightarrow> body \<Rightarrow> hash \<Rightarrow> string \<times> string \<Rightarrow> json \<times> string option \<Rightarrow> datetime option \<Rightarrow> hash \<Rightarrow> body \<Rightarrow> json list \<Rightarrow> commit_row" where
  "commit_of_body cl b h project parents ts rh metrics tags =
     \<lparr>co_hash = h, co_tenant = row_tenant cl, co_message = field b ''message'' (JStr []),
      co_author = commit_author cl b, co_timestamp = (case ts of None \<Rightarrow> cl_now cl | Some t \<Rightarrow> t),
      co_parent = fst parents, co_extra = snd parents,
      co_signature = (case field b ''signature'' JNull of JObj fs \<Rightarrow> Some (dumps_sorted (JObj fs)) | _ \<Rightarrow> None),
      co_env = env_field (field b ''env_snapshot_id'' JNull), co_root = rh, co_tags = tags,
      co_metrics = metrics, co_project = fst project, co_project_name = snd project\<rparr>"

text \<open>The part inside the \<open>try\<close>; \<open>None\<close> is any exception, after which the transaction is rolled back.\<close>

definition store_commit ::
  "commit_config \<Rightarrow> caller \<Rightarrow> body \<Rightarrow> hash \<Rightarrow> string \<times> string \<Rightarrow> datetime option \<Rightarrow> flat_tree \<Rightarrow> body \<Rightarrow> json list
   \<Rightarrow> 'a commits_db_scheme \<Rightarrow> 'a commits_db_scheme option" where
  "store_commit cfg cl b h project ts tree metrics tags s =
     (case build_merkle_tree (cf_sha cfg) (row_tenant cl) (cl_cas_tenant cl) tree (cm_trees s) of
        None \<Rightarrow> None
      | Some (trees, rh) \<Rightarrow>
          (case parent_columns (field b ''parents'' (JList [])) of
             None \<Rightarrow> None
           | Some parents \<Rightarrow>
               (let row = commit_of_body cl b h project parents ts rh metrics tags
                in if \<not> list_all (\<lambda>r. r \<in> set (cm_trees s) \<or> columns_fit r) trees then None
                   else if co_message row = JNull \<or> \<not> text_column (co_message row)
                      \<or> \<not> text_column (co_author row) \<or> \<not> text_column (co_parent row) then None
                   else case link_run cl b h (fst project) (co_author row) metrics
                       (s\<lparr>cm_trees := trees, cm_commits := cm_commits s @ [row]\<rparr>) of
                     None \<Rightarrow> None
                   | Some s1 \<Rightarrow>
                       Some (note_audit (cl_username cl) ''commit.push'' (JStr (fst project))
                         [(''hash'', JStr h), (''message'', co_message row)] 201
                         (detect_commit_anomalies cfg (cl_now cl) (fst project) h metrics (co_parent row) rh
                           (emit_event (cl_now cl) (JStr (fst project)) ''commit''
                             [(''hash'', JStr h), (''message'', co_message row), (''author'', co_author row),
                              (''run_id'', field b ''run_id'' JNull)] s1))))))"

definition push_commit ::
  "commit_config \<Rightarrow> caller \<Rightarrow> body \<Rightarrow> 'a commits_db_scheme \<Rightarrow> reply \<times> 'a commits_db_scheme" where
  "push_commit cfg cl b s =
     (case field b ''hash'' (JStr []) of
        JStr h \<Rightarrow>
          if \<not> is_sha256_hex h then (Fail 400 (JStr ''Invalid commit hash format''), s)
          else if find_commit (JStr h) s \<noteq> None then (Ok 409 (JStr ''Commit already exists''), s)
          else (case check_sizes b of
              Inl r \<Rightarrow> (r, s)
            | Inr (raw_tree, metrics, tags) \<Rightarrow>
                (case project_fields b of
                   None \<Rightarrow> (Fail 422 (JStr ''Invalid project_id/project_name''), s)
                 | Some project \<Rightarrow>
                     (case (flatten_legacy raw_tree, commit_time (cf_iso cfg) (field b ''timestamp'' JNull)) of
                        (Some tree, Some ts) \<Rightarrow>
                          (case store_commit cfg cl b h project ts tree metrics tags s of
                             None \<Rightarrow> (Fail 500 (JStr ''commit not stored''), s)
                           | Some s' \<Rightarrow> (Ok 201 JNull, s'))
                      | _ \<Rightarrow> (Fail 500 (JStr ''AttributeError''), s))))
      | _ \<Rightarrow> (Fail 500 (JStr ''expected string or bytes-like object''), s))"

section \<open>Reading\<close>

definition full_parents :: "(string \<Rightarrow> json option) \<Rightarrow> json \<Rightarrow> string option \<Rightarrow> json list" where
  "full_parents loads parent extra =
     (if truthy parent then [parent] else [])
     @ (case extra of Some (c # cs) \<Rightarrow> (case loads (c # cs) of Some (JList ps) \<Rightarrow> ps | _ \<Rightarrow> []) | _ \<Rightarrow> [])"

definition signature_out :: "(string \<Rightarrow> json option) \<Rightarrow> string option \<Rightarrow> json" where
  "signature_out loads raw =
     (case raw of Some (c # cs) \<Rightarrow> (case loads (c # cs) of Some (JObj fs) \<Rightarrow> JObj fs | _ \<Rightarrow> JNull) | _ \<Rightarrow> JNull)"

definition leaf_dict :: "leaf \<Rightarrow> json" where
  "leaf_dict l = JObj [(''hash'', lf_hash l), (''size'', lf_size l), (''type'', lf_type l),
     (''layers'', lf_layers l), (''chunks'', lf_chunks l)]"

definition tree_dict :: "leaves \<Rightarrow> json" where
  "tree_dict t = JObj (map (\<lambda>(p, l). (p, leaf_dict l)) t)"

text \<open>The resolved tree of a commit; \<open>None\<close>: the walk does not end within the fuel.\<close>

definition commit_tree :: "commit_config \<Rightarrow> commit_row \<Rightarrow> 'a commits_db_scheme \<Rightarrow> leaves option" where
  "commit_tree cfg c s = (if co_root c = [] then Some [] else resolve_tree (cf_fuel cfg) (cm_trees s) (co_root c))"

definition commit_head :: "commit_config \<Rightarrow> commit_row \<Rightarrow> body" where
  "commit_head cfg c =
     [(''hash'', JStr (co_hash c)), (''message'', co_message c), (''author'', co_author c),
      (''timestamp'', JStr (isoformat (co_timestamp c))), (''parent_hash'', co_parent c),
      (''parents'', JList (full_parents (cf_loads cfg) (co_parent c) (co_extra c))),
      (''root_tree_hash'', JStr (co_root c)), (''tags'', JList (co_tags c)), (''metrics'', JObj (co_metrics c))]"

definition commit_tail :: "commit_config \<Rightarrow> commit_row \<Rightarrow> body" where
  "commit_tail cfg c =
     [(''project_id'', JStr (co_project c)), (''project_name'', JStr (co_project_name c)),
      (''signature'', signature_out (cf_loads cfg) (co_signature c)), (''env_snapshot_id'', jopt (co_env c))]"

definition get_commit :: "commit_config \<Rightarrow> string \<Rightarrow> 'a commits_db_scheme \<Rightarrow> reply" where
  "get_commit cfg h s =
     (if \<not> is_sha256_hex h then Fail 400 (JStr ''Invalid hash format'')
      else case find_commit (JStr h) s of
        None \<Rightarrow> (case dget (cm_local s) h of
            Some j \<Rightarrow> if truthy j then Ok 200 j else Fail 404 (JStr ''Commit not found'')
          | None \<Rightarrow> Fail 404 (JStr ''Commit not found''))
      | Some c \<Rightarrow> (case commit_tree cfg c s of
            None \<Rightarrow> Fail 500 (JStr ''tree does not end'')
          | Some t \<Rightarrow> Ok 200 (JObj (commit_head cfg c @ [(''tree'', tree_dict t)] @ commit_tail cfg c))))"

definition tree_of :: "commit_config \<Rightarrow> string \<Rightarrow> 'a commits_db_scheme \<Rightarrow> reply + sem_tree" where
  "tree_of cfg h s =
     (case find_commit (JStr h) s of
        None \<Rightarrow> Inl (Fail 404 (JStr ''Commit not found''))
      | Some c \<Rightarrow> (case Option.bind (commit_tree cfg c s) sem_of_tree of
            None \<Rightarrow> Inl (Fail 500 (JStr ''tree not summarized''))
          | Some t \<Rightarrow> Inr t))"

definition get_commit_diff :: "commit_config \<Rightarrow> string \<Rightarrow> string \<Rightarrow> 'a commits_db_scheme \<Rightarrow> reply" where
  "get_commit_diff cfg base target s =
     (if \<not> is_sha256_hex base \<or> \<not> is_sha256_hex target then Fail 400 (JStr ''Invalid hash format'')
      else case tree_of cfg base s of
        Inl r \<Rightarrow> r
      | Inr old \<Rightarrow> (case tree_of cfg target s of
            Inl r \<Rightarrow> r
          | Inr new \<Rightarrow> Ok 200 (JObj (dset (dset (cf_summary cfg (summarize_tree_diff old new)) ''base'' (JStr base))
              ''target'' (JStr target)))))"

text \<open>The rows a list shows: of the project asked for, and of the caller's tenant when tenancy is on.\<close>

definition visible_commits ::
  "commit_config \<Rightarrow> string option \<Rightarrow> string option \<Rightarrow> 'a commits_db_scheme \<Rightarrow> commit_row list" where
  "visible_commits cfg tenant project s =
     filter (\<lambda>c. matches project (JStr (co_project c))
       \<and> (cf_tenancy cfg \<longrightarrow> (case tenant of None \<Rightarrow> True | Some t \<Rightarrow> co_tenant c = t))) (cm_commits s)"

definition listed_commit :: "commit_config \<Rightarrow> bool \<Rightarrow> 'a commits_db_scheme \<Rightarrow> commit_row \<Rightarrow> json" where
  "listed_commit cfg layers s c =
     JObj (commit_head cfg c @ commit_tail cfg c
       @ (if layers then [(''tree'', tree_dict (case commit_tree cfg c s of None \<Rightarrow> [] | Some t \<Rightarrow> t))] else []))"

definition commits_page :: "commit_config \<Rightarrow> string option \<Rightarrow> string option \<Rightarrow> nat \<Rightarrow> nat \<Rightarrow> 'a commits_db_scheme
   \<Rightarrow> commit_row list \<times> nat option" where
  "commits_page cfg tenant project cap off s =
     (let rows = visible_commits cfg tenant project s
      in (page cap off (newest_first co_timestamp rows),
          if off + cap < length rows then Some (off + cap) else None))"

definition list_commits ::
  "commit_config \<Rightarrow> string option \<Rightarrow> nat \<Rightarrow> nat \<Rightarrow> string option \<Rightarrow> bool \<Rightarrow> 'a commits_db_scheme \<Rightarrow> reply" where
  "list_commits cfg tenant cap off project layers s =
     (case commits_page cfg tenant project cap off s of (rows, next_offset) \<Rightarrow>
        Ok 200 (JObj [(''commits'', JList (map (listed_commit cfg layers s) rows)),
          (''total'', JInt (int (length (visible_commits cfg tenant project s)))),
          (''limit'', JInt (int cap)), (''offset'', JInt (int off)),
          (''next_offset'', opt_json (\<lambda>n. JInt (int n)) next_offset)]))"

text \<open>One row per project id and name, the most recently pushed first.\<close>

definition list_projects :: "commit_config \<Rightarrow> string option \<Rightarrow> 'a commits_db_scheme \<Rightarrow> reply" where
  "list_projects cfg tenant s =
     (let rows = visible_commits cfg tenant None s;
          group = (\<lambda>k. filter (\<lambda>c. (co_project c, co_project_name c) = k) rows);
          last_push = (\<lambda>k. foldl max (co_timestamp (hd (group k))) (map co_timestamp (group k)));
          keys = newest_first last_push (remdups (map (\<lambda>c. (co_project c, co_project_name c)) rows))
      in Ok 200 (JObj [(''projects'', JList (map (\<lambda>k.
           JObj [(''project_id'', JStr (fst k)), (''project_name'', JStr (snd k)),
             (''commit_count'', JInt (int (length (group k)))),
             (''last_push'', JStr (isoformat (last_push k)))]) keys))]))"

definition RUN_SUMMARY_MAX_COMMITS :: nat where "RUN_SUMMARY_MAX_COMMITS = 20"
definition RUN_SUMMARY_MAX_LINEAGE_DEPTH :: nat where "RUN_SUMMARY_MAX_LINEAGE_DEPTH = 10"

definition commit_point :: "commit_row \<Rightarrow> body" where
  "commit_point c = [(''hash'', JStr (co_hash c)), (''message'', co_message c), (''metrics'', JObj (co_metrics c)),
     (''timestamp'', JStr (isoformat (co_timestamp c)))]"

definition get_run_summary :: "commit_config \<Rightarrow> string \<Rightarrow> 'a commits_db_scheme \<Rightarrow> reply" where
  "get_run_summary cfg i s =
     (case fetch_run s (JStr i) of
        None \<Rightarrow> Fail 404 (JStr ''Run not found'')
      | Some r \<Rightarrow>
          (let lineage = fst (walk_chain (fetch_run s) rn_id parent_run RUN_SUMMARY_MAX_LINEAGE_DEPTH (Some r) []);
               hashes = map rc_commit (filter (\<lambda>l. rc_run l = JStr i) (rs_links s));
               rows = page RUN_SUMMARY_MAX_COMMITS 0 (newest_first co_timestamp
                        (filter (\<lambda>c. co_hash c \<in> set hashes) (cm_commits s)));
               answer = (\<lambda>summary. Ok 200 (JObj [(''run'', JObj (run_to_dict r)),
                  (''lineage'', JList (map (\<lambda>q. JObj [(''id'', rn_id q), (''name'', rn_name q),
                     (''status'', JStr (rn_status q))]) lineage)),
                  (''commits'', JList (map (\<lambda>c. JObj (commit_point c)) rows)),
                  (''total_commits'', JInt (int (length hashes))), (''semantic_summary'', summary),
                  (''env_snapshot_id'', rn_env r), (''avh_object_id'', rn_avh r)]))
           in case rows of
                latest # second # _ \<Rightarrow>
                  (case (Option.bind (commit_tree cfg second s) sem_of_tree,
                         Option.bind (commit_tree cfg latest s) sem_of_tree) of
                     (Some old, Some new) \<Rightarrow> answer (JObj (cf_summary cfg (summarize_tree_diff old new)))
                   | _ \<Rightarrow> Fail 500 (JStr ''tree not summarized''))
              | _ \<Rightarrow> answer JNull))"

section \<open>Stored commits\<close>

lemma effects_keep_commits [simp]:
  "cm_commits (note_audit u a p d st s) = cm_commits s" "cm_commits (emit_event now p k pl s) = cm_commits s"
  "cm_trees (note_audit u a p d st s) = cm_trees s" "cm_trees (emit_event now p k pl s) = cm_trees s"
  "cm_cache (note_audit u a p d st s) = cm_cache s" "cm_cache (emit_event now p k pl s) = cm_cache s"
  by (simp_all add: note_audit_def emit_event_def Let_def)

lemma resolve_tree_cached_keeps:
  assumes "resolve_tree_cached cfg h s = (t, s')"
  shows "cm_commits s' = cm_commits s \<and> cm_trees s' = cm_trees s"
  using assms by (auto simp: resolve_tree_cached_def Let_def split: option.splits)

lemma mass_rewrite_keeps:
  "cm_commits (mass_rewrite cfg now p h pa r1 r2 s) = cm_commits s
   \<and> cm_trees (mass_rewrite cfg now p h pa r1 r2 s) = cm_trees s"
proof -
  obtain t1 s1 where 1: "resolve_tree_cached cfg r1 s = (t1, s1)" by (cases "resolve_tree_cached cfg r1 s")
  obtain t2 s2 where 2: "resolve_tree_cached cfg r2 s1 = (t2, s2)" by (cases "resolve_tree_cached cfg r2 s1")
  from resolve_tree_cached_keeps [OF 1] resolve_tree_cached_keeps [OF 2] show ?thesis
    by (simp add: mass_rewrite_def 1 2 Let_def split: option.split)
qed

lemma fold_emit_keeps:
  "cm_commits (fold (\<lambda>x. emit_event now p k (f x)) xs s) = cm_commits s
   \<and> cm_trees (fold (\<lambda>x. emit_event now p k (f x)) xs s) = cm_trees s"
  by (induction xs arbitrary: s) simp_all

lemma detect_keeps:
  "cm_commits (detect_commit_anomalies cfg now p h m pa rh s) = cm_commits s"
  "cm_trees (detect_commit_anomalies cfg now p h m pa rh s) = cm_trees s"
  by (simp_all add: detect_commit_anomalies_def Let_def mass_rewrite_keeps fold_emit_keeps split: option.split)

lemma link_run_keeps:
  "link_run cl b h p a m s = Some s' \<Longrightarrow> cm_commits s' = cm_commits s \<and> cm_trees s' = cm_trees s"
  by (auto simp: link_run_def Let_def split: if_splits option.splits)

text \<open>What a push that stores a commit does to the tables of commits and trees.\<close>

lemma store_commit_cases:
  assumes "store_commit cfg cl b h project ts tree metrics tags s = Some s'"
  obtains trees rh parents where
    "build_merkle_tree (cf_sha cfg) (row_tenant cl) (cl_cas_tenant cl) tree (cm_trees s) = Some (trees, rh)"
    "parent_columns (field b ''parents'' (JList [])) = Some parents"
    "cm_trees s' = trees"
    "cm_commits s' = cm_commits s @ [commit_of_body cl b h project parents ts rh metrics tags]"
  using assms by (auto simp: store_commit_def Let_def detect_keeps dest!: link_run_keeps split: option.splits if_splits)

lemma push_commit_cases:
  obtains (refused) r where "push_commit cfg cl b s = (r, s)" "r \<noteq> Ok 201 JNull"
  | (stored) h raw_tree metrics tags project tree ts s' where
      "push_commit cfg cl b s = (Ok 201 JNull, s')" "field b ''hash'' (JStr []) = JStr h" "is_sha256_hex h"
      "find_commit (JStr h) s = None" "check_sizes b = Inr (raw_tree, metrics, tags)"
      "flatten_legacy raw_tree = Some tree" "store_commit cfg cl b h project ts tree metrics tags s = Some s'"
      "project_fields b = Some project"
proof (cases "field b ''hash'' (JStr [])")
  case (JStr h)
  note hash = this
  show ?thesis
  proof (cases "is_sha256_hex h \<and> find_commit (JStr h) s = None")
    case True
    show ?thesis
    proof (cases "check_sizes b")
      case (Inl r)
      moreover from Inl have "r \<noteq> Ok 201 JNull"
        by (auto simp: check_sizes_def split: json.splits if_splits option.splits)
      ultimately show ?thesis using refused hash True by (simp add: push_commit_def)
    next
      case (Inr x)
      obtain raw_tree metrics tags where x: "x = (raw_tree, metrics, tags)" by (cases x)
      show ?thesis
      proof (cases "\<exists>project tree ts s'. project_fields b = Some project \<and> flatten_legacy raw_tree = Some tree
          \<and> commit_time (cf_iso cfg) (field b ''timestamp'' JNull) = Some ts
          \<and> store_commit cfg cl b h project ts tree metrics tags s = Some s'")
        case True
        then obtain project tree ts s' where "project_fields b = Some project" "flatten_legacy raw_tree = Some tree"
          "commit_time (cf_iso cfg) (field b ''timestamp'' JNull) = Some ts"
          "store_commit cfg cl b h project ts tree metrics tags s = Some s'" by blast
        with \<open>is_sha256_hex h \<and> find_commit (JStr h) s = None\<close> hash Inr x show ?thesis
          by (intro stored [of s' h raw_tree metrics tags tree project ts]) (simp_all add: push_commit_def)
      next
        case False
        then have "\<exists>r. push_commit cfg cl b s = (r, s) \<and> r \<noteq> Ok 201 JNull"
          using \<open>is_sha256_hex h \<and> find_commit (JStr h) s = None\<close> hash Inr x
          by (auto simp: push_commit_def split: option.split)
        with refused show ?thesis by blast
      qed
    qed
  next
    case False
    then have "\<exists>r. push_commit cfg cl b s = (r, s) \<and> r \<noteq> Ok 201 JNull"
      using hash by (cases "is_sha256_hex h") (simp_all add: push_commit_def)
    with refused show ?thesis by blast
  qed
qed (use refused in \<open>simp_all add: push_commit_def\<close>)

section \<open>Pushed commits stay readable\<close>

definition push_step :: "commit_config \<Rightarrow> caller \<times> body \<Rightarrow> commits_db \<Rightarrow> reply \<times> commits_db" where
  "push_step cfg rq s = push_commit cfg (fst rq) (snd rq) s"

text \<open>What later pushes keep: the row of the commit, the contents of the trees.\<close>

definition holds_commit :: "commit_config \<Rightarrow> commit_row \<Rightarrow> merkle_row list \<Rightarrow> commits_db \<Rightarrow> bool" where
  "holds_commit cfg c trees s \<longleftrightarrow> find_commit (JStr (co_hash c)) s = Some c
     \<and> db_ok (cf_sha cfg) (cm_trees s) \<and> keeps trees (cm_trees s)"

lemma push_holds_commit:
  assumes "no_collision (cf_sha cfg)" and "holds_commit cfg c trees s"
  shows "holds_commit cfg c trees (snd (push_step cfg rq s))"
proof (cases rule: push_commit_cases [of cfg "fst rq" "snd rq" s])
  case (refused r)
  with assms(2) show ?thesis by (simp add: push_step_def)
next
  case (stored h raw_tree metrics tags project tree ts s')
  from stored(7) obtain trees' rh parents where st:
    "build_merkle_tree (cf_sha cfg) (row_tenant (fst rq)) (cl_cas_tenant (fst rq)) tree (cm_trees s) = Some (trees', rh)"
    "cm_trees s' = trees'"
    "cm_commits s' = cm_commits s @ [commit_of_body (fst rq) (snd rq) h project parents ts rh metrics tags]"
    by (rule store_commit_cases)
  from build_keeps(1) [OF assms(1) st(1)] assms(2) keeps_trans stored(1) st(2,3) show ?thesis
    by (auto simp: push_step_def holds_commit_def find_commit_def find_row_append)
qed

lemma get_commit_reads:
  assumes "is_sha256_hex h" and "find_commit (JStr h) s = Some c" and "co_root c \<noteq> []"
    and "resolve_tree (cf_fuel cfg) (cm_trees s) (co_root c) = Some t"
  shows "get_commit cfg h s = Ok 200 (JObj (commit_head cfg c @ [(''tree'', tree_dict t)] @ commit_tail cfg c))"
  using assms by (simp add: get_commit_def commit_tree_def)

text \<open>The sizes check hands on the fields of the body.\<close>

lemma check_sizes_fields:
  "check_sizes b = Inr (tree, metrics, tags) \<Longrightarrow> field b ''tree'' (JObj []) = JObj tree
     \<and> field b ''metrics'' (JObj []) = JObj metrics \<and> field b ''tags'' (JList []) = JList tags"
  by (auto simp: check_sizes_def split: json.splits if_splits option.splits)

lemma full_parents_columns:
  assumes "parent_columns (JList ps) = Some cols" and "ps = [] \<or> truthy (hd ps)"
    and "tl ps = [] \<or> loads (dumps (JList (tl ps))) = Some (JList (tl ps))"
  shows "full_parents loads (fst cols) (snd cols) = ps"
proof (cases ps)
  case (Cons p qs)
  have "\<exists>c cs. dumps (JList qs) = c # cs" by simp
  with assms Cons show ?thesis by (auto simp: full_parents_def split: if_splits)
qed (use assms(1) in \<open>auto simp: full_parents_def\<close>)

text \<open>
  C4. A pushed commit reads back, for good. When a push of a flat tree (no path a directory of
  another, none absolute) is answered 201, then after any later pushes by any callers with any
  bodies, reading the commit by its hash gives the parents, message, tags and metrics that were
  pushed and exactly the paths of the tree with their infos (given enough levels of fuel for the tree
  walk); or SHA-256 collides. For a commit with several parents \<open>json.loads\<close> has to read back what
  \<open>json.dumps\<close> wrote.
\<close>

theorem pushed_commit_reads_back:
  assumes "\<forall>x. cf_sha cfg x \<noteq> []" and "db_ok (cf_sha cfg) (cm_trees s)"
    and "push_commit cfg cl b s = (Ok 201 JNull, s1)" and "field b ''hash'' (JStr []) = JStr h"
    and "field b ''tree'' (JObj []) = JObj t" and "flatten_legacy t = Some t" and "tree_wf t"
    and "\<forall>p \<in> fst ` set t. \<not> startswith p ''/''"
    and "field b ''parents'' (JList []) = JList ps" and "ps = [] \<or> truthy (hd ps)"
    and "tl ps = [] \<or> cf_loads cfg (dumps (JList (tl ps))) = Some (JList (tl ps))"
    and "serve (push_step cfg) rqs s1 = (trace, s2)"
  shows "(\<exists>n. \<forall>fuel \<ge> n. \<exists>fs d. get_commit (cfg\<lparr>cf_fuel := fuel\<rparr>) h s2 = Ok 200 (JObj fs)
      \<and> field fs ''parents'' JNull = JList ps \<and> field fs ''message'' JNull = field b ''message'' (JStr [])
      \<and> field fs ''tags'' JNull = field b ''tags'' (JList []) \<and> field fs ''metrics'' JNull = field b ''metrics'' (JObj [])
      \<and> field fs ''tree'' JNull = tree_dict d \<and> same_tree d t)
    \<or> collision (cf_sha cfg)"
proof (cases "collision (cf_sha cfg)")
  case False
  then have nc: "no_collision (cf_sha cfg)" by (simp add: no_collision_iff)
  from assms(3) obtain raw_tree metrics tags project tree ts where push:
    "is_sha256_hex h" "find_commit (JStr h) s = None" "check_sizes b = Inr (raw_tree, metrics, tags)"
    "flatten_legacy raw_tree = Some tree" "store_commit cfg cl b h project ts tree metrics tags s = Some s1"
    by (cases rule: push_commit_cases [of cfg cl b s]) (use assms(4) in auto)
  note fields = check_sizes_fields [OF push(3)]
  with assms(5,6) push(4) have tree: "tree = t" by simp
  from push(5) obtain trees rh cols where st:
    "build_merkle_tree (cf_sha cfg) (row_tenant cl) (cl_cas_tenant cl) tree (cm_trees s) = Some (trees, rh)"
    "parent_columns (field b ''parents'' (JList [])) = Some cols" "cm_trees s1 = trees"
    "cm_commits s1 = cm_commits s @ [commit_of_body cl b h project cols ts rh metrics tags]"
    by (rule store_commit_cases)
  let ?c = "commit_of_body cl b h project cols ts rh metrics tags"
  have c: "co_hash ?c = h" "co_root ?c = rh" "co_parent ?c = fst cols" "co_extra ?c = snd cols" "co_tags ?c = tags"
    "co_metrics ?c = metrics" "co_message ?c = field b ''message'' (JStr [])"
    by (simp_all add: commit_of_body_def)
  from build_ok(1) [OF nc assms(1,2,7), of "row_tenant cl" "cl_cas_tenant cl"] st(1) tree
  have built: "tree_built (cf_sha cfg) (cm_trees s) trees rh t" by auto
  have "holds_commit cfg ?c trees s1"
    using st(3,4) push(2) built unfolding holds_commit_def tree_built_def
    by (simp add: find_commit_def find_row_append c(1))
  from serve_invariant [where I = "holds_commit cfg ?c trees" and step = "push_step cfg" and rqs = rqs, OF this push_holds_commit [OF nc]]
  have later: "holds_commit cfg ?c trees s2" using assms(12) by simp
  then have "tree_built (cf_sha cfg) (cm_trees s) (cm_trees s2) rh t"
    using tree_built_later [OF built] by (simp add: holds_commit_def)
  moreover from this have "rh \<noteq> []" by (simp add: tree_built_def)
  ultimately obtain n where n: "\<And>fuel. n \<le> fuel \<Longrightarrow> \<exists>d. resolve_tree fuel (cm_trees s2) rh = Some d \<and> same_tree d t"
    using tree_built_resolves [OF _ assms(7,8)] by blast
  have parents: "full_parents (cf_loads cfg) (fst cols) (snd cols) = ps"
    by (rule full_parents_columns) (use st(2) assms(9-11) in simp_all)
  have "\<exists>fs d. get_commit (cfg\<lparr>cf_fuel := fuel\<rparr>) h s2 = Ok 200 (JObj fs)
      \<and> field fs ''parents'' JNull = JList ps \<and> field fs ''message'' JNull = field b ''message'' (JStr [])
      \<and> field fs ''tags'' JNull = field b ''tags'' (JList []) \<and> field fs ''metrics'' JNull = field b ''metrics'' (JObj [])
      \<and> field fs ''tree'' JNull = tree_dict d \<and> same_tree d t" if "n \<le> fuel" for fuel
  proof -
    let ?cfg = "cfg\<lparr>cf_fuel := fuel\<rparr>"
    from n [OF that] obtain d where d: "resolve_tree (cf_fuel ?cfg) (cm_trees s2) rh = Some d" "same_tree d t" by auto
    have "get_commit ?cfg h s2 = Ok 200 (JObj (commit_head ?cfg ?c @ [(''tree'', tree_dict d)] @ commit_tail ?cfg ?c))"
      by (rule get_commit_reads [OF push(1)]) (use later d(1) c \<open>rh \<noteq> []\<close> in \<open>simp_all add: holds_commit_def\<close>)
    with d(2) fields parents show ?thesis
      by (intro exI conjI) (assumption | simp add: commit_head_def field_def dget_or_def c)+
  qed
  then show ?thesis by blast
qed simp

section \<open>A concrete push\<close>

definition demo_commits :: commits_db where
  "demo_commits = runs_db.extend demo_runs \<lparr>cm_commits = [], cm_trees = [], cm_cache = [], cm_local = []\<rparr>"

definition demo_commit_config :: commit_config where
  "demo_commit_config = \<lparr>cf_sha = toy_digest, cf_iso = (\<lambda>_. None), cf_loads = (\<lambda>_. Some (JList [JStr ''q''])),
     cf_float = (\<lambda>_. JNull), cf_summary = (\<lambda>_. []), cf_fuel = 9, cf_ratio = 3, cf_mass = 200, cf_tenancy = False\<rparr>"

definition small_tree :: flat_tree where
  "small_tree = [(''d/a'', JStr ''1'')]"

lemma small_tree_wf: "tree_wf small_tree"
  by (simp add: tree_wf_def small_tree_def dict_wf_def is_info_def startswith_def)

definition push_body :: "char \<Rightarrow> body" where
  "push_body c = [(''hash'', JStr (replicate 64 c)), (''message'', JStr ''m''), (''tree'', JObj small_tree),
     (''parents'', JList [JStr ''p'', JStr ''q''])]"

lemma pushed_commit_reads_back_witness:
  "\<exists>s1 s2 n. push_commit demo_commit_config demo_caller (push_body CHR ''a'') demo_commits = (Ok 201 JNull, s1)
     \<and> snd (serve (push_step demo_commit_config)
         [(demo_caller, push_body CHR ''a''), (demo_caller, push_body CHR ''b'')] s1) = s2
     \<and> length (cm_commits s2) = 2
     \<and> (\<forall>fuel \<ge> n. \<exists>fs d. get_commit (demo_commit_config\<lparr>cf_fuel := fuel\<rparr>) (replicate 64 CHR ''a'') s2 = Ok 200 (JObj fs)
          \<and> field fs ''parents'' JNull = JList [JStr ''p'', JStr ''q''] \<and> same_tree d small_tree)"
proof -
  let ?cfg = demo_commit_config and ?b = "push_body CHR ''a''"
  have run: "fst (push_commit ?cfg demo_caller ?b demo_commits) = Ok 201 JNull" by code_simp
  then obtain s1 where s1: "push_commit ?cfg demo_caller ?b demo_commits = (Ok 201 JNull, s1)"
    by (metis prod.collapse)
  let ?rqs = "[(demo_caller, ?b), (demo_caller, push_body CHR ''b'')]"
  obtain tr s2 where s2: "serve (push_step ?cfg) ?rqs s1 = (tr, s2)" by (cases "serve (push_step ?cfg) ?rqs s1")
  have "length (cm_commits (snd (serve (push_step ?cfg) ?rqs (snd (push_commit ?cfg demo_caller ?b demo_commits))))) = 2"
    by code_simp
  with s1 s2 have len: "length (cm_commits s2) = 2" by simp
  have parts: "field ?b ''hash'' (JStr []) = JStr (replicate 64 CHR ''a'')"
    "field ?b ''tree'' (JObj []) = JObj small_tree" "field ?b ''parents'' (JList []) = JList [JStr ''p'', JStr ''q'']"
    "flatten_legacy small_tree = Some small_tree" "\<forall>p \<in> fst ` set small_tree. \<not> startswith p ''/''"
    by code_simp+
  have loads: "cf_loads ?cfg x = Some (JList [JStr ''q''])" for x by (simp add: demo_commit_config_def)
  have cfg: "cf_sha ?cfg = toy_digest" "cm_trees demo_commits = []"
    by (simp_all add: demo_commit_config_def demo_commits_def runs_db.extend_def)
  have "\<exists>n. \<forall>fuel \<ge> n. \<exists>fs d. get_commit (?cfg\<lparr>cf_fuel := fuel\<rparr>) (replicate 64 CHR ''a'') s2 = Ok 200 (JObj fs)
      \<and> field fs ''parents'' JNull = JList [JStr ''p'', JStr ''q''] \<and> same_tree d small_tree"
    using pushed_commit_reads_back [OF _ _ s1 parts(1,2,4) small_tree_wf parts(5,3) _ _ s2]
    by (simp add: cfg loads toy_digest_ok db_ok_def) blast
  with s1 s2 len show ?thesis by auto
qed

section \<open>The runs a push creates\<close>

lemma resolve_tree_cached_runs: "rs_runs (snd (resolve_tree_cached cfg h s)) = rs_runs s"
  by (simp add: resolve_tree_cached_def Let_def split: option.split)

lemma mass_rewrite_runs: "rs_runs (mass_rewrite cfg now p h pa r1 r2 s) = rs_runs s"
proof -
  obtain t1 s1 where 1: "resolve_tree_cached cfg r1 s = (t1, s1)" by (cases "resolve_tree_cached cfg r1 s")
  obtain t2 s2 where 2: "resolve_tree_cached cfg r2 s1 = (t2, s2)" by (cases "resolve_tree_cached cfg r2 s1")
  from resolve_tree_cached_runs [of cfg r1 s] resolve_tree_cached_runs [of cfg r2 s1] show ?thesis
    by (simp add: mass_rewrite_def 1 2 Let_def split: option.split)
qed

lemma fold_emit_runs: "rs_runs (fold (\<lambda>x. emit_event now p k (f x)) xs s) = rs_runs s"
  by (induction xs arbitrary: s) simp_all

lemma detect_runs: "rs_runs (detect_commit_anomalies cfg now p h m pa rh s) = rs_runs s"
  by (simp add: detect_commit_anomalies_def Let_def mass_rewrite_runs fold_emit_runs split: option.split)

lemma backfill_env_ok: "run_ok (backfill_env env r) = run_ok r" "rn_id (backfill_env env r) = rn_id r"
  by (simp_all add: backfill_env_def run_ok_def)

lemma link_run_ok:
  assumes "link_run cl b h project author metrics s = Some s'" and "runs_ok s" and "project \<noteq> []"
  shows "runs_ok s'"
proof (cases "find_row rn_id (field b ''run_id'' JNull) (rs_runs s)")
  case None
  let ?r = "backfill_env (field b ''env_snapshot_id'' JNull)
      (lazy_run cl (field b ''run_id'' JNull) project author metrics)"
  have "run_ok ?r" "rn_id ?r = field b ''run_id'' JNull"
    using assms(3) by (simp_all add: backfill_env_ok) (simp_all add: run_ok_def lazy_run_def RUN_KINDS_def)
  moreover from None have "field b ''run_id'' JNull \<notin> rn_id ` set (rs_runs s)" by (simp add: find_row_None_iff)
  moreover from assms(1) None have "s' = s \<or> rs_runs s' = rs_runs s @ [?r]"
    by (auto simp: link_run_def Let_def split: if_splits)
  ultimately show ?thesis using assms(2) by (auto simp: runs_ok_def)
next
  case (Some r)
  then have r: "r \<in> set (rs_runs s)" "rn_id r = field b ''run_id'' JNull" by (auto dest: find_row_SomeD)
  with assms(2) have "run_ok r" by (simp add: runs_ok_def)
  then have new: "run_ok (r\<lparr>rn_metrics := m, rn_updated := t\<rparr>)" "run_ok (r\<lparr>rn_updated := t\<rparr>)" for m t
    by (simp_all add: run_ok_def)
  show ?thesis
  proof (cases "s' = s")
    case False
    with assms(1) Some obtain r' where "run_ok r'" "rn_id r' = rn_id r"
      and "rs_runs s' = upd_row rn_id (rn_id r) (\<lambda>_. r') (rs_runs s)"
      by (force simp: link_run_def Let_def r(2) backfill_env_ok new split: if_splits option.splits)
    then show ?thesis by (rule runs_ok_upd [OF assms(2) r(1)])
  qed (use assms(2) in simp)
qed

lemma store_commit_runs_ok:
  assumes "store_commit cfg cl b h project ts tree metrics tags s = Some s'" and "runs_ok s"
    and "fst project \<noteq> []"
  shows "runs_ok s'"
proof -
  from assms(1) obtain trees parents rh where
    link: "\<exists>s1. link_run cl b h (fst project) (co_author (commit_of_body cl b h project parents ts rh metrics tags)) metrics
      (s\<lparr>cm_trees := trees, cm_commits := cm_commits s @ [commit_of_body cl b h project parents ts rh metrics tags]\<rparr>) = Some s1
      \<and> rs_runs s' = rs_runs s1"
    by (fastforce simp: store_commit_def Let_def detect_runs split: option.splits if_splits prod.splits)
  then obtain s1 where s1: "link_run cl b h (fst project)
      (co_author (commit_of_body cl b h project parents ts rh metrics tags)) metrics
      (s\<lparr>cm_trees := trees, cm_commits := cm_commits s @ [commit_of_body cl b h project parents ts rh metrics tags]\<rparr>) = Some s1"
    "rs_runs s' = rs_runs s1" by blast
  from link_run_ok [OF s1(1) _ assms(3)] assms(2) s1(2) show ?thesis by (simp add: runs_ok_def)
qed

lemma project_fields_nonempty: "project_fields b = Some (p, n) \<Longrightarrow> p \<noteq> []"
  by (auto simp: project_fields_def or_else_def split: json.splits if_splits)

lemma push_commit_runs_ok:
  assumes "runs_ok s"
  shows "runs_ok (snd (push_commit cfg cl b s))"
proof (cases rule: push_commit_cases [of cfg cl b s])
  case (refused r)
  with assms show ?thesis by simp
next
  case (stored h raw_tree metrics tags project tree ts s')
  from stored(8) have "fst project \<noteq> []" using project_fields_nonempty by (cases project) auto
  with store_commit_runs_ok [OF stored(7) assms] stored(1) show ?thesis by simp
qed

text \<open>All the writers of the run table: the run routes and \<open>push_commit\<close>.\<close>

inductive run_write :: "commits_db \<Rightarrow> commits_db \<Rightarrow> bool" where
  request: "run_step s s' \<Longrightarrow> run_write s s'"
| push: "run_write s (snd (push_commit cfg cl b s))"

text \<open>
  C30. Run rows stay well-typed. Starting from an empty table, after any sequence of run requests and
  pushes with any bodies: ids are unique, every run has one of the four kinds (an unknown kind becomes
  \<open>train\<close>), one of the states created (by a push that names an unseen run), running, completed, failed
  and stopped, a project, and a completion time exactly when it is neither created nor running.
\<close>

theorem run_rows_well_typed:
  assumes "rs_runs s0 = []" and "run_write\<^sup>*\<^sup>* s0 s"
  shows "distinct (map rn_id (rs_runs s)) \<and> (\<forall>r \<in> set (rs_runs s).
    rn_kind r \<in> {''train'', ''meta'', ''scoring'', ''eval''}
    \<and> rn_status r \<in> {''created'', ''running'', ''completed'', ''failed'', ''stopped''}
    \<and> (rn_completed r = None \<longleftrightarrow> rn_status r \<in> {''created'', ''running''}) \<and> truthy (rn_project r))"
proof -
  from assms(2) have "runs_ok s"
    by (induction rule: rtranclp_induct)
      (use assms(1) in \<open>auto simp: runs_ok_def [of s0] elim!: run_write.cases intro: run_step_ok push_commit_runs_ok\<close>)
  then show ?thesis by (auto simp: runs_ok_def run_ok_def RUN_KINDS_def)
qed

text \<open>A push creates the run \<open>a\<close> it names, and stopping it ends it; a run \<open>b\<close> is registered before.\<close>

definition run_push_body :: body where
  "run_push_body = push_body CHR ''a'' @ [(''run_id'', JStr ''a'')]"

definition demo_runs3 :: commits_db where
  "demo_runs3 = snd (push_commit demo_commit_config demo_caller run_push_body
     (snd (create_run False demo_caller (run_body ''b'' JNull) demo_commits)))"

lemma run_rows_well_typed_witness:
  "map rn_status (rs_runs demo_runs3) = [''running'', ''created'']
     \<and> list_all (\<lambda>r. rn_kind r \<in> {''train'', ''meta'', ''scoring'', ''eval''}) (rs_runs demo_runs3)"
proof
  show "map rn_status (rs_runs demo_runs3) = [''running'', ''created'']" by code_simp
  have steps: "run_write\<^sup>*\<^sup>* demo_commits demo_runs3"
    unfolding demo_runs3_def
    by (rule converse_rtranclp_into_rtranclp)
      (rule run_write.request, rule run_step.create, rule r_into_rtranclp, rule run_write.push)
  show "list_all (\<lambda>r. rn_kind r \<in> {''train'', ''meta'', ''scoring'', ''eval''}) (rs_runs demo_runs3)"
    using run_rows_well_typed [OF _ steps]
    by (simp add: demo_commits_def demo_runs_def effects.extend_def runs_db.extend_def list_all_iff)
qed

end
