(* ===== verification/Ignore.thy ===== *)
theory Ignore
  imports Base
begin

text \<open>
  The client's working-tree walk: \<open>.avignore\<close>, \<open>.gitignore\<close> and \<open>iter_working_files\<close> of
  \<open>python/av_cli/core.py\<close>, on POSIX (where \<open>os.path.normcase\<close> is the identity).

  An ignore file is its decoded text, the empty text when it cannot be read. \<open>fnmatch\<close> of the
  standard library is written out as a matcher of patterns; the caches around it do not
  show. A directory is what \<open>os.walk\<close> reports of it: its subdirectories and its files, in the order
  of the file system. A path is the list of its segments.
\<close>

section \<open>Text helpers of the standard library\<close>

text \<open>\<open>str.splitlines\<close>: the line ends, with a carriage return and a newline as one.\<close>

definition is_line_end :: "char \<Rightarrow> bool" where
  "is_line_end c \<longleftrightarrow> c \<in> {CHR 0x0A, CHR 0x0B, CHR 0x0C, CHR 0x0D, CHR 0x1C, CHR 0x1D, CHR 0x1E, CHR 0x85}"

fun splitlines_from :: "string \<Rightarrow> string \<Rightarrow> string list" where
  "splitlines_from acc [] = (if acc = [] then [] else [rev acc])"
| "splitlines_from acc (c # cs) =
     (if is_line_end c
      then rev acc # splitlines_from []
             (if c = CHR 0x0D \<and> cs \<noteq> [] \<and> hd cs = CHR 0x0A then tl cs else cs)
      else splitlines_from (c # acc) cs)"

definition splitlines :: "string \<Rightarrow> string list" where
  "splitlines s = splitlines_from [] s"

definition lstrip :: "string \<Rightarrow> string" where
  "lstrip s = dropWhile is_space s"

definition rstrip_char :: "char \<Rightarrow> string \<Rightarrow> string" where
  "rstrip_char c s = rev (dropWhile (\<lambda>x. x = c) (rev s))"

definition lstrip_char :: "char \<Rightarrow> string \<Rightarrow> string" where
  "lstrip_char c s = dropWhile (\<lambda>x. x = c) s"

fun join_sep :: "char \<Rightarrow> string list \<Rightarrow> string" where
  "join_sep c [] = []"
| "join_sep c [p] = p"
| "join_sep c (p # ps) = p @ c # join_sep c ps"

lemma join_with_Cons: "ps \<noteq> [] \<Longrightarrow> join_sep c (p # ps) = p @ c # join_sep c ps"
  by (cases ps) auto

lemma split_on_append: "c \<notin> set p \<Longrightarrow> split_on c (p @ c # s) = p # split_on c s"
  by (induction p) auto

lemma split_on_join:
  "ps \<noteq> [] \<Longrightarrow> list_all (\<lambda>p. c \<notin> set p) ps \<Longrightarrow> split_on c (join_sep c ps) = ps"
proof (induction ps)
  case (Cons p ps)
  then show ?case
    by (cases "ps = []") (simp_all add: split_on_no_sep join_with_Cons split_on_append)
qed simp

section \<open>\<open>fnmatch\<close>\<close>

text \<open>
  The text of a bracket: an optional \<open>!\<close>, a closing bracket in first place stands for itself, then
  everything up to the next closing bracket. Without one the opening bracket is literal.
\<close>

fun upto_bracket :: "string \<Rightarrow> (string \<times> string) option" where
  "upto_bracket [] = None"
| "upto_bracket (c # cs) =
     (if c = CHR '']'' then Some ([], cs)
      else map_option (\<lambda>(a, r). (c # a, r)) (upto_bracket cs))"

definition after_first :: "string \<Rightarrow> (string \<times> string) option" where
  "after_first p =
     (if p \<noteq> [] \<and> hd p = CHR '']''
      then map_option (\<lambda>(a, r). (CHR '']'' # a, r)) (upto_bracket (tl p))
      else upto_bracket p)"

definition bracket :: "string \<Rightarrow> (string \<times> string) option" where
  "bracket p =
     (if p \<noteq> [] \<and> hd p = CHR ''!''
      then map_option (\<lambda>(a, r). (CHR ''!'' # a, r)) (after_first (tl p))
      else after_first p)"

text \<open>Single characters and ranges; a range whose ends are in the wrong order is dropped.\<close>

fun in_items :: "string \<Rightarrow> char \<Rightarrow> bool" where
  "in_items (lo # d # hi # cs) x =
     (if d = CHR ''-''
      then ((of_char lo :: nat) \<le> of_char x \<and> (of_char x :: nat) \<le> of_char hi) \<or> in_items cs x
      else x = lo \<or> in_items (d # hi # cs) x)"
| "in_items cs x = (x \<in> set cs)"

definition in_class :: "string \<Rightarrow> char \<Rightarrow> bool" where
  "in_class cls x =
     (if cls \<noteq> [] \<and> hd cls = CHR ''!'' then \<not> in_items (tl cls) x else in_items cls x)"

lemma upto_bracket_shorter: "upto_bracket p = Some (a, r) \<Longrightarrow> length r < length p"
  by (induction p arbitrary: a) (fastforce split: if_splits)+

lemma after_first_shorter: "after_first p = Some (a, r) \<Longrightarrow> length r < length p"
  by (cases p) (auto simp: after_first_def dest: upto_bracket_shorter split: if_splits)

lemma bracket_shorter: "bracket p = Some (a, r) \<Longrightarrow> length r < length p"
  by (cases p) (auto simp: bracket_def dest: after_first_shorter split: if_splits)

function (sequential) fnmatch :: "string \<Rightarrow> string \<Rightarrow> bool" where
  "fnmatch s [] = (s = [])"
| "fnmatch [] (c # p) = (c = CHR ''*'' \<and> fnmatch [] p)"
| "fnmatch (x # s) (c # p) =
     (if c = CHR ''*'' then fnmatch (x # s) p \<or> fnmatch s (c # p)
      else if c = CHR ''?'' then fnmatch s p
      else if c = CHR ''['' then
        (case bracket p of
           None \<Rightarrow> x = c \<and> fnmatch s p
         | Some (cls, rest) \<Rightarrow> in_class cls x \<and> fnmatch s rest)
      else x = c \<and> fnmatch s p)"
  by pat_completeness auto

termination
  by (relation "measures [\<lambda>(s, p). length s + length p]") (auto dest!: bracket_shorter)

section \<open>Ignore files\<close>

text \<open>\<open>while line.endswith(" ") and not line.endswith("\\ ")\<close> on the reversed line, then the
  replacement of backslash-space by space from left to right.\<close>

fun drop_spaces :: "string \<Rightarrow> string" where
  "drop_spaces (c # cs) =
     (if c = CHR '' '' \<and> \<not> (cs \<noteq> [] \<and> hd cs = CHR 0x5C) then drop_spaces cs else c # cs)"
| "drop_spaces [] = []"

fun unescape_spaces :: "string \<Rightarrow> string" where
  "unescape_spaces (a # b # cs) =
     (if a = CHR 0x5C \<and> b = CHR '' '' then CHR '' '' # unescape_spaces cs
      else a # unescape_spaces (b # cs))"
| "unescape_spaces cs = cs"

definition strip_ignore_trailing_spaces :: "string \<Rightarrow> string" where
  "strip_ignore_trailing_spaces line = unescape_spaces (rev (drop_spaces (rev line)))"

definition read_ignore_lines :: "string option \<Rightarrow> string list" where
  "read_ignore_lines f = (case f of None \<Rightarrow> [] | Some text \<Rightarrow> splitlines text)"

fun avignore_lines :: "string list \<Rightarrow> string list" where
  "avignore_lines [] = []"
| "avignore_lines (raw # rest) =
     (let line = strip raw in
      if line = [] \<or> startswith line ''#'' then avignore_lines rest
      else rstrip_char (CHR ''/'') line # avignore_lines rest)"

definition load_avignore_patterns :: "string option \<Rightarrow> string list" where
  "load_avignore_patterns f = avignore_lines (read_ignore_lines f)"

definition matches_avignore :: "string \<Rightarrow> string list \<Rightarrow> bool" where
  "matches_avignore name patterns = list_ex (\<lambda>pattern. fnmatch name pattern) patterns"

record gitignore_rule =
  gr_pattern :: string
  gr_negate :: bool
  gr_dir_only :: bool
  gr_anchored :: bool

definition gr_segments :: "gitignore_rule \<Rightarrow> string list" where
  "gr_segments r = split_on (CHR ''/'') (gr_pattern r)"

fun glob_segments_match :: "string list \<Rightarrow> string list \<Rightarrow> bool" where
  "glob_segments_match [] path = (path = [])"
| "glob_segments_match (head # rest) path =
     (if head = ''**'' then
        if rest = [] then path \<noteq> []
        else list_ex (\<lambda>i. glob_segments_match rest (drop i path)) [0..<Suc (length path)]
      else path \<noteq> [] \<and> fnmatch (hd path) head \<and> glob_segments_match rest (tl path))"

text \<open>One line of a \<open>.gitignore\<close>; \<open>None\<close> is \<open>continue\<close>.\<close>

definition parse_rule :: "string \<Rightarrow> gitignore_rule option" where
  "parse_rule raw =
     (let line = strip_ignore_trailing_spaces
                   (rstrip_char (CHR 0x0D) (rstrip_char (CHR 0x0A) raw)) in
      if strip line = [] \<or> startswith (lstrip line) ''#'' then None
      else
        let negate = startswith line ''!'';
            line = (if negate then tl line else line);
            dir_only = endswith line ''/'' \<and> \<not> endswith line [CHR 0x5C, CHR ''/''];
            line = (if dir_only then butlast line else line) in
        if line = [] then None
        else
          let anchored = CHR ''/'' \<in> set (butlast line) \<or> startswith line ''/'';
              line = lstrip_char (CHR ''/'') line in
          if line = [] then None
          else Some \<lparr>gr_pattern = line, gr_negate = negate, gr_dir_only = dir_only,
                     gr_anchored = anchored\<rparr>)"

definition parse_gitignore_lines :: "string list \<Rightarrow> gitignore_rule list" where
  "parse_gitignore_lines lines = List.map_filter parse_rule lines"

definition load_gitignore_rules :: "string option \<Rightarrow> gitignore_rule list" where
  "load_gitignore_rules f = parse_gitignore_lines (read_ignore_lines f)"

definition gitignore_rule_matches :: "gitignore_rule \<Rightarrow> string \<Rightarrow> string \<Rightarrow> bool \<Rightarrow> bool" where
  "gitignore_rule_matches rule rel name is_dir =
     (if gr_dir_only rule \<and> \<not> is_dir then False
      else if gr_anchored rule then glob_segments_match (gr_segments rule) (split_on (CHR ''/'') rel)
      else fnmatch name (gr_pattern rule))"

definition is_gitignored :: "string \<Rightarrow> string \<Rightarrow> bool \<Rightarrow> gitignore_rule list \<Rightarrow> bool" where
  "is_gitignored rel name is_dir rules =
     fold (\<lambda>rule ignored. if gitignore_rule_matches rule rel name is_dir then \<not> gr_negate rule
                          else ignored) rules False"

section \<open>The walk\<close>

text \<open>What \<open>os.walk\<close> reports of a directory: the subdirectories (with what is in them) and the files.\<close>

datatype dir = Dir (subdirs: "(string \<times> dir) list") (dir_files: "string list")

text \<open>
  The settings read once per walk: the default ignores, the two parsed ignore files, and the place of
  the walked root below the repository root (\<open>None\<close> when it is not below it).
\<close>

record walk_settings =
  ws_default_ignores :: bool
  ws_avignore :: "string list"
  ws_gitignore :: "gitignore_rule list"
  ws_base :: "string list option"

definition IGNORED_DIRS :: "string list" where
  "IGNORED_DIRS = [''.av'', ''.git'', ''__pycache__'']"

definition DEFAULT_IGNORED_DIR_NAMES :: "string list" where
  "DEFAULT_IGNORED_DIR_NAMES =
     [''venv'', ''.venv'', ''env'', ''node_modules'', ''build'', ''dist'', ''.tox'', ''.nox'',
      ''.mypy_cache'', ''.pytest_cache'', ''.ruff_cache'', ''.eggs'', ''site-packages'',
      ''.ipynb_checkpoints'']"

text \<open>The value of \<open>AV_NO_DEFAULT_IGNORES\<close>, empty when unset.\<close>

definition default_ignores_enabled :: "string \<Rightarrow> bool" where
  "default_ignores_enabled v =
     (\<not> List.member [''1'', ''true'', ''yes''] (lower (strip v)))"

definition rel_posix :: "walk_settings \<Rightarrow> string list \<Rightarrow> string option" where
  "rel_posix st p = map_option (\<lambda>b. join_sep (CHR ''/'') (b @ p)) (ws_base st)"

definition gitignore_says :: "walk_settings \<Rightarrow> string list \<Rightarrow> string \<Rightarrow> bool \<Rightarrow> bool" where
  "gitignore_says st dpath name is_dir =
     (ws_gitignore st \<noteq> []
      \<and> (case rel_posix st (dpath @ [name]) of
           None \<Rightarrow> False
         | Some rel \<Rightarrow> is_gitignored rel name is_dir (ws_gitignore st)))"

definition keep_dir :: "walk_settings \<Rightarrow> string list \<Rightarrow> string \<Rightarrow> bool" where
  "keep_dir st dpath d =
     (if List.member IGNORED_DIRS d then False
      else if ws_default_ignores st \<and> List.member DEFAULT_IGNORED_DIR_NAMES d then False
      else if matches_avignore d (ws_avignore st) then False
      else \<not> gitignore_says st dpath d True)"

definition keep_file :: "walk_settings \<Rightarrow> string list \<Rightarrow> string \<Rightarrow> bool" where
  "keep_file st dpath f =
     (if endswith f ''.pyc'' \<or> endswith f ''.av-pointer'' then False
      else if matches_avignore f (ws_avignore st) then False
      else \<not> gitignore_says st dpath f False)"

lemma dir_smaller [termination_simp]:
  "(n, d) \<in> set ds \<Longrightarrow> size d < Suc (size_list (size_prod (\<lambda>_. 0) size) ds)"
  by (induction ds) (auto simp: less_Suc_eq_le trans_le_add1 trans_le_add2)

function walk :: "walk_settings \<Rightarrow> string list \<Rightarrow> dir \<Rightarrow> string list list" where
  "walk st dpath (Dir ds fs) =
     map (\<lambda>f. dpath @ [f]) (filter (keep_file st dpath) (sort fs))
     @ concat (map (\<lambda>nd. walk st (dpath @ [fst nd]) (snd nd))
                 (sort_key fst (filter (\<lambda>nd. keep_dir st dpath (fst nd)) ds)))"
  by pat_completeness auto

termination
  by (relation "measure (\<lambda>(_, _, d). size d)") (auto dest: dir_smaller)

text \<open>The paths are relative to the walked root.\<close>

definition walk_setup ::
  "string \<Rightarrow> string option \<Rightarrow> string option \<Rightarrow> string list option \<Rightarrow> walk_settings" where
  "walk_setup env avignore gitignore base =
     \<lparr>ws_default_ignores = default_ignores_enabled env,
      ws_avignore = load_avignore_patterns avignore,
      ws_gitignore = load_gitignore_rules gitignore,
      ws_base = base\<rparr>"

definition iter_working_files ::
  "string \<Rightarrow> string option \<Rightarrow> string option \<Rightarrow> string list option \<Rightarrow> dir \<Rightarrow> string list list" where
  "iter_working_files env avignore gitignore base d =
     walk (walk_setup env avignore gitignore base) [] d"

lemma walk_example:
  "iter_working_files [] (Some ''*.log\<newline>'') (Some ''/ml/*.pkl\<newline>!ml/keep.pkl\<newline>'') (Some [])
     (Dir [(''ml'', Dir [(''v'', Dir [] [''s.pkl''])] [''keep.pkl'', ''a.pkl'']),
           (''.git'', Dir [] [''HEAD'']), (''build'', Dir [] [''x''])] [''z.log'', ''b'', ''a.pyc''])
   = [[''b''], [''ml'', ''keep.pkl''], [''ml'', ''v'', ''s.pkl'']]"
  by code_simp

section \<open>What is in a directory and what is visible of it\<close>

fun wf_dir :: "dir \<Rightarrow> bool" where
  "wf_dir (Dir ds fs) =
     (distinct (map fst ds) \<and> distinct fs \<and> list_all (\<lambda>nd. wf_dir (snd nd)) ds)"

fun has_file :: "dir \<Rightarrow> string list \<Rightarrow> bool" where
  "has_file d [] = False"
| "has_file d [f] = List.member (dir_files d) f"
| "has_file d (n # p) =
     (case map_of (subdirs d) n of None \<Rightarrow> False | Some d' \<Rightarrow> has_file d' p)"

text \<open>No directory on the way and not the file itself is ignored.\<close>

fun visible :: "walk_settings \<Rightarrow> string list \<Rightarrow> string list \<Rightarrow> bool" where
  "visible st dpath [] = False"
| "visible st dpath [f] = keep_file st dpath f"
| "visible st dpath (n # p) = (keep_dir st dpath n \<and> visible st (dpath @ [n]) p)"

lemma has_file_Cons [simp]:
  "p \<noteq> [] \<Longrightarrow> has_file d (n # p) =
     (case map_of (subdirs d) n of None \<Rightarrow> False | Some d' \<Rightarrow> has_file d' p)"
  by (cases p) auto

lemma visible_Cons [simp]:
  "p \<noteq> [] \<Longrightarrow> visible st dpath (n # p) = (keep_dir st dpath n \<and> visible st (dpath @ [n]) p)"
  by (cases p) auto

text \<open>The order of the walk: files before subdirectories, both by name.\<close>

fun before :: "string list \<Rightarrow> string list \<Rightarrow> bool" where
  "before [] q = False"
| "before p [] = False"
| "before [f] [g] = (f < g)"
| "before [f] (m # q) = True"
| "before (n # p) [g] = False"
| "before (n # p) (m # q) = (n < m \<or> (n = m \<and> before p q))"

lemma before_asym: "before p q \<Longrightarrow> \<not> before q p"
  by (induction p q rule: before.induct) auto

lemma before_irrefl: "\<not> before p p"
  using before_asym by blast

lemma before_Cons_iff:
  "p \<noteq> [] \<Longrightarrow> q \<noteq> [] \<Longrightarrow> before (n # p) (m # q) \<longleftrightarrow> n < m \<or> (n = m \<and> before p q)"
  by (cases p; cases q) auto

lemma before_file_dir: "q \<noteq> [] \<Longrightarrow> before [f] (m # q)"
  by (cases q) auto

lemma sorted_wrt_unique:
  assumes "sorted_wrt R xs" "sorted_wrt R ys" "set xs = set ys"
    and asym: "\<And>x y. R x y \<Longrightarrow> \<not> R y x"
  shows "xs = ys"
  using assms(1-3)
proof (induction xs arbitrary: ys)
  case (Cons x xs)
  then obtain y ys' where ys: "ys = y # ys'"
    by (cases ys) auto
  have "x = y"
    using Cons.prems asym unfolding ys by (metis list.set_intros(1) set_ConsD sorted_wrt.simps(2))
  moreover have "\<not> R z z" for z
    using asym by blast
  then have "x \<notin> set xs" "y \<notin> set ys'"
    using Cons.prems unfolding ys by auto
  ultimately show ?case
    using Cons.prems Cons.IH[of ys'] unfolding ys by (metis insert_ident list.simps(15) sorted_wrt.simps(2))
qed simp

text \<open>The walk prefixes every path with the directory it starts from.\<close>

lemma walk_members:
  assumes "wf_dir d"
  shows "set (walk st dpath d) = (\<lambda>p. dpath @ p) ` {p. has_file d p \<and> visible st dpath p}"
  using assms
proof (induction d arbitrary: dpath rule: wf_dir.induct)
  case (1 ds fs)
  have IH: "set (walk st (dpath @ [n]) d')
              = (\<lambda>p. dpath @ n # p) ` {p. has_file d' p \<and> visible st (dpath @ [n]) p}"
    if "(n, d') \<in> set ds" for n d'
  proof -
    have "wf_dir d'" using 1(2) that by (auto simp: list_all_iff)
    then show ?thesis using 1(1)[of "(n, d')" "dpath @ [n]"] that by (auto simp: image_iff)
  qed
  have in_map: "(n, d') \<in> set ds \<longleftrightarrow> map_of ds n = Some d'" for n d'
    using 1(2) by simp
  have parts: "{p. has_file (Dir ds fs) p \<and> visible st dpath p}
      = (\<lambda>f. [f]) ` {f \<in> set fs. keep_file st dpath f}
        \<union> (\<Union>(n, d') \<in> {nd \<in> set ds. keep_dir st dpath (fst nd)}.
             (\<lambda>p. n # p) ` {p. has_file d' p \<and> visible st (dpath @ [n]) p})" (is "?L = ?R")
  proof
    show "?L \<subseteq> ?R"
    proof
      fix p assume p: "p \<in> ?L"
      then obtain n q where [simp]: "p = n # q" by (cases p) auto
      show "p \<in> ?R"
      proof (cases "q = []")
        case True then show ?thesis using p by auto
      next
        case False
        then show ?thesis
          using p by (fastforce simp: in_map split: option.splits)
      qed
    qed
    show "?R \<subseteq> ?L"
    proof
      fix p assume "p \<in> ?R"
      then show "p \<in> ?L"
      proof
        assume "p \<in> (\<Union>(n, d') \<in> {nd \<in> set ds. keep_dir st dpath (fst nd)}.
             (\<lambda>p. n # p) ` {p. has_file d' p \<and> visible st (dpath @ [n]) p})"
        then obtain n d' q where q: "(n, d') \<in> set ds" "keep_dir st dpath n" "p = n # q"
            "has_file d' q" "visible st (dpath @ [n]) q"
          by auto
        then have "q \<noteq> []" by (cases q) auto
        then show ?thesis using q by (simp add: in_map)
      qed auto
    qed
  qed
  have "set (walk st dpath (Dir ds fs))
      = (\<lambda>f. dpath @ [f]) ` {f \<in> set fs. keep_file st dpath f}
        \<union> (\<Union>(n, d') \<in> {nd \<in> set ds. keep_dir st dpath (fst nd)}. set (walk st (dpath @ [n]) d'))"
    by (auto simp: case_prod_unfold)
  also have "\<dots> = (\<lambda>f. dpath @ [f]) ` {f \<in> set fs. keep_file st dpath f}
        \<union> (\<Union>(n, d') \<in> {nd \<in> set ds. keep_dir st dpath (fst nd)}.
             (\<lambda>p. dpath @ n # p) ` {p. has_file d' p \<and> visible st (dpath @ [n]) p})"
    using IH by (intro arg_cong2[where f = "(\<union>)"] refl SUP_cong) auto
  finally show ?case
    unfolding parts by (simp add: image_Un image_UN image_image case_prod_unfold)
qed

lemma walk_prefixed: "wf_dir d \<Longrightarrow> p \<in> set (walk st dpath d) \<Longrightarrow> \<exists>q. p = dpath @ q \<and> q \<noteq> []"
  by (cases p) (auto simp: walk_members)

lemma sorted_wrt_concat:
  "sorted_wrt R (concat xss) \<longleftrightarrow>
     (\<forall>xs \<in> set xss. sorted_wrt R xs)
     \<and> sorted_wrt (\<lambda>xs ys. \<forall>x \<in> set xs. \<forall>y \<in> set ys. R x y) xss"
  by (induction xss) (auto simp: sorted_wrt_append)

lemma before_append: "before (n @ p) (n @ q) \<longleftrightarrow> before p q" if "p \<noteq> []" "q \<noteq> []"
  using that by (induction n) (simp_all add: before_Cons_iff)

lemma walk_sorted:
  assumes "wf_dir d"
  shows "sorted_wrt before (walk st dpath d)"
  using assms
proof (induction d arbitrary: dpath rule: wf_dir.induct)
  case (1 ds fs)
  let ?fs = "filter (keep_file st dpath) (sort fs)"
  let ?ds = "sort_key fst (filter (\<lambda>nd. keep_dir st dpath (fst nd)) ds)"
  have wfd: "wf_dir (snd nd)" if "nd \<in> set ds" for nd
    using 1(2) that by (auto simp: list_all_iff)
  have inner: "sorted_wrt before (walk st (dpath @ [fst nd]) (snd nd))" if "nd \<in> set ds" for nd
    using 1(1)[OF that wfd[OF that]] .
  have "sorted_wrt (<) ?fs"
    using 1(2) sorted_filter[of id "sort fs" "keep_file st dpath"]
    by (simp add: strict_sorted_iff)
  then have files: "sorted_wrt before (map (\<lambda>f. dpath @ [f]) ?fs)"
    by (simp add: sorted_wrt_map before_append)
  have "sorted_wrt (<) (map fst ?ds)"
    using 1(2) unfolding strict_sorted_iff by (simp add: distinct_map inj_on_def)
  then have "sorted_wrt (\<lambda>a b. fst a < fst b) ?ds"
    by (simp add: sorted_wrt_map)
  then have dirs: "sorted_wrt (\<lambda>a b. \<forall>x \<in> set (walk st (dpath @ [fst a]) (snd a)).
                          \<forall>y \<in> set (walk st (dpath @ [fst b]) (snd b)). before x y) ?ds"
  proof (rule sorted_wrt_mono_rel[rotated])
    fix a b assume ab: "a \<in> set ?ds" "b \<in> set ?ds" "fst a < fst b"
    show "\<forall>x \<in> set (walk st (dpath @ [fst a]) (snd a)).
            \<forall>y \<in> set (walk st (dpath @ [fst b]) (snd b)). before x y"
    proof (intro ballI)
      fix x y assume "x \<in> set (walk st (dpath @ [fst a]) (snd a))"
        "y \<in> set (walk st (dpath @ [fst b]) (snd b))"
      moreover have "a \<in> set ds" "b \<in> set ds" using ab by auto
      ultimately obtain q r where "x = (dpath @ [fst a]) @ q" "q \<noteq> []" "y = (dpath @ [fst b]) @ r" "r \<noteq> []"
        using walk_prefixed[OF wfd] by meson
      then show "before x y" using ab by (simp add: before_append before_Cons_iff)
    qed
  qed
  let ?below = "concat (map (\<lambda>nd. walk st (dpath @ [fst nd]) (snd nd)) ?ds)"
  have below: "sorted_wrt before ?below"
    unfolding sorted_wrt_concat sorted_wrt_map
    by (intro conjI dirs) (use inner in auto)
  have "before x y" if x: "x \<in> set (map (\<lambda>f. dpath @ [f]) ?fs)" and "y \<in> set ?below" for x y
  proof -
    obtain nd where nd: "nd \<in> set ds" and y: "y \<in> set (walk st (dpath @ [fst nd]) (snd nd))"
      using \<open>y \<in> set ?below\<close> by auto
    obtain q where "y = dpath @ fst nd # q" "q \<noteq> []"
      using walk_prefixed[OF wfd[OF nd] y] by auto
    then show ?thesis using x by (auto simp: before_append before_file_dir)
  qed
  then show ?case
    unfolding walk.simps sorted_wrt_append using files below by blast
qed

lemma sorted_wrt_distinct: "sorted_wrt R xs \<Longrightarrow> (\<And>x. \<not> R x x) \<Longrightarrow> distinct xs"
  by (induction xs) auto

lemma walk_distinct: "wf_dir d \<Longrightarrow> distinct (walk st dpath d)"
  using sorted_wrt_distinct walk_sorted before_irrefl by blast

section \<open>The properties\<close>

text \<open>
  C34. The client's walk of the working tree (\<open>iter_working_files\<close>, behind \<open>av add\<close> and \<open>av status\<close>)
  yields every file that is not ignored itself and has no ignored directory on its way, each once,
  and nothing else; a later \<open>!\<close> rule cannot bring back a file below an ignored directory.
\<close>

theorem working_files_exact:
  assumes "wf_dir d"
  shows "set (iter_working_files env avignore gitignore base d)
           = {p. has_file d p \<and> visible (walk_setup env avignore gitignore base) [] p}
       \<and> distinct (iter_working_files env avignore gitignore base d)"
  using assms by (auto simp: iter_working_files_def walk_members walk_distinct)

theorem working_files_exact_witness:
  "set (iter_working_files [] (Some ''*.log'') None (Some [])
          (Dir [(''ml'', Dir [] [''a.pkl'']), (''.git'', Dir [] [''HEAD''])] [''z.log'', ''b'']))
     = {[''b''], [''ml'', ''a.pkl'']}"
proof -
  let ?d = "Dir [(''ml'', Dir [] [''a.pkl'']), (''.git'', Dir [] [''HEAD''])] [''z.log'', ''b'']"
  have "distinct (iter_working_files [] (Some ''*.log'') None (Some []) ?d)"
    using working_files_exact[of ?d "[]" "Some ''*.log''" None "Some []"] by simp
  moreover have "iter_working_files [] (Some ''*.log'') None (Some []) ?d
                   = [[''b''], [''ml'', ''a.pkl'']]"
    by code_simp
  ultimately show ?thesis by simp
qed

text \<open>
  The walk lists the same paths in the same order on every machine: its result depends only on
  which files there are, neither on the order in which the file system reports names nor on empty
  directories.
\<close>

theorem working_files_deterministic:
  assumes "wf_dir d" "wf_dir d'" "has_file d = has_file d'"
  shows "iter_working_files env avignore gitignore base d
           = iter_working_files env avignore gitignore base d'"
  unfolding iter_working_files_def
  by (rule sorted_wrt_unique[where R = before])
     (use assms in \<open>auto simp: walk_sorted walk_members dest: before_asym\<close>)

theorem working_files_deterministic_witness:
  "iter_working_files [] None None (Some [])
     (Dir [(''x'', Dir [] []), (''m'', Dir [] [''a''])] [''z'', ''b''])
   = iter_working_files [] None None (Some []) (Dir [(''m'', Dir [] [''a''])] [''b'', ''z''])"
proof -
  let ?d = "Dir [(''x'', Dir [] []), (''m'', Dir [] [''a''])] [''z'', ''b'']"
  let ?d' = "Dir [(''m'', Dir [] [''a''])] [''b'', ''z'']"
  have "has_file ?d p = has_file ?d' p" for p
    by (cases p; cases "tl p"; cases "tl (tl p)") auto
  then show ?thesis
    by (intro working_files_deterministic) (auto simp: fun_eq_iff)
qed

text \<open>What an anchored pattern means: each segment but \<open>**\<close> takes one segment of the path, \<open>**\<close> any
  number, and one at the end at least one.\<close>

definition takes :: "string \<Rightarrow> string list \<Rightarrow> bool" where
  "takes g part \<longleftrightarrow> (if g = ''**'' then True else (\<exists>x. part = [x] \<and> fnmatch x g))"

lemma takes_split:
  "g \<noteq> ''**'' \<Longrightarrow>
     (\<exists>part path'. x # xs = part @ path' \<and> takes g part \<and> P path') \<longleftrightarrow> fnmatch x g \<and> P xs"
  by (auto simp: takes_def intro: exI[of _ "[x]"])

lemma glob_segments_spec:
  "glob_segments_match pat path \<longleftrightarrow>
     (\<exists>parts. concat parts = path \<and> list_all2 takes pat parts
        \<and> (pat \<noteq> [] \<and> last pat = ''**'' \<longrightarrow> last parts \<noteq> []))"
proof (induction pat path rule: glob_segments_match.induct)
  case (1 path)
  then show ?case by auto
next
  case (2 head rest path)
  let ?S = "\<lambda>pat path. \<exists>parts. concat parts = path \<and> list_all2 takes pat parts
        \<and> (pat \<noteq> [] \<and> last pat = ''**'' \<longrightarrow> last parts \<noteq> [])"
  have step: "?S (head # rest) path \<longleftrightarrow>
      (\<exists>part path'. path = part @ path' \<and> takes head part \<and> ?S rest path')" if "rest \<noteq> []"
  proof
    assume "?S (head # rest) path"
    then obtain part parts where *: "concat (part # parts) = path" "takes head part"
        "list_all2 takes rest parts" "last (head # rest) = ''**'' \<longrightarrow> last (part # parts) \<noteq> []"
      by (auto simp: list_all2_Cons1)
    moreover have "parts \<noteq> []" using * that by auto
    ultimately show "\<exists>part path'. path = part @ path' \<and> takes head part \<and> ?S rest path'"
      using that by (intro exI[of _ part] exI[of _ "concat parts"]) auto
  next
    assume "\<exists>part path'. path = part @ path' \<and> takes head part \<and> ?S rest path'"
    then obtain part parts where *: "path = part @ concat parts" "takes head part"
        "list_all2 takes rest parts" "rest \<noteq> [] \<and> last rest = ''**'' \<longrightarrow> last parts \<noteq> []"
      by auto
    moreover have "parts \<noteq> []" using * that by auto
    ultimately show "?S (head # rest) path"
      using that by (intro exI[of _ "part # parts"]) auto
  qed
  show ?case
  proof (cases "head = ''**''")
    case star: True
    show ?thesis
    proof (cases "rest = []")
      case True
      then show ?thesis
        using star by (auto simp: takes_def list_all2_Cons1 intro!: exI[of _ "[path]"])
    next
      case False
      have "(\<exists>i \<le> length path. ?S rest (drop i path))
              \<longleftrightarrow> (\<exists>part path'. path = part @ path' \<and> ?S rest path')"
        by (metis append_eq_conv_conj append_take_drop_id le_add1 length_append)
      moreover have "glob_segments_match (head # rest) path
              \<longleftrightarrow> (\<exists>i \<le> length path. ?S rest (drop i path))"
        using star False 2(1)[OF star False]
        by (auto simp: list_ex_iff less_Suc_eq_le simp del: upt_Suc)
      ultimately show ?thesis
        unfolding step[OF False] by (simp add: star takes_def del: glob_segments_match.simps)
    qed
  next
    case plain: False
    show ?thesis
    proof (cases path)
      case Nil
      then show ?thesis using plain by (auto simp: takes_def list_all2_Cons1)
    next
      case (Cons x xs)
      show ?thesis
      proof (cases "rest = []")
        case True
        have "?S (head # rest) path \<longleftrightarrow> takes head path"
          using plain True by (auto simp: list_all2_Cons1 intro: exI[of _ "[path]"])
        moreover have "takes head path \<longleftrightarrow> glob_segments_match (head # rest) path"
          using plain Cons True by (auto simp: takes_def)
        ultimately show ?thesis by blast
      next
        case False
        have "glob_segments_match (head # rest) path \<longleftrightarrow> fnmatch x head \<and> ?S rest xs"
          using plain Cons 2(2)[OF plain] by simp
        moreover have "?S (head # rest) path \<longleftrightarrow> fnmatch x head \<and> ?S rest xs"
          unfolding step[OF False] unfolding Cons takes_split[OF plain] ..
        ultimately show ?thesis by blast
      qed
    qed
  qed
qed

lemma fold_last:
  "fold (\<lambda>r b. if m r then v r else b) rs b \<longleftrightarrow>
     (case find m (rev rs) of None \<Rightarrow> b | Some r \<Rightarrow> v r)"
  by (induction rs rule: rev_induct) auto

text \<open>
  C35. Whether a path is git-ignored is decided by the last rule that matches it; an anchored rule
  matches exactly when its pattern's segments can be laid over the path, \<open>**\<close> taking any number of
  segments (at least one at the end) and every other segment exactly one. The code crosses directories
  with \<open>**\<close>; \<open>architecture.md\<close> and \<open>VERSIONING.md\<close> still say that it does not.
\<close>

theorem last_matching_rule_decides:
  "is_gitignored rel name is_dir rules =
     (case find (\<lambda>r. (gr_dir_only r \<longrightarrow> is_dir)
             \<and> (if gr_anchored r
                then \<exists>parts. concat parts = split_on (CHR ''/'') rel
                       \<and> list_all2 takes (gr_segments r) parts
                       \<and> (last (gr_segments r) = ''**'' \<longrightarrow> last parts \<noteq> [])
                else fnmatch name (gr_pattern r))) (rev rules) of
        None \<Rightarrow> False
      | Some r \<Rightarrow> \<not> gr_negate r)"
proof -
  have "gr_segments r \<noteq> []" for r
    by (simp add: gr_segments_def)
  then have "gitignore_rule_matches r rel name is_dir =
        ((gr_dir_only r \<longrightarrow> is_dir)
             \<and> (if gr_anchored r
                then \<exists>parts. concat parts = split_on (CHR ''/'') rel
                       \<and> list_all2 takes (gr_segments r) parts
                       \<and> (last (gr_segments r) = ''**'' \<longrightarrow> last parts \<noteq> [])
                else fnmatch name (gr_pattern r)))" for r
    unfolding gitignore_rule_matches_def glob_segments_spec by simp
  then show ?thesis
    by (simp add: is_gitignored_def fold_last)
qed

theorem last_matching_rule_decides_witness:
  "\<not> is_gitignored ''a/c.log'' ''c.log'' False (parse_gitignore_lines [''*.log'', ''!c.*''])"
proof -
  let ?r = "\<lambda>p n. \<lparr>gr_pattern = p, gr_negate = n, gr_dir_only = False, gr_anchored = False\<rparr>"
  have "parse_gitignore_lines [''*.log'', ''!c.*''] = [?r ''*.log'' False, ?r ''c.*'' True]"
    by code_simp
  moreover have "fnmatch ''c.log'' ''c.*''"
    by code_simp
  ultimately show ?thesis
    by (simp add: last_matching_rule_decides)
qed

end
