(* ===== verification/Staging.thy ===== *)
theory Staging
  imports Repo Ignore Json
begin

text \<open>
  The client's staging area: the index (\<open>index.py\<close>), staging of one file into the local object store
  (\<open>core.py::_compute_stage_result\<close>, \<open>apply_stage_result\<close>), pointer files (\<open>pointer.py\<close>), the
  attributes file (\<open>attributes.py\<close>), the status of the working tree and the commands \<open>av add\<close>,
  \<open>av rm\<close> and \<open>av unstage\<close> (\<open>cmd_staging.py\<close>).

  The local object store maps a hash to the bytes of its file under \<open>.av/objects\<close>. The working tree
  maps a path relative to the repository root, with \<open>/\<close> between its segments, to a file; directories
  are there while they have files in them. A tracked path is a file or absent. SHA-256, the
  functions of the C++ extension, the time stamps the file system hands out and which object files
  can be written (a full disk) are arguments.
\<close>

section \<open>The index\<close>

record ientry =
  ie_hash :: hash
  ie_size :: int
  ie_mtime :: int
  ie_type :: string
  ie_staged :: bool
  ie_pointer :: "path option"
  ie_layers :: "layer list"
  ie_chunks :: "chunk list"

record index =
  ix_entries :: "(path, ientry) dict"
  ix_removed :: "path list"

definition add_entry ::
  "index \<Rightarrow> path \<Rightarrow> hash \<Rightarrow> int \<Rightarrow> int \<Rightarrow> string \<Rightarrow> path option \<Rightarrow> index" where
  "add_entry ix rel h sz mtime ty pointer =
     (let changed = (case dget (ix_entries ix) rel of None \<Rightarrow> True | Some e \<Rightarrow> ie_hash e \<noteq> h) in
      ix\<lparr>ix_removed := remove1 rel (ix_removed ix),
         ix_entries := dset (ix_entries ix) rel
           \<lparr>ie_hash = h, ie_size = sz, ie_mtime = mtime, ie_type = ty, ie_staged = changed,
            ie_pointer = pointer, ie_layers = [], ie_chunks = []\<rparr>\<rparr>)"

definition remove_entry :: "index \<Rightarrow> path \<Rightarrow> index" where
  "remove_entry ix rel = ix\<lparr>ix_entries := ddel (ix_entries ix) rel\<rparr>"

text \<open>\<open>del self.entries[rel_path]\<close> raises when the path is not tracked.\<close>

definition stage_removal :: "index \<Rightarrow> path \<Rightarrow> index option" where
  "stage_removal ix rel =
     (if has_key (ix_entries ix) rel
      then Some (ix\<lparr>ix_entries := ddel (ix_entries ix) rel,
                    ix_removed := (if List.member (ix_removed ix) rel then ix_removed ix
                                   else ix_removed ix @ [rel])\<rparr>)
      else None)"

definition get_staged_entries :: "index \<Rightarrow> (path, ientry) dict" where
  "get_staged_entries ix = filter (\<lambda>(_, e). ie_staged e) (ix_entries ix)"

definition clear_staged :: "index \<Rightarrow> index" where
  "clear_staged ix =
     ix\<lparr>ix_entries := map (\<lambda>(p, e). (p, e\<lparr>ie_staged := False\<rparr>)) (ix_entries ix), ix_removed := []\<rparr>"

text \<open>\<open>Path(rel).suffix.lower()\<close>: of the last segment, from its last dot, when that dot is neither
  the first nor the last character.\<close>

definition file_name :: "path \<Rightarrow> string" where
  "file_name p = last (split_on (CHR ''/'') p)"

definition path_suffix :: "path \<Rightarrow> string" where
  "path_suffix p =
     (let nm = file_name p; ext = rev (takeWhile (\<lambda>c. c \<noteq> CHR ''.'') (rev nm)) in
      if length ext < length nm \<and> 0 < length ext \<and> Suc (length ext) < length nm
      then lower (CHR ''.'' # ext) else [])"

definition CODE_EXTS :: "string list" where
  "CODE_EXTS = [''.py'', ''.json'', ''.yaml'', ''.yml'', ''.toml'', ''.cfg'', ''.md'', ''.txt'']"

definition classify_file :: "path \<Rightarrow> string" where
  "classify_file rel = (if List.member CODE_EXTS (path_suffix rel) then ''code'' else ''artifact'')"

section \<open>Attributes\<close>

definition KNOWN_FLAGS :: "string list" where
  "KNOWN_FLAGS = [''no-chunk'', ''no-layer-split'', ''chunk'']"

text \<open>\<open>line.split()\<close>: the maximal runs without white space.\<close>

fun words_from :: "string \<Rightarrow> string \<Rightarrow> string list" where
  "words_from acc [] = (if acc = [] then [] else [rev acc])"
| "words_from acc (c # cs) =
     (if is_space c then (if acc = [] then words_from [] cs else rev acc # words_from [] cs)
      else words_from (c # acc) cs)"

definition words :: "string \<Rightarrow> string list" where
  "words s = words_from [] s"

fun attribute_rules :: "string list \<Rightarrow> (string \<times> string list) list" where
  "attribute_rules [] = []"
| "attribute_rules (raw # rest) =
     (let line = strip raw in
      if line = [] \<or> startswith line ''#'' then attribute_rules rest
      else (hd (words line), filter (List.member KNOWN_FLAGS) (tl (words line))) # attribute_rules rest)"

definition load_attributes :: "string option \<Rightarrow> (string \<times> string list) list" where
  "load_attributes f = (case f of None \<Rightarrow> [] | Some text \<Rightarrow> attribute_rules (splitlines text))"

definition flags_for :: "(string \<times> string list) list \<Rightarrow> path \<Rightarrow> string list" where
  "flags_for rules rel =
     fold (\<lambda>(pat, flags) effective. if fnmatch rel pat then flags else effective) rules []"

section \<open>Pointer files\<close>

text \<open>The bytes of a pointer file; \<open>None\<close> is the \<open>ValueError\<close> of its checks.\<close>

definition create_pointer :: "path \<Rightarrow> hash \<Rightarrow> int \<Rightarrow> string option" where
  "create_pointer file h sz =
     (if \<not> is_sha256_hex h then None
      else if sz < 0 then None
      else if CHR 0x0A \<in> set (file_name file) then None
      else Some (''version aether-vault-pointer v1'' @ [CHR 0x0A]
                 @ ''hash-sha256 '' @ h @ [CHR 0x0A]
                 @ ''size '' @ int_text sz @ [CHR 0x0A]
                 @ ''original-path '' @ file_name file @ [CHR 0x0A]))"

definition pointer_magic :: string where
  "pointer_magic = ''version aether-vault-pointer''"

definition is_pointer_file :: "string option \<Rightarrow> bool" where
  "is_pointer_file content =
     (case content of None \<Rightarrow> False
      | Some b \<Rightarrow> take (length pointer_magic) b = pointer_magic)"

definition get_pointer_path :: "path \<Rightarrow> path" where
  "get_pointer_path p = p @ ''.av-pointer''"

section \<open>Working tree and object store\<close>

record wfile =
  wf_bytes :: string
  wf_mtime :: int

type_synonym worktree = "(path, wfile) dict"
type_synonym objs = "(hash, string) dict"

record file_meta =
  fm_exists :: bool
  fm_size :: int
  fm_mtime :: int

definition get_file_meta :: "worktree \<Rightarrow> path \<Rightarrow> file_meta" where
  "get_file_meta w p =
     (case dget w p of
        None \<Rightarrow> \<lparr>fm_exists = False, fm_size = 0, fm_mtime = 0\<rparr>
      | Some f \<Rightarrow> \<lparr>fm_exists = True, fm_size = int (length (wf_bytes f)), fm_mtime = wf_mtime f\<rparr>)"

definition compare_meta :: "worktree \<Rightarrow> path \<Rightarrow> int \<Rightarrow> int \<Rightarrow> bool" where
  "compare_meta w p exp_size exp_mtime =
     (let m = get_file_meta w p in fm_exists m \<and> fm_size m = exp_size \<and> fm_mtime m = exp_mtime)"

text \<open>Publishing an object: nothing when its file is already there; \<open>None\<close> when it cannot be
  written.\<close>

definition publish :: "(hash \<Rightarrow> bool) \<Rightarrow> hash \<Rightarrow> string \<Rightarrow> objs \<Rightarrow> objs option" where
  "publish writable h b os =
     (if has_key os h then Some os else if writable h then Some (dset os h b) else None)"

definition hash_and_publish_whole_file ::
  "(string \<Rightarrow> hash) \<Rightarrow> (hash \<Rightarrow> bool) \<Rightarrow> string \<Rightarrow> objs \<Rightarrow> (hash \<times> objs) option" where
  "hash_and_publish_whole_file sha writable b os =
     map_option (\<lambda>os'. (sha b, os')) (publish writable (sha b) b os)"

section \<open>Staging one file\<close>

text \<open>
  The C++ extension. The fused functions hash, split and store in one pass: they return the whole
  hash with the parts, or raise, and in both cases the object store they leave. The split functions
  only return the spans of the parts. \<open>None\<close> for a function is an extension that lacks it.
\<close>

record span =
  sp_name :: string
  sp_hash :: hash
  sp_size :: int
  sp_offset :: int

record core_fns =
  cf_stage_safetensors :: "(string \<Rightarrow> objs \<Rightarrow> (hash \<times> layer list) option \<times> objs) option"
  cf_split_safetensors :: "(string \<Rightarrow> span list option) option"
  cf_stage_cdc :: "(string \<Rightarrow> objs \<Rightarrow> (hash \<times> chunk list) option \<times> objs) option"
  cf_chunk_file :: "(string \<Rightarrow> span list option) option"

record stage_env =
  se_sha :: "string \<Rightarrow> hash"
  se_core :: "core_fns option"
  se_fused :: bool
  se_threshold :: int
  se_writable :: "hash \<Rightarrow> bool"
  se_stamp :: "path \<Rightarrow> int"

definition CHUNKABLE_EXTS :: "string list" where
  "CHUNKABLE_EXTS =
     [''.pt'', ''.pth'', ''.ckpt'', ''.npz'', ''.h5'', ''.hdf5'', ''.pb'', ''.msgpack'',
      ''.bin'', ''.onnx'', ''.model'', ''.arrow'', ''.feather'', ''.pkl'', ''.pickle'']"

text \<open>\<open>AV_STAGE_FUSED\<close>, empty when unset.\<close>

definition fused_staging_enabled :: "string \<Rightarrow> bool" where
  "fused_staging_enabled v = (\<not> List.member [''0'', ''false'', ''no''] (lower (strip v)))"

definition slice :: "string \<Rightarrow> span \<Rightarrow> string" where
  "slice b s = take (nat (sp_size s)) (drop (nat (sp_offset s)) b)"

text \<open>The legacy loops: publish each part, stop at the first that cannot be written. The result says
  whether all were published and lists the parts that were.\<close>

fun publish_spans :: "(hash \<Rightarrow> bool) \<Rightarrow> string \<Rightarrow> span list \<Rightarrow> objs \<Rightarrow> bool \<times> span list \<times> objs" where
  "publish_spans writable b [] os = (True, [], os)"
| "publish_spans writable b (s # ss) os =
     (case publish writable (sp_hash s) (slice b s) os of
        None \<Rightarrow> (False, [], os)
      | Some os' \<Rightarrow> (case publish_spans writable b ss os' of (ok, done, os'') \<Rightarrow> (ok, s # done, os'')))"

definition span_layer :: "span \<Rightarrow> layer" where
  "span_layer s = \<lparr>l_name = sp_name s, l_hash = sp_hash s, l_size = sp_size s\<rparr>"

definition span_chunk :: "span \<Rightarrow> chunk" where
  "span_chunk s = \<lparr>ch_hash = sp_hash s, ch_size = sp_size s, ch_offset = sp_offset s\<rparr>"

text \<open>The fused pass, when it is enabled and the extension has it; one that raises leaves no hash.\<close>

definition fused_pass ::
  "bool \<Rightarrow> (string \<Rightarrow> objs \<Rightarrow> (hash \<times> 'p list) option \<times> objs) option \<Rightarrow> hash option \<Rightarrow> string \<Rightarrow> objs
   \<Rightarrow> hash option \<times> 'p list \<times> objs" where
  "fused_pass fused f fh b os =
     (case f of
        None \<Rightarrow> (fh, [], os)
      | Some g \<Rightarrow>
          if fused then
            (case g b os of
               (Some (wh, ps), os') \<Rightarrow> (Some wh, ps, os')
             | (None, os') \<Rightarrow> (None, [], os'))
          else (fh, [], os))"

text \<open>Layer splitting: the fused pass, then the legacy one if it gave no layers. A failing legacy pass
  keeps the layers it has appended so far.\<close>

definition stage_layers ::
  "stage_env \<Rightarrow> string \<Rightarrow> path \<Rightarrow> string list \<Rightarrow> objs \<Rightarrow> hash option \<times> layer list \<times> objs" where
  "stage_layers env b rel flags os =
     (case se_core env of
        None \<Rightarrow> (None, [], os)
      | Some core \<Rightarrow>
          if endswith rel ''.safetensors'' \<and> \<not> List.member flags ''no-layer-split'' then
            (case fused_pass (se_fused env) (cf_stage_safetensors core) None b os of (fh, layers, os1) \<Rightarrow>
             if layers = [] then
               (case cf_split_safetensors core of
                  None \<Rightarrow> (fh, [], os1)
                | Some g \<Rightarrow>
                    (case g b of
                       None \<Rightarrow> (fh, [], os1)
                     | Some spans \<Rightarrow>
                         (case publish_spans (se_writable env) b spans os1 of
                            (_, done, os2) \<Rightarrow> (fh, map span_layer done, os2))))
             else (fh, layers, os1))
          else (None, [], os))"

text \<open>Content-defined chunking, likewise; here a failing legacy pass drops its chunks.\<close>

definition stage_chunks ::
  "stage_env \<Rightarrow> string \<Rightarrow> path \<Rightarrow> string list \<Rightarrow> hash option \<Rightarrow> objs
   \<Rightarrow> hash option \<times> chunk list \<times> objs" where
  "stage_chunks env b rel flags fh os =
     (case se_core env of
        None \<Rightarrow> (fh, [], os)
      | Some core \<Rightarrow>
          if (List.member CHUNKABLE_EXTS (path_suffix rel) \<or> List.member flags ''chunk'')
             \<and> \<not> List.member flags ''no-chunk'' then
            (case fused_pass (se_fused env) (cf_stage_cdc core) fh b os of (fh1, chunks, os1) \<Rightarrow>
             if chunks = [] then
               (case cf_chunk_file core of
                  None \<Rightarrow> (fh1, [], os1)
                | Some g \<Rightarrow>
                    (case g b of
                       None \<Rightarrow> (fh1, [], os1)
                     | Some spans \<Rightarrow>
                         (case publish_spans (se_writable env) b spans os1 of
                            (ok, done, os2) \<Rightarrow> (fh1, if ok then map span_chunk done else [], os2))))
             else (fh1, chunks, os1))
          else (fh, [], os))"

record stage_result =
  sr_path :: path
  sr_hash :: hash
  sr_size :: int
  sr_mtime :: int
  sr_type :: string
  sr_pointer :: "path option"
  sr_layers :: "layer list"
  sr_chunks :: "chunk list"

datatype 'a attempt = Raised string | Done 'a

text \<open>
  \<open>_compute_stage_result\<close>: nothing when size and time stamp are those of the index; else the parts,
  the object files and, for a large artifact, the pointer file.
\<close>

definition compute_stage_result ::
  "stage_env \<Rightarrow> worktree \<Rightarrow> objs \<Rightarrow> path \<Rightarrow> string \<Rightarrow> ientry option \<Rightarrow> string list
   \<Rightarrow> stage_result option attempt \<times> worktree \<times> objs" where
  "compute_stage_result env w os rel ftype existing flags =
     (let m = get_file_meta w rel in
      if (case existing of None \<Rightarrow> False
          | Some e \<Rightarrow> fm_exists m \<and> fm_size m = ie_size e \<and> fm_mtime m = ie_mtime e)
      then (Done None, w, os)
      else (case dget w rel of
        None \<Rightarrow> (Raised ''FileNotFoundError'', w, os)
      | Some f \<Rightarrow>
        (let b = wf_bytes f in
         if ftype = ''artifact'' \<and> se_threshold env < fm_size m then
           (case stage_layers env b rel flags os of (fh1, layers, os1) \<Rightarrow>
            (case (if layers = [] then stage_chunks env b rel flags fh1 os1 else (fh1, [], os1)) of
               (fh2, chunks, os2) \<Rightarrow>
            (let h = (case fh2 of None \<Rightarrow> se_sha env b | Some x \<Rightarrow> x) in
             (case (if layers = [] \<and> chunks = [] then publish (se_writable env) h b os2 else Some os2) of
                None \<Rightarrow> (Raised ''OSError'', w, os2)
              | Some os3 \<Rightarrow>
                (case create_pointer rel h (fm_size m) of
                   None \<Rightarrow> (Raised ''ValueError'', w, os3)
                 | Some text \<Rightarrow>
                     (let ptr = get_pointer_path rel in
                      (Done (Some \<lparr>sr_path = rel, sr_hash = h, sr_size = fm_size m,
                                   sr_mtime = fm_mtime m, sr_type = ftype, sr_pointer = Some ptr,
                                   sr_layers = layers, sr_chunks = chunks\<rparr>),
                       dset w ptr \<lparr>wf_bytes = text, wf_mtime = se_stamp env ptr\<rparr>,
                       os3)))))))
         else
           (case hash_and_publish_whole_file (se_sha env) (se_writable env) b os of
              None \<Rightarrow> (Raised ''OSError'', w, os)
            | Some (h, os1) \<Rightarrow>
                (Done (Some \<lparr>sr_path = rel, sr_hash = h, sr_size = fm_size m, sr_mtime = fm_mtime m,
                             sr_type = ftype, sr_pointer = None, sr_layers = [], sr_chunks = []\<rparr>),
                 w, os1)))))"

definition set_parts :: "index \<Rightarrow> path \<Rightarrow> layer list \<Rightarrow> chunk list \<Rightarrow> index" where
  "set_parts ix rel layers chunks =
     (case dget (ix_entries ix) rel of
        None \<Rightarrow> ix
      | Some e \<Rightarrow>
          ix\<lparr>ix_entries := dset (ix_entries ix) rel
               (e\<lparr>ie_layers := (if layers \<noteq> [] then layers else ie_layers e),
                  ie_chunks := (if chunks \<noteq> [] then chunks else ie_chunks e)\<rparr>)\<rparr>)"

definition apply_stage_result :: "index \<Rightarrow> stage_result \<Rightarrow> index" where
  "apply_stage_result ix r =
     set_parts (add_entry ix (sr_path r) (sr_hash r) (sr_size r) (sr_mtime r) (sr_type r) (sr_pointer r))
       (sr_path r) (sr_layers r) (sr_chunks r)"

definition stage_one_file ::
  "stage_env \<Rightarrow> worktree \<Rightarrow> objs \<Rightarrow> index \<Rightarrow> path \<Rightarrow> string list
   \<Rightarrow> bool attempt \<times> worktree \<times> objs \<times> index" where
  "stage_one_file env w os ix rel flags =
     (case compute_stage_result env w os rel (classify_file rel) (dget (ix_entries ix) rel) flags of
        (Raised e, w', os') \<Rightarrow> (Raised e, w', os', ix)
      | (Done None, w', os') \<Rightarrow> (Done False, w', os', ix)
      | (Done (Some r), w', os') \<Rightarrow> (Done True, w', os', apply_stage_result ix r))"

section \<open>Status\<close>

record status =
  st_staged :: "path list"
  st_modified :: "path list"
  st_deleted :: "path list"
  st_untracked :: "path list"

text \<open>\<open>compute_status\<close>: \<open>walked\<close> is the set of files the walk of the repository root yields.\<close>

definition is_deleted :: "worktree \<Rightarrow> path list \<Rightarrow> path \<Rightarrow> bool" where
  "is_deleted w walked p \<longleftrightarrow> \<not> List.member walked p \<and> \<not> has_key w p"

definition compute_status :: "worktree \<Rightarrow> path list \<Rightarrow> index \<Rightarrow> status" where
  "compute_status w walked ix =
     (let es = ix_entries ix in
      \<lparr>st_staged = map fst (filter (\<lambda>(p, e). \<not> is_deleted w walked p \<and> ie_staged e) es),
       st_modified = map fst (filter (\<lambda>(p, e). \<not> is_deleted w walked p \<and> \<not> ie_staged e
                         \<and> \<not> compare_meta w p (ie_size e) (ie_mtime e)) es),
       st_deleted = map fst (filter (\<lambda>(p, e). is_deleted w walked p) es),
       st_untracked = filter (\<lambda>p. \<not> has_key es p) walked\<rparr>)"

definition disk_files :: "string list list \<Rightarrow> path list" where
  "disk_files ps = map (join_sep (CHR ''/'')) ps"

text \<open>\<open>_collect_dirty_paths\<close>: the untracked files the target tree would overwrite, then the tracked
  paths whose state a tree switch would lose.\<close>

definition collect_dirty_paths ::
  "(string \<Rightarrow> hash) \<Rightarrow> worktree \<Rightarrow> index \<Rightarrow> tree \<Rightarrow> path list" where
  "collect_dirty_paths sha w ix target =
     map fst (filter (\<lambda>(p, info). \<not> has_key (ix_entries ix) p
        \<and> (case dget w p of None \<Rightarrow> False | Some f \<Rightarrow> sha (wf_bytes f) \<noteq> e_hash info)) target)
     @ map fst (filter (\<lambda>(p, e). \<not> has_key w p \<or> ie_staged e
                          \<or> \<not> compare_meta w p (ie_size e) (ie_mtime e)) (ix_entries ix))"

section \<open>\<open>av add\<close>, \<open>av rm\<close> and \<open>av unstage\<close>\<close>

text \<open>\<open>remove_file_and_pointer\<close>; the pruning of empty directories does not show.\<close>

definition remove_file_and_pointer :: "worktree \<Rightarrow> path \<Rightarrow> worktree" where
  "remove_file_and_pointer w p = ddel (ddel w p) (get_pointer_path p)"

text \<open>The paths of an \<open>add\<close> that need work, with the index entry each is compared with.\<close>

definition add_work ::
  "worktree \<Rightarrow> index \<Rightarrow> (string \<times> string list) list \<Rightarrow> path list
   \<Rightarrow> (path \<times> ientry option \<times> string list) list" where
  "add_work w ix rules files =
     map (\<lambda>p. (p, dget (ix_entries ix) p, flags_for rules p))
       (filter (\<lambda>p. \<not> (case dget (ix_entries ix) p of None \<Rightarrow> False
                       | Some e \<Rightarrow> compare_meta w p (ie_size e) (ie_mtime e))
                    \<and> \<not> is_pointer_file (map_option wf_bytes (dget w p))) files)"

fun add_loop ::
  "stage_env \<Rightarrow> (path \<times> ientry option \<times> string list) list \<Rightarrow> worktree \<Rightarrow> objs \<Rightarrow> index
   \<Rightarrow> stage_result list attempt \<times> worktree \<times> objs \<times> index" where
  "add_loop env [] w os ix = (Done [], w, os, ix)"
| "add_loop env ((p, existing, flags) # work) w os ix =
     (case compute_stage_result env w os p (classify_file p) existing flags of
        (Raised e, w', os') \<Rightarrow> (Raised e, w', os', ix)
      | (Done None, w', os') \<Rightarrow> add_loop env work w' os' ix
      | (Done (Some r), w', os') \<Rightarrow>
          (case add_loop env work w' os' (apply_stage_result ix r) of
             (Raised e, w'', os'', ix'') \<Rightarrow> (Raised e, w'', os'', ix'')
           | (Done rs, w'', os'', ix'') \<Rightarrow> (Done (r # rs), w'', os'', ix'')))"

text \<open>Merging the staged paths into the index as it is on disk by then (\<open>current\<close>).\<close>

definition merge_item :: "index \<Rightarrow> stage_result \<Rightarrow> index \<Rightarrow> index" where
  "merge_item staged r current =
     (let current = add_entry current (sr_path r) (sr_hash r) (sr_size r) 0 (sr_type r) None in
      (case dget (ix_entries staged) (sr_path r) of
         None \<Rightarrow> current
       | Some e \<Rightarrow> current\<lparr>ix_entries := dset (ix_entries current) (sr_path r) e\<rparr>))"

text \<open>
  The files of a directory argument come from the walk; \<open>ix\<close> is the index read at the start and
  \<open>current\<close> the one read again under the lock. An exception leaves the index alone.
\<close>

definition av_add ::
  "stage_env \<Rightarrow> (string \<times> string list) list \<Rightarrow> path list \<Rightarrow> worktree \<Rightarrow> objs \<Rightarrow> index \<Rightarrow> index
   \<Rightarrow> stage_result list attempt \<times> worktree \<times> objs \<times> index" where
  "av_add env rules files w os ix current =
     (case add_loop env (add_work w ix rules files) w os ix of
        (Raised e, w', os', _) \<Rightarrow> (Raised e, w', os', current)
      | (Done rs, w', os', ix') \<Rightarrow>
          (Done rs, w', os', if rs = [] then current else fold (merge_item ix') rs current))"

definition under :: "path \<Rightarrow> path \<Rightarrow> bool" where
  "under prefix rel \<longleftrightarrow> prefix = ''.'' \<or> rel = prefix \<or> startswith rel (prefix @ ''/'')"

text \<open>The tracked paths of all arguments, or the first argument that matches none.\<close>

fun rm_select :: "index \<Rightarrow> path list \<Rightarrow> path list attempt" where
  "rm_select ix [] = Done []"
| "rm_select ix (prefix # rest) =
     (let ms = filter (under prefix) (map fst (ix_entries ix)) in
      if ms = [] then Raised ''not tracked''
      else (case rm_select ix rest of Raised e \<Rightarrow> Raised e | Done xs \<Rightarrow> Done (ms @ xs)))"

definition drop_tracked :: "bool \<Rightarrow> path \<Rightarrow> worktree \<times> index \<Rightarrow> worktree \<times> index" where
  "drop_tracked cached p s =
     (case stage_removal (snd s) p of
        None \<Rightarrow> s
      | Some ix' \<Rightarrow> (if cached then fst s else remove_file_and_pointer (fst s) p, ix'))"

definition av_rm :: "bool \<Rightarrow> path list \<Rightarrow> worktree \<Rightarrow> index \<Rightarrow> path list attempt \<times> worktree \<times> index" where
  "av_rm cached prefixes w ix =
     (case rm_select ix prefixes of
        Raised e \<Rightarrow> (Raised e, w, ix)
      | Done xs \<Rightarrow>
          (let selected = sort (remdups xs) in
           (case fold (drop_tracked cached) selected (w, ix) of (w', ix') \<Rightarrow> (Done selected, w', ix'))))"

text \<open>The index entry \<open>unstage\<close> writes for a path of HEAD's tree: its layers are taken over, its chunks
  are not.\<close>

definition head_entry :: "path \<Rightarrow> entry \<Rightarrow> ientry" where
  "head_entry rel d =
     \<lparr>ie_hash = e_hash d, ie_size = e_size d, ie_mtime = 0, ie_type = e_type d, ie_staged = False,
      ie_pointer = (if e_type d = ''artifact'' then Some (get_pointer_path rel) else None),
      ie_layers = e_layers d, ie_chunks = []\<rparr>"

text \<open>Unstaging the same new path twice raises \<open>KeyError\<close>; the index is then not saved.\<close>

fun unstage_loop :: "tree \<Rightarrow> path list \<Rightarrow> worktree \<Rightarrow> index \<Rightarrow> index attempt \<times> worktree" where
  "unstage_loop head_tree [] w ix = (Done ix, w)"
| "unstage_loop head_tree (rel # rels) w ix =
     (case dget (ix_entries ix) rel of
        None \<Rightarrow> (Raised ''KeyError'', w)
      | Some e \<Rightarrow>
          (case dget head_tree rel of
             Some d \<Rightarrow>
               unstage_loop head_tree rels w
                 (ix\<lparr>ix_entries := dset (ix_entries ix) rel (head_entry rel d)\<rparr>)
           | None \<Rightarrow>
               unstage_loop head_tree rels
                 (case ie_pointer e of None \<Rightarrow> w | Some p \<Rightarrow> ddel w p)
                 (ix\<lparr>ix_entries := ddel (ix_entries ix) rel\<rparr>)))"

definition av_unstage ::
  "tree \<Rightarrow> path list \<Rightarrow> worktree \<Rightarrow> index \<Rightarrow> path list attempt \<times> worktree \<times> index" where
  "av_unstage head_tree paths w ix =
     (let staged = map fst (get_staged_entries ix);
          rels = (if paths = [] then staged else filter (List.member staged) paths) in
      (case unstage_loop head_tree rels w ix of
         (Raised e, w') \<Rightarrow> (Raised e, w', ix)
       | (Done ix', w') \<Rightarrow> (Done rels, w', ix')))"

text \<open>The tree a commit records: every index entry.\<close>

definition commit_entry :: "ientry \<Rightarrow> entry" where
  "commit_entry e =
     \<lparr>e_hash = ie_hash e, e_size = ie_size e, e_type = ie_type e, e_layers = ie_layers e,
      e_chunks = ie_chunks e\<rparr>"

definition commit_tree :: "index \<Rightarrow> tree" where
  "commit_tree ix = map (\<lambda>(p, e). (p, commit_entry e)) (ix_entries ix)"

section \<open>Facts about the index\<close>

definition index_wf :: "index \<Rightarrow> bool" where
  "index_wf ix \<longleftrightarrow> dict_wf (ix_entries ix) \<and> distinct (ix_removed ix)
     \<and> (\<forall>p \<in> set (ix_removed ix). \<not> has_key (ix_entries ix) p)"

lemma dget_add_entry:
  "dget (ix_entries (add_entry ix rel h sz mt ty ptr)) p =
     (if p = rel
      then Some \<lparr>ie_hash = h, ie_size = sz, ie_mtime = mt, ie_type = ty,
             ie_staged = (case dget (ix_entries ix) rel of None \<Rightarrow> True | Some e \<Rightarrow> ie_hash e \<noteq> h),
             ie_pointer = ptr, ie_layers = [], ie_chunks = []\<rparr>
      else dget (ix_entries ix) p)"
  by (simp add: add_entry_def Let_def)

lemma keys_add_entry [simp]:
  "fst ` set (ix_entries (add_entry ix rel h sz mt ty ptr)) = insert rel (fst ` set (ix_entries ix))"
  by (simp add: add_entry_def Let_def)

lemma removed_add_entry [simp]:
  "ix_removed (add_entry ix rel h sz mt ty ptr) = remove1 rel (ix_removed ix)"
  by (simp add: add_entry_def Let_def)

lemma index_wf_add_entry [wf_intros]:
  "index_wf ix \<Longrightarrow> index_wf (add_entry ix rel h sz mt ty ptr)"
  unfolding index_wf_def
  by (auto simp: add_entry_def Let_def dict_wf_dset set_remove1_eq)

lemma index_wf_stage_removal:
  assumes "index_wf ix" "stage_removal ix rel = Some ix'"
  shows "index_wf ix'"
proof -
  let ?rm = "if List.member (ix_removed ix) rel then ix_removed ix else ix_removed ix @ [rel]"
  have ix': "ix_entries ix' = ddel (ix_entries ix) rel" "ix_removed ix' = ?rm"
    using assms(2) by (auto simp: stage_removal_def split: if_splits)
  have "distinct ?rm" "set ?rm \<subseteq> insert rel (set (ix_removed ix))"
    using assms(1) by (auto simp: index_wf_def)
  then show ?thesis
    using assms(1) unfolding index_wf_def ix' has_key_iff keys_ddel by auto
qed

lemma keys_map_snd [simp]: "fst ` set (map (\<lambda>(p, e). (p, f p e)) d) = fst ` set d"
  by force

lemma index_wf_clear_staged [wf_intros]: "index_wf ix \<Longrightarrow> index_wf (clear_staged ix)"
  by (simp add: index_wf_def clear_staged_def)

lemma dget_clear_staged:
  "dget (ix_entries (clear_staged ix)) p =
     map_option (\<lambda>e. e\<lparr>ie_staged := False\<rparr>) (dget (ix_entries ix) p)"
  by (simp add: clear_staged_def dget_map_snd)

lemma dget_set_parts:
  "dget (ix_entries (set_parts ix rel ls cs)) p =
     (if p = rel
      then map_option (\<lambda>e. e\<lparr>ie_layers := (if ls \<noteq> [] then ls else ie_layers e),
                            ie_chunks := (if cs \<noteq> [] then cs else ie_chunks e)\<rparr>)
             (dget (ix_entries ix) rel)
      else dget (ix_entries ix) p)"
  by (simp add: set_parts_def split: option.splits)

lemma dget_apply_stage_result:
  "dget (ix_entries (apply_stage_result ix r)) p =
     (if p = sr_path r
      then Some \<lparr>ie_hash = sr_hash r, ie_size = sr_size r, ie_mtime = sr_mtime r, ie_type = sr_type r,
             ie_staged = (case dget (ix_entries ix) (sr_path r) of
                            None \<Rightarrow> True | Some e \<Rightarrow> ie_hash e \<noteq> sr_hash r),
             ie_pointer = sr_pointer r, ie_layers = sr_layers r, ie_chunks = sr_chunks r\<rparr>
      else dget (ix_entries ix) p)"
  by (simp add: apply_stage_result_def dget_set_parts dget_add_entry)

lemma set_parts_keys:
  "fst ` set (ix_entries (set_parts ix rel ls cs)) = fst ` set (ix_entries ix)"
  by (cases "dget (ix_entries ix) rel")
     (simp_all add: set_parts_def insert_absorb map_of_Some_key)

lemma index_wf_set_parts [wf_intros]:
  assumes "index_wf ix"
  shows "index_wf (set_parts ix rel ls cs)"
proof -
  have "dict_wf (ix_entries (set_parts ix rel ls cs))"
    using assms by (simp add: index_wf_def set_parts_def split: option.split)
  moreover have "ix_removed (set_parts ix rel ls cs) = ix_removed ix"
    by (simp add: set_parts_def split: option.split)
  ultimately show ?thesis
    using assms unfolding index_wf_def has_key_iff set_parts_keys by simp
qed

lemma index_wf_apply [wf_intros]: "index_wf ix \<Longrightarrow> index_wf (apply_stage_result ix r)"
  unfolding apply_stage_result_def by (intro wf_intros)

text \<open>Adding a staged path again with the same bytes takes its staged flag away: a new file that was
  touched and added a second time is no longer part of what \<open>av commit\<close> finds staged.\<close>

lemma readd_unstages:
  assumes "index_wf ix" "dget (ix_entries ix) rel = Some e" "ie_hash e = h"
  shows "dget (get_staged_entries (add_entry ix rel h sz mt ty ptr)) rel = None"
proof -
  have "dict_wf (ix_entries (add_entry ix rel h sz mt ty ptr))"
    using index_wf_add_entry[OF assms(1)] by (simp add: index_wf_def)
  then have "(rel, x) \<notin> set (get_staged_entries (add_entry ix rel h sz mt ty ptr))" for x
    using assms by (auto simp: get_staged_entries_def dict_wf_get dget_add_entry)
  then show ?thesis
    by (force simp: map_of_eq_None_iff)
qed

lemma status_dirty_agree:
  assumes "list_all (has_key w) walked"
  shows "set (collect_dirty_paths sha w ix [])
           = set (st_staged (compute_status w walked ix)) \<union> set (st_modified (compute_status w walked ix))
             \<union> set (st_deleted (compute_status w walked ix))"
  using assms
  by (auto simp: collect_dirty_paths_def compute_status_def Let_def is_deleted_def list_all_iff image_iff
      split: prod.splits) (metis fst_conv)+

end
