(* ===== verification/Restore.thy ===== *)
theory Restore
  imports Staging "HOL-Library.Sublist"
begin

text \<open>
  Restoring files from the object store: \<open>core.py::materialize_file\<close>, \<open>tree_missing_objects\<close>,
  \<open>_materialize_tree\<close> (behind \<open>av checkout\<close>, \<open>av pull\<close>, \<open>av merge\<close> and \<open>av clone\<close>) and
  \<open>sync.py::collect_tree_hashes\<close>, \<open>ensure_objects_local\<close>.

  The registry is seen through the client (\<open>client.py\<close>): whether it is up, what it answers to a
  request for an object and which of a list of hashes it says it has. Within one command these
  answers do not change.
\<close>

section \<open>The registry as the client sees it\<close>

datatype answer = Bytes string | Unauthorized | NoAnswer
datatype batch_answer = Found "hash list" | BatchUnauthorized | BatchFailed

record net =
  nt_up :: bool
  nt_object :: "hash \<Rightarrow> answer"
  nt_batch :: "hash list \<Rightarrow> batch_answer"

text \<open>\<open>download_object\<close>: the bytes are published only when they hash to the name.\<close>

definition download_object :: "(string \<Rightarrow> hash) \<Rightarrow> net \<Rightarrow> hash \<Rightarrow> string option attempt" where
  "download_object sha net h =
     (case nt_object net h of
        Bytes b \<Rightarrow> Done (if sha b = h then Some b else None)
      | Unauthorized \<Rightarrow> Raised ''AuthenticationError''
      | NoAnswer \<Rightarrow> Done None)"

definition batch_check_objects :: "net \<Rightarrow> hash list \<Rightarrow> hash list attempt" where
  "batch_check_objects net hs =
     (if hs = [] then Done []
      else (case nt_batch net hs of
              Found found \<Rightarrow> Done found
            | BatchUnauthorized \<Rightarrow> Raised ''AuthenticationError''
            | BatchFailed \<Rightarrow> Done []))"

section \<open>One file\<close>

text \<open>
  Writing the parts of a split file one after the other. A part that is not local is downloaded into
  the object store first. \<open>Stopped\<close> is the missing part, \<open>Refused\<close> an \<open>AuthenticationError\<close>; both
  leave the bytes written so far.
\<close>

datatype assembly = Assembled string | Stopped string | Refused string

fun assemble ::
  "(string \<Rightarrow> hash) \<Rightarrow> net \<Rightarrow> hash list \<Rightarrow> string \<Rightarrow> objs \<Rightarrow> assembly \<times> objs" where
  "assemble sha net [] written os = (Assembled written, os)"
| "assemble sha net (h # hs) written os =
     (case dget os h of
        Some b \<Rightarrow> assemble sha net hs (written @ b) os
      | None \<Rightarrow>
          if nt_up net then
            (case download_object sha net h of
               Raised _ \<Rightarrow> (Refused written, os)
             | Done None \<Rightarrow> (Stopped written, os)
             | Done (Some b) \<Rightarrow> assemble sha net hs (written @ b) (dset os h b))
          else (Stopped written, os))"

definition part_hashes :: "layer list \<Rightarrow> chunk list \<Rightarrow> hash list" where
  "part_hashes layers chunks =
     (if layers \<noteq> [] then map l_hash layers else map ch_hash (sort_key ch_offset chunks))"

definition write_file :: "(path \<Rightarrow> int) \<Rightarrow> path \<Rightarrow> string \<Rightarrow> worktree \<Rightarrow> worktree" where
  "write_file stamp p b w = dset w p \<lparr>wf_bytes = b, wf_mtime = stamp p\<rparr>"

definition materialize_file ::
  "(string \<Rightarrow> hash) \<Rightarrow> net \<Rightarrow> (path \<Rightarrow> int) \<Rightarrow> bool \<Rightarrow> path \<Rightarrow> hash \<Rightarrow> layer list \<Rightarrow> chunk list
   \<Rightarrow> worktree \<Rightarrow> objs \<Rightarrow> unit attempt \<times> worktree \<times> objs" where
  "materialize_file sha net stamp verify rel h layers chunks w os =
     (if layers \<noteq> [] \<or> chunks \<noteq> [] then
        (case assemble sha net (part_hashes layers chunks) [] os of
           (Stopped _, os') \<Rightarrow> (Raised ''ClickException'', ddel w rel, os')
         | (Refused b, os') \<Rightarrow> (Raised ''AuthenticationError'', write_file stamp rel b w, os')
         | (Assembled b, os') \<Rightarrow>
             if verify \<and> sha b \<noteq> h then (Raised ''MissingObjectError'', ddel w rel, os')
             else (Done (), write_file stamp rel b w, os'))
      else (case dget os h of
        Some b \<Rightarrow>
          if verify \<and> sha b \<noteq> h then (Raised ''MissingObjectError'', w, os)
          else (Done (), write_file stamp rel b w, os)
      | None \<Rightarrow>
          if nt_up net then
            (case download_object sha net h of
               Raised e \<Rightarrow> (Raised e, w, os)
             | Done None \<Rightarrow> (Raised ''MissingObjectError'', w, os)
             | Done (Some b) \<Rightarrow> (Done (), write_file stamp rel b w, dset os h b))
          else (Raised ''MissingObjectError'', w, os)))"

definition tree_missing_objects :: "(string \<Rightarrow> hash) \<Rightarrow> bool \<Rightarrow> objs \<Rightarrow> tree \<Rightarrow> path list" where
  "tree_missing_objects sha verify os tree =
     map fst (filter (\<lambda>(p, info).
       (let parts = (if e_layers info \<noteq> [] then map l_hash (e_layers info)
                     else map ch_hash (e_chunks info)) in
        if parts \<noteq> [] then \<not> list_all (has_key os) parts
        else (case dget os (e_hash info) of
                None \<Rightarrow> True
              | Some b \<Rightarrow> verify \<and> sha b \<noteq> e_hash info))) tree)"

section \<open>The objects of a tree\<close>

definition entry_hashes :: "entry \<Rightarrow> hash list" where
  "entry_hashes info =
     (let parts = map l_hash (e_layers info) @ map ch_hash (e_chunks info) in
      if parts \<noteq> [] then parts else [e_hash info])"

definition collect_tree_hashes :: "tree \<Rightarrow> hash list" where
  "collect_tree_hashes tree = concat (map (\<lambda>(_, info). entry_hashes info) tree)"

text \<open>All downloads run; the first that raises is raised once they are done.\<close>

fun download_all ::
  "(string \<Rightarrow> hash) \<Rightarrow> net \<Rightarrow> hash list \<Rightarrow> objs \<Rightarrow> nat attempt \<times> objs" where
  "download_all sha net [] os = (Done 0, os)"
| "download_all sha net (h # hs) os =
     (case download_object sha net h of
        Raised e \<Rightarrow> (Raised e, snd (download_all sha net hs os))
      | Done None \<Rightarrow> download_all sha net hs os
      | Done (Some b) \<Rightarrow>
          (case download_all sha net hs (dset os h b) of
             (Raised e, os') \<Rightarrow> (Raised e, os')
           | (Done n, os') \<Rightarrow> (Done (Suc n), os')))"

definition ensure_objects_local ::
  "(string \<Rightarrow> hash) \<Rightarrow> net \<Rightarrow> tree \<Rightarrow> objs \<Rightarrow> nat attempt \<times> objs" where
  "ensure_objects_local sha net tree os =
     (let missing = filter (\<lambda>h. \<not> has_key os h) (rev (remdups (rev (collect_tree_hashes tree)))) in
      if missing = [] then (Done 0, os)
      else (case batch_check_objects net missing of
              Raised e \<Rightarrow> (Raised e, os)
            | Done found \<Rightarrow>
                (let downloadable = filter (List.member found) missing in
                 (case download_all sha net downloadable os of
                    (Raised e, os') \<Rightarrow> (Raised e, os')
                  | (Done n, os') \<Rightarrow>
                      if \<not> list_all (List.member downloadable) missing
                         \<or> \<not> list_all (has_key os') downloadable
                      then (Raised ''ValidationError'', os')
                      else (Done n, os')))))"

section \<open>A whole tree\<close>

text \<open>
  A commit's tree as \<open>_materialize_tree\<close> reads it: with a key \<open>code\<close> or \<open>artifacts\<close> it is taken for
  the legacy shape, the two maps of which are walked. In a flat tree such a key is a tracked file of
  that name, and the walk runs over the fields of its entry: a field of an entry under \<open>artifacts\<close> has
  no \<open>hash\<close> and raises \<open>TypeError\<close>, the fields under \<open>code\<close> become index entries. (A field that is not
  text is held by its JSON text.)
\<close>

record artifact =
  ar_hash :: hash
  ar_size :: int
  ar_pointer :: "path option"

datatype ctree = Flat tree | Legacy "(path \<times> string) list" "(path \<times> artifact) list"

definition parts_text :: "string list \<Rightarrow> string" where
  "parts_text hs = dumps (JList (map JStr hs))"

definition entry_fields :: "entry \<Rightarrow> (path \<times> string) list" where
  "entry_fields e =
     [(''hash'', e_hash e), (''size'', int_text (e_size e)), (''type'', e_type e),
      (''layers'', parts_text (map l_hash (e_layers e))),
      (''chunks'', parts_text (map ch_hash (e_chunks e)))]"

definition is_flat :: "tree \<Rightarrow> bool" where
  "is_flat t \<longleftrightarrow> \<not> (has_key t ''code'' \<or> has_key t ''artifacts'')"

fun materialize_artifacts ::
  "(string \<Rightarrow> hash) \<Rightarrow> net \<Rightarrow> (path \<Rightarrow> int) \<Rightarrow> (path \<times> artifact) list \<Rightarrow> index \<Rightarrow> worktree \<Rightarrow> objs
   \<Rightarrow> index attempt \<times> worktree \<times> objs" where
  "materialize_artifacts sha net stamp [] ix w os = (Done ix, w, os)"
| "materialize_artifacts sha net stamp ((p, a) # rest) ix w os =
     (let ix = add_entry ix p (ar_hash a) (ar_size a) 0 ''artifact'' (ar_pointer a) in
      if ar_pointer a = None then materialize_artifacts sha net stamp rest ix w os
      else (case dget os (ar_hash a) of
        Some b \<Rightarrow> materialize_artifacts sha net stamp rest ix (write_file stamp p b w) os
      | None \<Rightarrow>
          if nt_up net then
            (case download_object sha net (ar_hash a) of
               Raised e \<Rightarrow> (Raised e, w, os)
             | Done None \<Rightarrow> materialize_artifacts sha net stamp rest ix w os
             | Done (Some b) \<Rightarrow>
                 materialize_artifacts sha net stamp rest ix (write_file stamp p b w)
                   (dset os (ar_hash a) b))
          else materialize_artifacts sha net stamp rest ix w os))"

fun materialize_entries ::
  "(string \<Rightarrow> hash) \<Rightarrow> net \<Rightarrow> (path \<Rightarrow> int) \<Rightarrow> bool \<Rightarrow> tree \<Rightarrow> index \<Rightarrow> worktree \<Rightarrow> objs
   \<Rightarrow> index attempt \<times> worktree \<times> objs" where
  "materialize_entries sha net stamp verify [] ix w os = (Done ix, w, os)"
| "materialize_entries sha net stamp verify ((p, info) # rest) ix w os =
     (let ix = set_parts
            (add_entry ix p (e_hash info) (e_size info) 0 (e_type info)
               (if e_type info = ''artifact'' then Some (get_pointer_path p) else None))
            p (e_layers info) (e_chunks info) in
      (case materialize_file sha net stamp verify p (e_hash info) (e_layers info) (e_chunks info) w os of
         (Raised e, w', os') \<Rightarrow> (Raised e, w', os')
       | (Done _, w', os') \<Rightarrow> materialize_entries sha net stamp verify rest ix w' os'))"

text \<open>Old paths the new index lacks are removed, then every entry is re-read from the disk.\<close>

definition remove_old :: "index \<Rightarrow> index \<Rightarrow> worktree \<Rightarrow> worktree" where
  "remove_old old new w =
     fold (\<lambda>p w. remove_file_and_pointer w p)
       (filter (\<lambda>p. \<not> has_key (ix_entries new) p) (map fst (ix_entries old))) w"

definition restat :: "worktree \<Rightarrow> index \<Rightarrow> index" where
  "restat w ix =
     ix\<lparr>ix_entries := map (\<lambda>(p, e).
         (p, (case dget w p of
                None \<Rightarrow> e
              | Some f \<Rightarrow> e\<lparr>ie_size := int (length (wf_bytes f)), ie_mtime := wf_mtime f\<rparr>)
             \<lparr>ie_staged := False\<rparr>)) (ix_entries ix)\<rparr>"

definition settle_tree ::
  "index \<Rightarrow> index attempt \<times> worktree \<times> objs \<Rightarrow> index attempt \<times> worktree \<times> objs" where
  "settle_tree old r =
     (case r of
        (Raised e, w, os) \<Rightarrow> (Raised e, w, os)
      | (Done ix, w, os) \<Rightarrow>
          (let w' = remove_old old ix w in (Done (restat w' ix), w', os)))"

definition empty_index :: index where
  "empty_index = \<lparr>ix_entries = [], ix_removed = []\<rparr>"

definition materialize_legacy ::
  "(string \<Rightarrow> hash) \<Rightarrow> net \<Rightarrow> (path \<Rightarrow> int) \<Rightarrow> (path \<times> string) list \<Rightarrow> (path \<times> artifact) list
   \<Rightarrow> worktree \<Rightarrow> objs \<Rightarrow> index attempt \<times> worktree \<times> objs" where
  "materialize_legacy sha net stamp code artifacts w os =
     materialize_artifacts sha net stamp artifacts
       (fold (\<lambda>(p, h) ix. add_entry ix p h 0 0 ''code'' None) code empty_index) w os"

definition materialize_tree ::
  "(string \<Rightarrow> hash) \<Rightarrow> net \<Rightarrow> (path \<Rightarrow> int) \<Rightarrow> bool \<Rightarrow> ctree \<Rightarrow> index \<Rightarrow> worktree \<Rightarrow> objs
   \<Rightarrow> index attempt \<times> worktree \<times> objs" where
  "materialize_tree sha net stamp verify ct ix w os =
     (case ct of
        Legacy code artifacts \<Rightarrow>
          settle_tree ix (materialize_legacy sha net stamp code artifacts w os)
      | Flat t \<Rightarrow>
          if \<not> is_flat t then
            (if has_key t ''artifacts'' then (Raised ''TypeError'', w, os)
             else settle_tree ix
               (materialize_legacy sha net stamp (entry_fields (the (dget t ''code''))) [] w os))
          else if \<not> nt_up net \<and> tree_missing_objects sha verify os t \<noteq> [] then
            (Raised ''MissingObjectError'', w, os)
          else
            (case (if nt_up net then ensure_objects_local sha net t os else (Done 0, os)) of
               (Raised e, os') \<Rightarrow>
                 (Raised (if e = ''ValidationError'' then ''ClickException'' else e), w, os')
             | (Done _, os') \<Rightarrow>
                 settle_tree ix (materialize_entries sha net stamp verify t empty_index w os')))"

section \<open>What is restored\<close>

lemma dget_write_file:
  "dget (write_file stamp p b w) q =
     (if q = p then Some \<lparr>wf_bytes = b, wf_mtime = stamp p\<rparr> else dget w q)"
  by (simp add: write_file_def)

lemma materialize_file_done:
  assumes "materialize_file sha net stamp verify rel h layers chunks w os = (Done u, w', os')"
  obtains b where "w' = write_file stamp rel b w" "verify \<Longrightarrow> sha b = h"
  using assms unfolding materialize_file_def
  by (auto split: if_splits assembly.splits prod.splits option.splits attempt.splits
      simp: download_object_def split: answer.splits)

definition restored_entry :: "path \<Rightarrow> entry \<Rightarrow> ientry" where
  "restored_entry p info =
     \<lparr>ie_hash = e_hash info, ie_size = e_size info, ie_mtime = 0, ie_type = e_type info,
      ie_staged = True,
      ie_pointer = (if e_type info = ''artifact'' then Some (get_pointer_path p) else None),
      ie_layers = e_layers info, ie_chunks = e_chunks info\<rparr>"

lemma dget_restored:
  assumes "\<not> has_key (ix_entries ix) p"
  shows "dget (ix_entries (set_parts
            (add_entry ix p (e_hash info) (e_size info) 0 (e_type info)
               (if e_type info = ''artifact'' then Some (get_pointer_path p) else None))
            p (e_layers info) (e_chunks info))) q
         = (if q = p then Some (restored_entry p info) else dget (ix_entries ix) q)"
proof -
  have "dget (ix_entries ix) p = None"
    using assms by (simp add: map_of_eq_None_key)
  then show ?thesis
    by (simp add: dget_set_parts dget_add_entry restored_entry_def)
qed

lemma materialize_entries_done:
  assumes "materialize_entries sha net stamp verify t ix w os = (Done ix', w', os')"
    and "dict_wf t" "list_all (\<lambda>p. \<not> has_key (ix_entries ix) p) (map fst t)"
  shows "dget (ix_entries ix') p =
           (case dget t p of Some info \<Rightarrow> Some (restored_entry p info) | None \<Rightarrow> dget (ix_entries ix) p)
       \<and> (case dget t p of
            None \<Rightarrow> dget w' p = dget w p
          | Some info \<Rightarrow> \<exists>f. dget w' p = Some f \<and> (verify \<longrightarrow> sha (wf_bytes f) = e_hash info))"
  using assms
proof (induction t arbitrary: ix w os)
  case (Cons pi t)
  obtain q info where pi: "pi = (q, info)" by (cases pi)
  define ix1 where "ix1 = set_parts
            (add_entry ix q (e_hash info) (e_size info) 0 (e_type info)
               (if e_type info = ''artifact'' then Some (get_pointer_path q) else None))
            q (e_layers info) (e_chunks info)"
  have q: "\<not> has_key (ix_entries ix) q" "\<not> has_key t q" "dict_wf t"
    using Cons.prems(2,3) by (auto simp: pi dict_wf_def)
  have ix1: "dget (ix_entries ix1) r = (if r = q then Some (restored_entry q info) else dget (ix_entries ix) r)" for r
    unfolding ix1_def using dget_restored[OF q(1)] .
  have fresh: "list_all (\<lambda>p. \<not> has_key (ix_entries ix1) p) (map fst t)"
    unfolding list_all_iff
  proof
    fix p assume "p \<in> set (map fst t)"
    then have "p \<noteq> q" "\<not> has_key (ix_entries ix) p"
      using q(2) Cons.prems(3) by (auto simp: pi list_all_iff)
    then show "\<not> has_key (ix_entries ix1) p"
      by (simp only: has_key_dget ix1 if_False simp_thms)
  qed
  obtain u w1 os1 where m: "materialize_file sha net stamp verify q (e_hash info) (e_layers info) (e_chunks info) w os
        = (Done u, w1, os1)"
    and rest: "materialize_entries sha net stamp verify t ix1 w1 os1 = (Done ix', w', os')"
    using Cons.prems(1) unfolding pi ix1_def
    by (auto simp: Let_def split: attempt.splits prod.splits)
  obtain b where b: "w1 = write_file stamp q b w" "verify \<Longrightarrow> sha b = e_hash info"
    using materialize_file_done[OF m] by blast
  have tq: "dget t q = None" using q(2) by (simp add: map_of_eq_None_key)
  show ?case
    using Cons.IH[OF rest q(3) fresh] b ix1[of p] tq
    by (cases "p = q") (auto simp: pi dget_write_file split: option.splits)
qed simp

lemma dget_remove: "dget (remove_file_and_pointer w p) q =
    (if q = p \<or> q = get_pointer_path p then None else dget w q)"
  by (simp add: remove_file_and_pointer_def)

lemma dget_fold_remove:
  "dget (fold (\<lambda>p w. remove_file_and_pointer w p) ps w) q =
     (if \<exists>p \<in> set ps. q = p \<or> q = get_pointer_path p then None else dget w q)"
  by (induction ps arbitrary: w) (auto simp: dget_remove)

lemma dget_remove_old:
  "dget (remove_old old new w) q =
     (if \<exists>p. has_key (ix_entries old) p \<and> \<not> has_key (ix_entries new) p \<and> (q = p \<or> q = get_pointer_path p)
      then None else dget w q)"
  unfolding remove_old_def dget_fold_remove by (rule if_cong) auto

lemma dget_restat:
  "dget (ix_entries (restat w ix)) p =
     map_option (\<lambda>e. (case dget w p of
                None \<Rightarrow> e
              | Some f \<Rightarrow> e\<lparr>ie_size := int (length (wf_bytes f)), ie_mtime := wf_mtime f\<rparr>)
             \<lparr>ie_staged := False\<rparr>) (dget (ix_entries ix) p)"
  by (simp add: restat_def dget_map_snd)

lemma dict_wf_restat: "dict_wf (ix_entries (restat w ix)) = dict_wf (ix_entries ix)"
  by (simp add: restat_def)

lemma dict_wf_set_parts [simp]:
  "dict_wf (ix_entries (set_parts ix p ls cs)) = dict_wf (ix_entries ix)" if "dict_wf (ix_entries ix)"
  using that by (simp add: set_parts_def split: option.split)

lemma dict_wf_add_entry [simp]:
  "dict_wf (ix_entries ix) \<Longrightarrow> dict_wf (ix_entries (add_entry ix p h sz mt ty ptr))"
  by (simp add: add_entry_def Let_def)

lemma materialize_entries_wf:
  "materialize_entries sha net stamp verify t ix w os = (Done ix', w', os') \<Longrightarrow>
     dict_wf (ix_entries ix) \<Longrightarrow> dict_wf (ix_entries ix')"
proof (induction t arbitrary: ix w os)
  case (Cons pi t)
  then show ?case
    by (cases pi) (auto simp: Let_def split: attempt.splits prod.splits)
qed simp

definition same_content :: "entry \<Rightarrow> entry \<Rightarrow> bool" where
  "same_content a b \<longleftrightarrow> e_hash a = e_hash b \<and> e_type a = e_type b \<and> e_layers a = e_layers b
     \<and> e_chunks a = e_chunks b"

lemma materialize_flat_done:
  assumes m: "materialize_tree sha net stamp verify (Flat t) ix w os = (Done ix', w', os')"
    and t: "is_flat t" "dict_wf t" and names: "list_all (\<lambda>p. \<not> endswith p ''.av-pointer'') (map fst t)"
  obtains ix1 w1 where
    "ix' = restat w' ix1" "w' = remove_old ix ix1 w1" "dict_wf (ix_entries ix1)"
    "\<And>p. dget (ix_entries ix1) p = map_option (restored_entry p) (dget t p)"
    "\<And>p. dget t p = None \<Longrightarrow> dget w1 p = dget w p"
    "\<And>p info. dget t p = Some info \<Longrightarrow>
       \<exists>f. dget w' p = Some f \<and> (verify \<longrightarrow> sha (wf_bytes f) = e_hash info)"
proof -
  obtain ix1 w1 os0 os1 where
    e: "materialize_entries sha net stamp verify t empty_index w os0 = (Done ix1, w1, os1)"
    and s: "(Done ix', w', os') = settle_tree ix (Done ix1, w1, os1)"
    using m t(1) unfolding materialize_tree_def
    by (auto simp: settle_tree_def Let_def split: if_splits attempt.splits prod.splits)
  have fresh: "list_all (\<lambda>p. \<not> has_key (ix_entries empty_index) p) (map fst t)"
    by (simp add: empty_index_def list_all_iff)
  note D = materialize_entries_done[OF e t(2) fresh]
  have ix1: "dget (ix_entries ix1) p = map_option (restored_entry p) (dget t p)" for p
    using D[of p] by (auto simp: empty_index_def split: option.splits)
  have w': "w' = remove_old ix ix1 w1" "ix' = restat w' ix1"
    using s by (auto simp: settle_tree_def Let_def)
  have kept: "dget w' p = dget w1 p" if "dget t p = Some info" for p info
  proof -
    have "p \<in> fst ` set t" using that by (rule map_of_Some_key)
    then have "p \<noteq> get_pointer_path q" for q
      using names by (auto simp: list_all_iff get_pointer_path_def endswith_def)
    moreover have "has_key (ix_entries ix1) p"
      using that by (simp only: has_key_dget ix1) simp
    ultimately show ?thesis
      unfolding w'(1) dget_remove_old by metis
  qed
  have "dict_wf (ix_entries ix1)"
    using materialize_entries_wf[OF e] by (simp add: empty_index_def)
  moreover have "dget w1 p = dget w p" if "dget t p = None" for p
    using D[of p] that by simp
  moreover have "\<exists>f. dget w' p = Some f \<and> (verify \<longrightarrow> sha (wf_bytes f) = e_hash info)"
    if "dget t p = Some info" for p info
    using D[of p] that kept[OF that] by simp
  ultimately show ?thesis
    using that[of ix1 w1] w' ix1 by metis
qed

text \<open>
  C3. A checkout that succeeds is exact, provided the tree has no file named \<open>code\<close> or \<open>artifacts\<close>
  (\<open>is_flat\<close>; such a tree is read as one of the old format, see \<open>file_named_code_empties_the_tree\<close>), no
  path twice and no path that ends in \<open>.av-pointer\<close>: every path of the tree has a file whose bytes hash to the
  recorded hash, every other tracked path is gone, untracked files are untouched, the index holds the
  tree again, and the working tree reads as clean.
\<close>

theorem checkout_exact:
  assumes "materialize_tree sha net stamp True (Flat t) ix w os = (Done ix', w', os')"
    and "is_flat t" "dict_wf t" "list_all (\<lambda>p. \<not> endswith p ''.av-pointer'') (map fst t)"
  shows "(\<forall>p info. dget t p = Some info \<longrightarrow> (\<exists>f. dget w' p = Some f \<and> sha (wf_bytes f) = e_hash info))
    \<and> (\<forall>p. has_key (ix_entries ix) p \<and> \<not> has_key t p \<longrightarrow> dget w' p = None)
    \<and> (\<forall>p. \<not> has_key t p \<and> (\<forall>q. has_key (ix_entries ix) q \<longrightarrow> p \<noteq> q \<and> p \<noteq> get_pointer_path q)
         \<longrightarrow> dget w' p = dget w p)
    \<and> (\<forall>p. rel_option same_content (dget (commit_tree ix') p) (dget t p))
    \<and> collect_dirty_paths sha w' ix' [] = []"
proof -
  obtain ix1 w1 where
    ix': "ix' = restat w' ix1" and w': "w' = remove_old ix ix1 w1" and wf: "dict_wf (ix_entries ix1)"
    and ix1: "\<And>p. dget (ix_entries ix1) p = map_option (restored_entry p) (dget t p)"
    and other: "\<And>p. dget t p = None \<Longrightarrow> dget w1 p = dget w p"
    and files': "\<And>p info. dget t p = Some info \<Longrightarrow>
       \<exists>f. dget w' p = Some f \<and> (True \<longrightarrow> sha (wf_bytes f) = e_hash info)"
    by (rule materialize_flat_done[OF assms]) (rule that)
  have files: "\<exists>f. dget w' p = Some f \<and> sha (wf_bytes f) = e_hash info"
    if "dget t p = Some info" for p info
    using files'[OF that] by blast
  have keys: "has_key (ix_entries ix1) p = has_key t p" for p
    by (simp only: has_key_dget ix1) auto
  have none: "dget t p = None \<longleftrightarrow> \<not> has_key t p" for p
    by (simp add: map_of_eq_None_key)
  have gone: "dget w' p = None" if "has_key (ix_entries ix) p" "\<not> has_key t p" for p
    unfolding w' dget_remove_old using that keys by metis
  have untouched: "dget w' p = dget w p"
    if "\<not> has_key t p" "\<forall>q. has_key (ix_entries ix) q \<longrightarrow> p \<noteq> q \<and> p \<noteq> get_pointer_path q" for p
    unfolding w' dget_remove_old using that other none by metis
  have ents: "dget (ix_entries ix') p = map_option (\<lambda>info. (case dget w' p of
                None \<Rightarrow> restored_entry p info
              | Some f \<Rightarrow> (restored_entry p info)\<lparr>ie_size := int (length (wf_bytes f)), ie_mtime := wf_mtime f\<rparr>)
             \<lparr>ie_staged := False\<rparr>) (dget t p)" for p
    unfolding ix' dget_restat ix1 by (simp add: option.map_comp comp_def)
  have tree: "rel_option same_content (dget (commit_tree ix') p) (dget t p)" for p
    unfolding commit_tree_def dget_map_snd ents
    by (cases "dget t p"; cases "dget w' p")
       (auto simp: same_content_def commit_entry_def restored_entry_def)
  have "\<not> (\<not> has_key w' p \<or> ie_staged e \<or> \<not> compare_meta w' p (ie_size e) (ie_mtime e))"
    if "(p, e) \<in> set (ix_entries ix')" for p e
  proof -
    have "dget (ix_entries ix') p = Some e"
      using that wf by (simp add: ix' dict_wf_restat dict_wf_get flip: dict_wf_get)
    then obtain info where info: "dget t p = Some info"
      unfolding ents by auto
    then obtain f where f: "dget w' p = Some f" using files by blast
    then have "has_key w' p" by (simp add: map_of_Some_key)
    moreover have "\<not> ie_staged e" "compare_meta w' p (ie_size e) (ie_mtime e)"
      using \<open>dget (ix_entries ix') p = Some e\<close> f info unfolding ents
      by (auto simp: compare_meta_def get_file_meta_def)
    ultimately show ?thesis by simp
  qed
  then have "collect_dirty_paths sha w' ix' [] = []"
    by (auto simp: collect_dirty_paths_def filter_empty_conv)
  then show ?thesis
    using files gone untouched tree by blast
qed

text \<open>Another tracked file is replaced, an untracked one stays.\<close>

definition demo_switch :: "index attempt \<times> worktree \<times> objs" where
  "demo_switch = materialize_tree (\<lambda>b. b) \<lparr>nt_up = False, nt_object = \<lambda>_. NoAnswer, nt_batch = \<lambda>_. BatchFailed\<rparr> (\<lambda>_. 7) True
     (Flat [(''a'', \<lparr>e_hash = ''new'', e_size = 3, e_type = ''code'', e_layers = [], e_chunks = []\<rparr>)])
     (add_entry empty_index ''b'' ''old'' 3 4 ''code'' None)
     [(''b'', \<lparr>wf_bytes = ''old'', wf_mtime = 4\<rparr>), (''u'', \<lparr>wf_bytes = ''x'', wf_mtime = 1\<rparr>)] [(''new'', ''new'')]"

lemma checkout_exact_witness:
  "\<exists>ix' w' os'. demo_switch = (Done ix', w', os')
     \<and> (\<exists>f. dget w' ''a'' = Some f \<and> wf_bytes f = ''new'') \<and> dget w' ''b'' = None
     \<and> dget w' ''u'' = Some \<lparr>wf_bytes = ''x'', wf_mtime = 1\<rparr> \<and> collect_dirty_paths (\<lambda>b. b) w' ix' [] = []"
proof -
  let ?t = "[(''a'', \<lparr>e_hash = ''new'', e_size = 3, e_type = ''code'', e_layers = [], e_chunks = []\<rparr>)]"
  have "case fst demo_switch of Done _ \<Rightarrow> True | Raised _ \<Rightarrow> False" by code_simp
  then obtain ix' where "fst demo_switch = Done ix'" by (auto split: attempt.splits)
  then obtain w' os' where run: "demo_switch = (Done ix', w', os')" by (metis prod.collapse)
  have flat: "is_flat ?t" "dict_wf ?t" "list_all (\<lambda>p. \<not> endswith p ''.av-pointer'') (map fst ?t)"
    by (simp_all add: is_flat_def dict_wf_def endswith_def)
  note C = checkout_exact[OF run[unfolded demo_switch_def] flat]
  have tracked: "has_key (ix_entries (add_entry empty_index ''b'' ''old'' 3 4 ''code'' None)) q \<longleftrightarrow> q = ''b''" for q
    by (auto simp: add_entry_def empty_index_def Let_def)
  have "\<exists>f. dget w' ''a'' = Some f \<and> wf_bytes f = ''new''"
    using C[THEN conjunct1, rule_format, of "''a''"] by simp
  moreover have "dget w' ''b'' = None"
    by (rule C[THEN conjunct2, THEN conjunct1, rule_format]) (simp add: tracked)
  moreover have "dget w' ''u'' = Some \<lparr>wf_bytes = ''x'', wf_mtime = 1\<rparr>"
    by (subst C[THEN conjunct2, THEN conjunct2, THEN conjunct1, rule_format])
       (simp_all add: empty_index_def get_pointer_path_def)
  moreover have "collect_dirty_paths (\<lambda>b. b) w' ix' [] = []" using C by blast
  ultimately show ?thesis using run by blast
qed

text \<open>A tracked file named \<open>code\<close> makes a flat tree read as a legacy one: checking out the very tree of
  the index deletes the other tracked files.\<close>

lemma file_named_code_empties_the_tree:
  "let e = \<lparr>e_hash = ''h'', e_size = 1, e_type = ''artifact'', e_layers = [], e_chunks = []\<rparr>;
       ie = restored_entry ''x'' e; f = \<lparr>wf_bytes = ''h'', wf_mtime = 0\<rparr>;
       r = materialize_tree (\<lambda>b. b) \<lparr>nt_up = False, nt_object = \<lambda>_. NoAnswer, nt_batch = \<lambda>_. BatchFailed\<rparr>
             (\<lambda>_. 0) True (Flat [(''code'', e), (''model.bin'', e)])
             \<lparr>ix_entries = [(''code'', ie), (''model.bin'', ie)], ix_removed = []\<rparr>
             [(''code'', f), (''model.bin'', f)] [(''h'', ''h'')]
   in (case fst r of Done _ \<Rightarrow> True | Raised _ \<Rightarrow> False) \<and> fst (snd r) = []"
  by code_simp

section \<open>Staging and restoring\<close>

definition content_addressed :: "(string \<Rightarrow> hash) \<Rightarrow> objs \<Rightarrow> bool" where
  "content_addressed sha os \<longleftrightarrow> (\<forall>h b. dget os h = Some b \<longrightarrow> sha b = h)"

definition keeps :: "objs \<Rightarrow> objs \<Rightarrow> bool" where
  "keeps os os' \<longleftrightarrow> (\<forall>h b. dget os h = Some b \<longrightarrow> dget os' h = Some b)"

text \<open>The stored parts \<open>hs\<close>, one after the other, are \<open>b\<close>.\<close>

definition stored_as :: "objs \<Rightarrow> hash list \<Rightarrow> string \<Rightarrow> bool" where
  "stored_as os hs b \<longleftrightarrow>
     (\<exists>bs. list_all2 (\<lambda>h x. dget os h = Some x) hs bs \<and> concat bs = b)"

definition contents :: "objs \<Rightarrow> string set" where
  "contents os = {b. \<exists>h. dget os h = Some b}"

text \<open>No two of the stored objects and the pieces of the file \<open>b\<close> have the same hash.\<close>

definition no_clash :: "(string \<Rightarrow> hash) \<Rightarrow> string \<Rightarrow> objs \<Rightarrow> bool" where
  "no_clash sha b os \<longleftrightarrow> inj_on sha (contents os \<union> {x. sublist x b})"

definition good_store :: "(string \<Rightarrow> hash) \<Rightarrow> string \<Rightarrow> objs \<Rightarrow> bool" where
  "good_store sha b os \<longleftrightarrow> content_addressed sha os \<and> no_clash sha b os"

text \<open>
  What staging relies on in the C++ extension. A fused pass only adds objects, pieces of the file under
  their hashes, and its hash is that of the whole file. Chunks make up the file. The layers of a
  safetensors file are the header and the tensors it declares: hashed pieces of the file in the order of
  their offsets, apart from each other in the fused pass (it refuses a header whose tensors overlap),
  but nothing makes them cover the file.
\<close>

definition fused_ok_at ::
  "(string \<Rightarrow> hash) \<Rightarrow> ('p list \<Rightarrow> hash list) \<Rightarrow> (string \<Rightarrow> objs \<Rightarrow> (hash \<times> 'p list) option \<times> objs) \<Rightarrow> string \<Rightarrow> bool" where
  "fused_ok_at sha hashes f b \<longleftrightarrow>
     (\<forall>os. good_store sha b os \<longrightarrow>
        (case f b os of (res, os') \<Rightarrow>
           keeps os os' \<and> content_addressed sha os' \<and> contents os' \<subseteq> contents os \<union> {x. sublist x b}
           \<and> (case res of None \<Rightarrow> True
              | Some (wh, ps) \<Rightarrow> wh = sha b \<and> (ps \<noteq> [] \<longrightarrow> stored_as os' (hashes ps) b))))"

definition split_ok_at :: "(string \<Rightarrow> hash) \<Rightarrow> (string \<Rightarrow> span list option) \<Rightarrow> string \<Rightarrow> bool" where
  "split_ok_at sha g b \<longleftrightarrow>
     (case g b of None \<Rightarrow> True
        | Some ss \<Rightarrow> list_all (\<lambda>s. sp_hash s = sha (slice b s)) ss
            \<and> concat (map (slice b) ss) = b \<and> sorted (map sp_offset ss))"

definition hashed_in :: "(string \<Rightarrow> hash) \<Rightarrow> string \<Rightarrow> span list \<Rightarrow> bool" where
  "hashed_in sha b ss \<longleftrightarrow>
     list_all (\<lambda>s. 0 \<le> sp_size s \<and> sp_offset s + sp_size s \<le> int (length b) \<and> sp_hash s = sha (slice b s)) ss
     \<and> sorted (map sp_offset ss)"

fun spans_apart :: "int \<Rightarrow> span list \<Rightarrow> bool" where
  "spans_apart n [] = True"
| "spans_apart n (s # ss) = (n \<le> sp_offset s \<and> spans_apart (sp_offset s + sp_size s) ss)"

definition layers_ok ::
  "(string \<Rightarrow> hash) \<Rightarrow> (string \<Rightarrow> objs \<Rightarrow> (hash \<times> layer list) option \<times> objs) \<Rightarrow> bool" where
  "layers_ok sha f \<longleftrightarrow>
     (\<forall>b os. good_store sha b os \<longrightarrow>
        (case f b os of (res, os') \<Rightarrow>
           keeps os os' \<and> content_addressed sha os' \<and> contents os' \<subseteq> contents os \<union> {x. sublist x b}
           \<and> (case res of None \<Rightarrow> True
              | Some (wh, ls) \<Rightarrow> wh = sha b
                  \<and> (\<exists>ss. ls = map span_layer ss \<and> hashed_in sha b ss \<and> spans_apart 0 ss
                        \<and> list_all (\<lambda>s. dget os' (sp_hash s) = Some (slice b s)) ss))))"

definition core_ok :: "(string \<Rightarrow> hash) \<Rightarrow> core_fns \<Rightarrow> bool" where
  "core_ok sha core \<longleftrightarrow>
     pred_option (layers_ok sha) (cf_stage_safetensors core)
   \<and> pred_option (\<lambda>g. \<forall>b. pred_option (hashed_in sha b) (g b)) (cf_split_safetensors core)
   \<and> pred_option (\<lambda>f. \<forall>b. fused_ok_at sha (\<lambda>cs. map ch_hash (sort_key ch_offset cs)) f b) (cf_stage_cdc core)
   \<and> pred_option (\<lambda>g. \<forall>b. split_ok_at sha g b) (cf_chunk_file core)"

text \<open>The tensors declared by a safetensors file cover its data section without a gap or an overlap.\<close>

definition layers_tile :: "core_fns \<Rightarrow> string \<Rightarrow> bool" where
  "layers_tile core b \<longleftrightarrow>
     pred_option (\<lambda>f. \<forall>os. case f b os of
         (Some (_, ls), _) \<Rightarrow> ls \<noteq> [] \<longrightarrow> sum_list (map l_size ls) = int (length b)
       | (None, _) \<Rightarrow> True) (cf_stage_safetensors core)
   \<and> pred_option (\<lambda>g. pred_option (\<lambda>ss. spans_apart 0 ss \<and> sum_list (map sp_size ss) = int (length b)) (g b))
       (cf_split_safetensors core)"

text \<open>Pieces that lie apart fill no more than the file, and if they fill it they make it up.\<close>

lemma spans_tile:
  assumes "spans_apart n ss" "0 \<le> n" "n \<le> int (length b)" "hashed_in sha b ss"
  shows "sum_list (map sp_size ss) \<le> int (length b) - n
    \<and> (sum_list (map sp_size ss) = int (length b) - n \<longrightarrow> concat (map (slice b) ss) = drop (nat n) b)"
  using assms
proof (induction ss arbitrary: n)
  case (Cons s ss)
  let ?m = "sp_offset s + sp_size s"
  have s: "n \<le> sp_offset s" "0 \<le> sp_size s" "?m \<le> int (length b)" "spans_apart ?m ss" "hashed_in sha b ss"
    using Cons.prems by (simp_all add: hashed_in_def)
  have "0 \<le> ?m" using s Cons.prems(2) by simp
  note IH = Cons.IH[OF s(4) this s(3,5)]
  have "concat (map (slice b) (s # ss)) = drop (nat n) b"
    if full: "sum_list (map sp_size (s # ss)) = int (length b) - n"
  proof -
    have "sp_offset s = n" "sum_list (map sp_size ss) = int (length b) - ?m"
      using IH s full by simp_all
    moreover have "slice b s = take (nat (sp_size s)) (drop (nat n) b)"
      using \<open>sp_offset s = n\<close> by (simp add: slice_def)
    ultimately have "concat (map (slice b) (s # ss)) = take (nat (sp_size s)) (drop (nat n) b) @ drop (nat n + nat (sp_size s)) b"
      using IH s Cons.prems(2) by (simp add: nat_add_distrib)
    also have "\<dots> = drop (nat n) b" by (metis add.commute append_take_drop_id drop_drop)
    finally show ?thesis .
  qed
  then show ?case using IH s by simp
qed simp

lemma stored_slices:
  assumes "list_all (\<lambda>s. dget os (sp_hash s) = Some (slice b s)) ss" "concat (map (slice b) ss) = b"
  shows "stored_as os (map sp_hash ss) b"
proof -
  have "list_all2 (\<lambda>h x. dget os h = Some x) (map sp_hash ss) (map (slice b) ss)"
    using assms(1) by (induction ss) auto
  then show ?thesis using assms(2) unfolding stored_as_def by blast
qed

lemma layers_fused:
  assumes "layers_ok sha f"
    and tile: "\<And>os wh ls os'. f b os = (Some (wh, ls), os') \<Longrightarrow> ls \<noteq> [] \<Longrightarrow> sum_list (map l_size ls) = int (length b)"
  shows "fused_ok_at sha (map l_hash) f b"
  unfolding fused_ok_at_def
proof (intro allI impI)
  fix os assume good: "good_store sha b os"
  obtain res os' where f: "f b os = (res, os')" by fastforce
  have ok: "keeps os os' \<and> content_addressed sha os' \<and> contents os' \<subseteq> contents os \<union> {x. sublist x b}"
    and parts: "case res of None \<Rightarrow> True | Some (wh, ls) \<Rightarrow> wh = sha b
        \<and> (\<exists>ss. ls = map span_layer ss \<and> hashed_in sha b ss \<and> spans_apart 0 ss
              \<and> list_all (\<lambda>s. dget os' (sp_hash s) = Some (slice b s)) ss)"
    using assms(1)[unfolded layers_ok_def, rule_format, of b os] good f by simp_all
  have "wh = sha b \<and> (ls \<noteq> [] \<longrightarrow> stored_as os' (map l_hash ls) b)" if res: "res = Some (wh, ls)" for wh ls
  proof -
    obtain ss where ss: "wh = sha b" "ls = map span_layer ss" "hashed_in sha b ss" "spans_apart 0 ss"
        "list_all (\<lambda>s. dget os' (sp_hash s) = Some (slice b s)) ss"
      using parts res by auto
    have "stored_as os' (map l_hash ls) b" if "ls \<noteq> []"
    proof -
      have "sum_list (map sp_size ss) = int (length b)"
        using tile[of os wh ls os'] f res that by (simp add: ss(2) span_layer_def comp_def)
      then have "concat (map (slice b) ss) = b" using spans_tile[OF ss(4) _ _ ss(3)] by simp
      from stored_slices[OF ss(5) this] show ?thesis by (simp add: ss(2) span_layer_def comp_def)
    qed
    then show ?thesis using ss(1) by simp
  qed
  then show "case f b os of (res, os') \<Rightarrow>
           keeps os os' \<and> content_addressed sha os' \<and> contents os' \<subseteq> contents os \<union> {x. sublist x b}
           \<and> (case res of None \<Rightarrow> True
              | Some (wh, ps) \<Rightarrow> wh = sha b \<and> (ps \<noteq> [] \<longrightarrow> stored_as os' (map l_hash ps) b))"
    using ok f by (auto split: option.split)
qed

lemma layers_split:
  assumes "pred_option (hashed_in sha b) (g b)"
    and "pred_option (\<lambda>ss. spans_apart 0 ss \<and> sum_list (map sp_size ss) = int (length b)) (g b)"
  shows "split_ok_at sha g b"
proof (cases "g b")
  case (Some ss)
  then have "hashed_in sha b ss" "spans_apart 0 ss" "sum_list (map sp_size ss) = int (length b)"
    using assms by simp_all
  with spans_tile[of 0 ss b sha] show ?thesis
    by (simp add: split_ok_at_def Some hashed_in_def list_all_iff)
qed (simp add: split_ok_at_def)

lemma content_addressed_dset [simp]:
  "content_addressed sha os \<Longrightarrow> content_addressed sha (dset os (sha b) b)"
  by (simp add: content_addressed_def)

lemma objs_keep_refl [simp]: "keeps os os"
  by (simp add: keeps_def)

lemma objs_keep_trans: "keeps a b \<Longrightarrow> keeps b c \<Longrightarrow> keeps a c"
  by (simp add: keeps_def)

lemma stored_as_keeps: "stored_as os hs b \<Longrightarrow> keeps os os' \<Longrightarrow> stored_as os' hs b"
  unfolding stored_as_def keeps_def by (metis (mono_tags, lifting) list_all2_mono)

lemma good_store_mono:
  "good_store sha b os \<Longrightarrow> content_addressed sha os' \<Longrightarrow>
     contents os' \<subseteq> contents os \<union> {x. sublist x b} \<Longrightarrow> good_store sha b os'"
  unfolding good_store_def no_clash_def by (metis Un_least Un_upper2 inj_on_subset)

lemma assemble_stored:
  "list_all2 (\<lambda>h x. dget os h = Some x) hs bs \<Longrightarrow>
     assemble sha net hs acc os = (Assembled (acc @ concat bs), os)"
  by (induction hs bs arbitrary: acc rule: list_all2_induct) auto

lemma slice_sublist: "sublist (slice b s) b"
  unfolding slice_def by (meson sublist_drop sublist_order.order_trans sublist_take)

lemma publish_total: "\<exists>os'. publish (\<lambda>_. True) h b os = Some os'"
  by (simp add: publish_def)

text \<open>Publishing a piece of the file.\<close>

lemma publish_stored:
  assumes "good_store sha b os" "sublist x b"
  shows "\<exists>os'. publish (\<lambda>_. True) (sha x) x os = Some os' \<and> dget os' (sha x) = Some x
           \<and> good_store sha b os' \<and> keeps os os'"
proof (cases "has_key os (sha x)")
  case True
  then obtain y where y: "dget os (sha x) = Some y" unfolding has_key_dget ..
  then have "sha y = sha x" using assms(1) by (simp add: good_store_def content_addressed_def)
  moreover have "y \<in> contents os" using y by (auto simp: contents_def)
  ultimately have "y = x"
    using assms by (auto simp: good_store_def no_clash_def inj_on_def)
  then show ?thesis using True y assms(1) by (simp add: publish_def)
next
  case False
  let ?os' = "dset os (sha x) x"
  have "content_addressed sha ?os'" "contents ?os' \<subseteq> contents os \<union> {x. sublist x b}"
    using assms by (auto simp: good_store_def contents_def split: if_splits)
  then have "good_store sha b ?os'" using good_store_mono[OF assms(1)] by blast
  moreover have "keeps os ?os'"
    using False unfolding keeps_def has_key_dget by auto
  ultimately show ?thesis using False by (simp add: publish_def)
qed

lemma publish_spans_stored:
  assumes "good_store sha b os" "list_all (\<lambda>s. sp_hash s = sha (slice b s)) ss"
  shows "\<exists>os'. publish_spans (\<lambda>_. True) b ss os = (True, ss, os')
      \<and> good_store sha b os' \<and> keeps os os'
      \<and> list_all2 (\<lambda>h x. dget os' h = Some x) (map sp_hash ss) (map (slice b) ss)"
  using assms
proof (induction ss arbitrary: os)
  case (Cons s ss)
  obtain os1 where P: "publish (\<lambda>_. True) (sha (slice b s)) (slice b s) os = Some os1"
      "dget os1 (sha (slice b s)) = Some (slice b s)" "good_store sha b os1" "keeps os os1"
    using publish_stored[OF Cons.prems(1) slice_sublist] by blast
  have "list_all (\<lambda>s. sp_hash s = sha (slice b s)) ss" using Cons.prems by simp
  then obtain os2 where o2: "publish_spans (\<lambda>_. True) b ss os1 = (True, ss, os2)"
      "good_store sha b os2" "keeps os1 os2"
      "list_all2 (\<lambda>h x. dget os2 h = Some x) (map sp_hash ss) (map (slice b) ss)"
    using Cons.IH[OF P(3)] by blast
  have "sp_hash s = sha (slice b s)" using Cons.prems by simp
  moreover have "dget os2 (sha (slice b s)) = Some (slice b s)"
    using P(2) o2(3) by (simp add: keeps_def)
  ultimately show ?case
    using P(1) o2 objs_keep_trans[OF P(4) o2(3)] by simp
qed simp

text \<open>What both splitting steps establish, whatever the paths through them.\<close>

definition split_done :: "(string \<Rightarrow> hash) \<Rightarrow> string \<Rightarrow> objs \<Rightarrow> hash option \<Rightarrow> hash list \<Rightarrow> objs \<Rightarrow> bool" where
  "split_done sha b os fh hs os' \<longleftrightarrow>
     good_store sha b os' \<and> keeps os os' \<and> (fh = None \<or> fh = Some (sha b))
     \<and> (hs \<noteq> [] \<longrightarrow> stored_as os' hs b)"

lemma fused_pass_done:
  assumes "pred_option (\<lambda>f. fused_ok_at sha hashes f b) f" "good_store sha b os" "fh = None \<or> fh = Some (sha b)"
    and "fused_pass fused f fh b os = (fh', ps, os')" "hashes [] = []"
  shows "split_done sha b os fh' (hashes ps) os'"
proof (cases "fused \<and> f \<noteq> None")
  case True
  then obtain g where g: "f = Some g" by auto
  obtain res os2 where r: "g b os = (res, os2)" by (cases "g b os")
  have "case g b os of (res, os') \<Rightarrow>
           keeps os os' \<and> content_addressed sha os' \<and> contents os' \<subseteq> contents os \<union> {x. sublist x b}
           \<and> (case res of None \<Rightarrow> True
              | Some (wh, ps) \<Rightarrow> wh = sha b \<and> (ps \<noteq> [] \<longrightarrow> stored_as os' (hashes ps) b))"
    using assms(1,2) unfolding g fused_ok_at_def by simp
  then have *: "keeps os os2" "content_addressed sha os2" "contents os2 \<subseteq> contents os \<union> {x. sublist x b}"
      "case res of None \<Rightarrow> True
       | Some (wh, ps) \<Rightarrow> wh = sha b \<and> (ps \<noteq> [] \<longrightarrow> stored_as os2 (hashes ps) b)"
    unfolding r prod.case by blast+
  then have "good_store sha b os2" using good_store_mono[OF assms(2)] by blast
  then show ?thesis
    using * assms(4,5) True
    by (cases "ps = []") (auto simp: g r fused_pass_def split_done_def split: option.splits prod.splits)
next
  case False
  then have "(fh', ps, os') = (fh, [], os)"
    using assms(4) by (auto simp: fused_pass_def split: option.splits if_splits)
  then show ?thesis using assms(2,3,5) by (simp add: split_done_def)
qed

lemma legacy_done:
  assumes "split_ok_at sha g b" "good_store sha b os" "g b = Some ss"
  shows "\<exists>os'. publish_spans (\<lambda>_. True) b ss os = (True, ss, os')
           \<and> good_store sha b os' \<and> keeps os os' \<and> stored_as os' (map sp_hash ss) b
           \<and> sorted (map sp_offset ss)"
proof -
  have s: "list_all (\<lambda>s. sp_hash s = sha (slice b s)) ss" "concat (map (slice b) ss) = b"
      "sorted (map sp_offset ss)"
    using assms(1,3) unfolding split_ok_at_def by auto
  obtain os' where "publish_spans (\<lambda>_. True) b ss os = (True, ss, os')" "good_store sha b os'" "keeps os os'"
      "list_all2 (\<lambda>h x. dget os' h = Some x) (map sp_hash ss) (map (slice b) ss)"
    using publish_spans_stored[OF assms(2) s(1)] by blast
  then show ?thesis
    using s(2,3) unfolding stored_as_def by blast
qed

lemma split_done_trans:
  "split_done sha b os fh [] os1 \<Longrightarrow> good_store sha b os2 \<Longrightarrow> keeps os1 os2 \<Longrightarrow> stored_as os2 hs b \<Longrightarrow>
     split_done sha b os fh hs os2"
  by (auto simp: split_done_def intro: objs_keep_trans)

lemma layer_hashes [simp]: "map l_hash (map span_layer ss) = map sp_hash ss"
  by (simp add: span_layer_def comp_def)

lemma chunk_hashes_sorted:
  "sorted (map sp_offset ss) \<Longrightarrow>
     map ch_hash (sort_key ch_offset (map span_chunk ss)) = map sp_hash ss"
  by (simp add: sort_key_id_if_sorted span_chunk_def comp_def)

lemma stage_layers_done:
  assumes "pred_option (core_ok (se_sha env)) (se_core env)" "se_writable env = (\<lambda>_. True)"
    and "good_store (se_sha env) b os" "stage_layers env b rel flags os = (fh, layers, os')"
    and "endswith rel ''.safetensors'' \<Longrightarrow> pred_option (\<lambda>core. layers_tile core b) (se_core env)"
  shows "split_done (se_sha env) b os fh (map l_hash layers) os'"
proof (cases "se_core env")
  case None
  then show ?thesis using assms(3,4) by (auto simp: stage_layers_def split_done_def)
next
  case (Some core)
  then have ok: "core_ok (se_sha env) core" using assms(1) by simp
  show ?thesis
  proof (cases "endswith rel ''.safetensors'' \<and> \<not> List.member flags ''no-layer-split''")
    case False
    then show ?thesis
      using assms(3,4) Some by (auto simp: stage_layers_def split_done_def)
  next
    case True
    obtain fh1 ls1 os1 where
      r: "fused_pass (se_fused env) (cf_stage_safetensors core) None b os = (fh1, ls1, os1)"
      by (cases "fused_pass (se_fused env) (cf_stage_safetensors core) None b os")
    have tile: "layers_tile core b" using assms(5) True Some by simp
    have "pred_option (\<lambda>f. fused_ok_at (se_sha env) (map l_hash) f b) (cf_stage_safetensors core)"
    proof (cases "cf_stage_safetensors core")
      case (Some f)
      then have "layers_ok (se_sha env) f" using ok by (simp add: core_ok_def)
      moreover have "sum_list (map l_size ls) = int (length b)" if "f b os = (Some (wh, ls), os')" "ls \<noteq> []" for os wh ls os'
        using tile Some that by (auto simp: layers_tile_def dest: spec[of _ os])
      ultimately show ?thesis using layers_fused Some by simp
    qed simp
    from fused_pass_done[OF this assms(3) _ r]
    have r_done: "split_done (se_sha env) b os fh1 (map l_hash ls1) os1" by simp
    have e: "(fh, layers, os') = (if ls1 = [] then
               (case cf_split_safetensors core of
                  None \<Rightarrow> (fh1, [], os1)
                | Some g \<Rightarrow>
                    (case g b of
                       None \<Rightarrow> (fh1, [], os1)
                     | Some spans \<Rightarrow>
                         (case publish_spans (\<lambda>_. True) b spans os1 of
                            (_, done, os2) \<Rightarrow> (fh1, map span_layer done, os2))))
             else (fh1, ls1, os1))"
      using assms(4) unfolding stage_layers_def Some option.case if_P[OF True] r prod.case assms(2)
      by simp
    show ?thesis
    proof (cases "ls1 = [] \<and> (\<exists>g ss. cf_split_safetensors core = Some g \<and> g b = Some ss)")
      case True
      then obtain g ss where g: "cf_split_safetensors core = Some g" "g b = Some ss" by blast
      have "\<forall>b. pred_option (hashed_in (se_sha env) b) (g b)" using ok g(1) by (simp add: core_ok_def)
      then have "pred_option (hashed_in (se_sha env) b) (g b)" by (rule spec)
      then have "split_ok_at (se_sha env) g b"
        by (rule layers_split) (use tile g in \<open>simp add: layers_tile_def\<close>)
      moreover have "good_store (se_sha env) b os1" using r_done by (simp add: split_done_def)
      ultimately obtain os2 where o2: "publish_spans (\<lambda>_. True) b ss os1 = (True, ss, os2)"
          "good_store (se_sha env) b os2" "keeps os1 os2" "stored_as os2 (map sp_hash ss) b"
        using legacy_done g(2) by blast
      then have "fh = fh1" "layers = map span_layer ss" "os' = os2"
        using e True g by simp_all
      then show ?thesis
        using split_done_trans[of "se_sha env" b os fh1 os1 os2 "map sp_hash ss"] r_done o2 True
        by (simp del: map_map)
    next
      case False
      then have "(fh, layers, os') = (fh1, ls1, os1)"
        using e by (auto split: if_splits option.splits)
      then show ?thesis using r_done by simp
    qed
  qed
qed

lemma stage_chunks_done:
  assumes "pred_option (core_ok (se_sha env)) (se_core env)" "se_writable env = (\<lambda>_. True)"
    and "good_store (se_sha env) b os" "fh = None \<or> fh = Some (se_sha env b)"
    and "stage_chunks env b rel flags fh os = (fh', chunks, os')"
  shows "split_done (se_sha env) b os fh' (map ch_hash (sort_key ch_offset chunks)) os'"
proof (cases "se_core env")
  case None
  then show ?thesis using assms(3-5) by (auto simp: stage_chunks_def split_done_def)
next
  case (Some core)
  then have ok: "core_ok (se_sha env) core" using assms(1) by simp
  show ?thesis
  proof (cases "(List.member CHUNKABLE_EXTS (path_suffix rel) \<or> List.member flags ''chunk'')
             \<and> \<not> List.member flags ''no-chunk''")
    case False
    have "(fh', chunks, os') = (fh, [], os)"
      using assms(5) unfolding stage_chunks_def Some option.case if_not_P[OF False] by simp
    then show ?thesis using assms(3,4) by (simp add: split_done_def)
  next
    case True
    obtain fh1 cs1 os1 where
      r: "fused_pass (se_fused env) (cf_stage_cdc core) fh b os = (fh1, cs1, os1)"
      by (cases "fused_pass (se_fused env) (cf_stage_cdc core) fh b os")
    have "pred_option (\<lambda>f. fused_ok_at (se_sha env) (\<lambda>cs. map ch_hash (sort_key ch_offset cs)) f b) (cf_stage_cdc core)"
      using ok by (cases "cf_stage_cdc core") (simp_all add: core_ok_def)
    from fused_pass_done[OF this assms(3,4) r]
    have r_done: "split_done (se_sha env) b os fh1 (map ch_hash (sort_key ch_offset cs1)) os1" by simp
    have e: "(fh', chunks, os') = (if cs1 = [] then
               (case cf_chunk_file core of
                  None \<Rightarrow> (fh1, [], os1)
                | Some g \<Rightarrow>
                    (case g b of
                       None \<Rightarrow> (fh1, [], os1)
                     | Some spans \<Rightarrow>
                         (case publish_spans (\<lambda>_. True) b spans os1 of
                            (ok, done, os2) \<Rightarrow> (fh1, if ok then map span_chunk done else [], os2))))
             else (fh1, cs1, os1))"
      using assms(5) unfolding stage_chunks_def Some option.case if_P[OF True] r prod.case assms(2)
      by simp
    show ?thesis
    proof (cases "cs1 = [] \<and> (\<exists>g ss. cf_chunk_file core = Some g \<and> g b = Some ss)")
      case True
      then obtain g ss where g: "cf_chunk_file core = Some g" "g b = Some ss" by blast
      then have "split_ok_at (se_sha env) g b" using ok by (simp add: core_ok_def)
      moreover have "good_store (se_sha env) b os1" using r_done by (simp add: split_done_def)
      ultimately obtain os2 where o2: "publish_spans (\<lambda>_. True) b ss os1 = (True, ss, os2)"
          "good_store (se_sha env) b os2" "keeps os1 os2" "stored_as os2 (map sp_hash ss) b"
          "sorted (map sp_offset ss)"
        using legacy_done g(2) by blast
      then have "fh' = fh1" "chunks = map span_chunk ss" "os' = os2"
        using e True g by simp_all
      then show ?thesis
        using split_done_trans[of "se_sha env" b os fh1 os1 os2 "map sp_hash ss"] r_done o2 True
        by (simp del: map_map add: chunk_hashes_sorted)
    next
      case False
      then have "(fh', chunks, os') = (fh1, cs1, os1)"
        using e by (auto split: if_splits option.splits)
      then show ?thesis using r_done by simp
    qed
  qed
qed

lemma materialize_parts:
  assumes "stored_as os (part_hashes layers chunks) b" "layers \<noteq> [] \<or> chunks \<noteq> []" "h = sha b"
  shows "materialize_file sha net stamp verify rel h layers chunks w os
           = (Done (), write_file stamp rel b w, os)"
proof -
  obtain bs where "list_all2 (\<lambda>h x. dget os h = Some x) (part_hashes layers chunks) bs" "concat bs = b"
    using assms(1) unfolding stored_as_def by blast
  then have "assemble sha net (part_hashes layers chunks) [] os = (Assembled b, os)"
    using assemble_stored[of os "part_hashes layers chunks" bs sha net "[]"] by simp
  then show ?thesis
    unfolding materialize_file_def using assms(2,3) by simp
qed

lemma materialize_whole:
  "dget os (sha b) = Some b \<Longrightarrow>
     materialize_file sha net stamp verify rel (sha b) [] [] w os = (Done (), write_file stamp rel b w, os)"
  by (simp add: materialize_file_def)

text \<open>An entry's parts in the store make up these bytes.\<close>

definition restores_to :: "objs \<Rightarrow> hash \<Rightarrow> layer list \<Rightarrow> chunk list \<Rightarrow> string \<Rightarrow> bool" where
  "restores_to os h layers chunks b \<longleftrightarrow>
     (if layers \<noteq> [] \<or> chunks \<noteq> [] then stored_as os (part_hashes layers chunks) b else dget os h = Some b)"

lemma restores_to_keeps: "restores_to os h ls cs b \<Longrightarrow> keeps os os' \<Longrightarrow> restores_to os' h ls cs b"
  using stored_as_keeps[of os "part_hashes ls cs" b os'] by (simp add: restores_to_def keeps_def split: if_splits)

lemma materialize_restores:
  "restores_to os (sha b) ls cs b \<Longrightarrow>
     materialize_file sha net stamp verify rel (sha b) ls cs w os = (Done (), write_file stamp rel b w, os)"
  using materialize_parts[of os ls cs b "sha b" sha] materialize_whole[of os sha b]
  by (auto simp: restores_to_def split: if_splits)

lemma stage_result_stored:
  assumes "pred_option (core_ok (se_sha env)) (se_core env)" "se_writable env = (\<lambda>_. True)"
    and tile: "endswith rel ''.safetensors'' \<Longrightarrow> pred_option (\<lambda>core. layers_tile core (wf_bytes f)) (se_core env)"
    and "dget w rel = Some f" "good_store (se_sha env) (wf_bytes f) os"
    and "compute_stage_result env w os rel ftype existing flags = (Done (Some r), w', os')"
  shows "restores_to os' (sr_hash r) (sr_layers r) (sr_chunks r) (wf_bytes f)
       \<and> sr_hash r = se_sha env (wf_bytes f) \<and> keeps os os' \<and> good_store (se_sha env) (wf_bytes f) os'"
proof (cases "ftype = ''artifact'' \<and> se_threshold env < fm_size (get_file_meta w rel)")
  case small: False
  obtain os1 where p: "publish (\<lambda>_. True) (se_sha env (wf_bytes f)) (wf_bytes f) os = Some os1"
      "dget os1 (se_sha env (wf_bytes f)) = Some (wf_bytes f)" "keeps os os1" "good_store (se_sha env) (wf_bytes f) os1"
    using publish_stored[OF assms(5), of "wf_bytes f"] by auto
  have "sr_hash r = se_sha env (wf_bytes f) \<and> sr_layers r = [] \<and> sr_chunks r = [] \<and> os' = os1"
    using assms(6) small unfolding compute_stage_result_def
    by (auto simp: Let_def assms(2,4) hash_and_publish_whole_file_def p(1) split: if_splits)
  then show ?thesis using p by (simp add: restores_to_def)
next
  case large: True
  let ?sha = "se_sha env" and ?b = "wf_bytes f"
  obtain fh1 layers os1 where l: "stage_layers env ?b rel flags os = (fh1, layers, os1)"
    by (cases "stage_layers env ?b rel flags os")
  note L = stage_layers_done[OF assms(1,2) assms(5) l tile]
  obtain fh2 chunks os2 where
    c: "(if layers = [] then stage_chunks env ?b rel flags fh1 os1 else (fh1, [], os1)) = (fh2, chunks, os2)"
    by (cases "if layers = [] then stage_chunks env ?b rel flags fh1 os1 else (fh1, [], os1)")
  have C: "split_done ?sha ?b os fh2 (part_hashes layers chunks) os2"
  proof (cases "layers = []")
    case True
    have "split_done ?sha ?b os1 fh2 (map ch_hash (sort_key ch_offset chunks)) os2"
      by (rule stage_chunks_done[OF assms(1,2), where fh = fh1])
         (use L c True in \<open>auto simp: split_done_def\<close>)
    then show ?thesis
      using L True by (auto simp: split_done_def part_hashes_def intro: objs_keep_trans)
  next
    case False
    then show ?thesis using L c by (auto simp: part_hashes_def)
  qed
  have h: "(case fh2 of None \<Rightarrow> ?sha ?b | Some x \<Rightarrow> x) = ?sha ?b"
    using C by (auto simp: split_done_def)
  obtain os3 where o3: "(if layers = [] \<and> chunks = [] then publish (se_writable env) (?sha ?b) ?b os2
                         else Some os2) = Some os3"
    using publish_total[of "?sha ?b" ?b os2] assms(2) by (cases "layers = [] \<and> chunks = []") auto
  have "sr_hash r = ?sha ?b \<and> sr_layers r = layers \<and> sr_chunks r = chunks \<and> os' = os3"
    using assms(6) large o3 unfolding compute_stage_result_def
    by (auto simp: Let_def assms(4) l c h split: if_splits option.splits)
  moreover have "?thesis" if "layers = [] \<and> chunks = []" "sr_hash r = ?sha ?b" "sr_layers r = layers"
      "sr_chunks r = chunks" "os' = os3"
  proof -
    obtain os4 where "publish (\<lambda>_. True) (?sha ?b) ?b os2 = Some os4" "dget os4 (?sha ?b) = Some ?b" "keeps os2 os4"
        "good_store ?sha ?b os4"
      using publish_stored[of ?sha ?b os2 ?b] C by (auto simp: split_done_def)
    then show ?thesis
      using that o3 assms(2) C objs_keep_trans[of os os2 os4] by (simp add: restores_to_def split_done_def)
  qed
  moreover have "?thesis" if "\<not> (layers = [] \<and> chunks = [])" "sr_hash r = ?sha ?b" "sr_layers r = layers"
      "sr_chunks r = chunks" "os' = os3"
  proof -
    have "os3 = os2" using o3 that(1) by auto
    moreover have "part_hashes layers chunks \<noteq> []"
      using that(1) by (auto simp: part_hashes_def simp flip: set_empty)
    ultimately show ?thesis
      using that C by (simp add: split_done_def restores_to_def)
  qed
  ultimately show ?thesis by blast
qed

text \<open>
  C36. What \<open>av add\<close> stores of a file gives the file back: whether it is stored whole, as layers or as
  chunks, by the fused or the legacy passes of the extension, restoring the staged entry writes exactly
  the bytes that were staged, with no need of the registry, and the entry's hash is that of the bytes.
  For a safetensors file this needs that the tensors its header declares cover the data section without
  a gap or an overlap, which the extension does not ensure (\<open>gap_file_not_restored\<close>). Every object
  file can be written (\<open>failed_split_truncates\<close> is what happens otherwise), and no two pieces of stored
  or staged data have the same hash.
\<close>

theorem staged_file_restores:
  assumes "pred_option (core_ok (se_sha env)) (se_core env)" "se_writable env = (\<lambda>_. True)"
    and "endswith rel ''.safetensors'' \<Longrightarrow> pred_option (\<lambda>core. layers_tile core (wf_bytes f)) (se_core env)"
    and "dget w rel = Some f" "good_store (se_sha env) (wf_bytes f) os"
    and "compute_stage_result env w os rel ftype existing flags = (Done (Some r), w', os')"
  shows "materialize_file (se_sha env) net stamp verify rel (sr_hash r) (sr_layers r) (sr_chunks r) w0 os'
           = (Done (), write_file stamp rel (wf_bytes f) w0, os')
       \<and> sr_hash r = se_sha env (wf_bytes f) \<and> keeps os os'"
  using stage_result_stored[OF assms] materialize_restores[of os' "se_sha env" "wf_bytes f" "sr_layers r" "sr_chunks r"]
  by metis

definition toy_hash :: "string \<Rightarrow> hash" where
  "toy_hash b = take 64 (b @ replicate 64 CHR ''0'')"

definition toy_halves :: "string \<Rightarrow> span list option" where
  "toy_halves b =
     (if b = ''abcd''
      then Some [\<lparr>sp_name = [], sp_hash = toy_hash ''ab'', sp_size = 2, sp_offset = 0\<rparr>,
                 \<lparr>sp_name = [], sp_hash = toy_hash ''cd'', sp_size = 2, sp_offset = 2\<rparr>]
      else None)"

definition toy_core :: core_fns where
  "toy_core = \<lparr>cf_stage_safetensors = None, cf_split_safetensors = Some toy_halves,
               cf_stage_cdc = None, cf_chunk_file = Some toy_halves\<rparr>"

definition toy_env :: "(hash \<Rightarrow> bool) \<Rightarrow> stage_env" where
  "toy_env writable = \<lparr>se_sha = toy_hash, se_core = Some toy_core, se_fused = True, se_threshold = 2,
                       se_writable = writable, se_stamp = (\<lambda>_. 0)\<rparr>"

lemma toy_core_ok: "core_ok toy_hash toy_core"
proof -
  have "split_ok_at toy_hash toy_halves b \<and> pred_option (hashed_in toy_hash b) (toy_halves b)" for b
  proof (cases "b = ''abcd''")
    case True
    have "split_ok_at toy_hash toy_halves ''abcd''" "hashed_in toy_hash ''abcd'' (the (toy_halves ''abcd''))"
      by code_simp+
    then show ?thesis unfolding True by (simp add: toy_halves_def)
  qed (simp add: toy_halves_def split_ok_at_def)
  then show ?thesis by (auto simp: core_ok_def toy_core_def)
qed

lemma toy_store_good: "good_store toy_hash ''abcd'' []"
proof -
  have "distinct (map toy_hash (sublists ''abcd''))" by code_simp
  then have "inj_on toy_hash (set (sublists ''abcd''))"
    by (simp add: distinct_map)
  moreover have "{x. sublist x ''abcd''} = set (sublists ''abcd'')"
    by (metis set_sublists_eq)
  ultimately show ?thesis
    by (simp add: good_store_def content_addressed_def no_clash_def contents_def)
qed

theorem staged_file_restores_witness:
  "\<exists>r w' os'. compute_stage_result (toy_env (\<lambda>_. True)) [(''m.safetensors'', \<lparr>wf_bytes = ''abcd'', wf_mtime = 5\<rparr>)]
       [] ''m.safetensors'' ''artifact'' None [] = (Done (Some r), w', os')
     \<and> length (sr_layers r) = 2
     \<and> materialize_file toy_hash \<lparr>nt_up = False, nt_object = \<lambda>_. NoAnswer, nt_batch = \<lambda>_. BatchFailed\<rparr>
         (\<lambda>_. 9) True ''m.safetensors'' (sr_hash r) (sr_layers r) (sr_chunks r) [] os'
       = (Done (), write_file (\<lambda>_. 9) ''m.safetensors'' ''abcd'' [], os')"
proof -
  let ?w = "[(''m.safetensors'', \<lparr>wf_bytes = ''abcd'', wf_mtime = 5\<rparr>)]"
  let ?c = "compute_stage_result (toy_env (\<lambda>_. True)) ?w [] ''m.safetensors'' ''artifact'' None []"
  have "case fst ?c of Done (Some r) \<Rightarrow> length (sr_layers r) = 2 | _ \<Rightarrow> False"
    by code_simp
  then obtain r w' os' where c: "?c = (Done (Some r), w', os')" "length (sr_layers r) = 2"
    by (cases ?c) (auto split: attempt.splits option.splits)
  have sha: "se_sha (toy_env (\<lambda>_. True)) = toy_hash"
    by (simp add: toy_env_def)
  have A: "pred_option (core_ok (se_sha (toy_env (\<lambda>_. True)))) (se_core (toy_env (\<lambda>_. True)))"
    by (simp add: toy_env_def toy_core_ok)
  have B: "se_writable (toy_env (\<lambda>_. True)) = (\<lambda>_. True)"
    by (simp add: toy_env_def)
  have T: "endswith ''m.safetensors'' ''.safetensors'' \<Longrightarrow>
      pred_option (\<lambda>core. layers_tile core (wf_bytes \<lparr>wf_bytes = ''abcd'', wf_mtime = 5\<rparr>)) (se_core (toy_env (\<lambda>_. True)))"
    by (simp add: toy_env_def toy_core_def layers_tile_def toy_halves_def)
  have C: "dget ?w ''m.safetensors'' = Some \<lparr>wf_bytes = ''abcd'', wf_mtime = 5\<rparr>"
    by simp
  have D: "good_store (se_sha (toy_env (\<lambda>_. True))) (wf_bytes \<lparr>wf_bytes = ''abcd'', wf_mtime = 5\<rparr>) []"
    by (simp add: sha toy_store_good)
  note conjunct1[OF staged_file_restores[OF A B T C D c(1)], unfolded sha wfile.simps]
  then show ?thesis using c by blast
qed

text \<open>
  A header whose tensors leave a gap, as the extension's own tests have it: the layers \<open>a\<close> and \<open>cd\<close> of
  \<open>abcd\<close>. The extension does all it promises, the file is staged, and no checkout can restore it: the
  layers do not hash to the file and the half-written file is removed.
\<close>

definition gap_spans :: "string \<Rightarrow> span list" where
  "gap_spans b = [\<lparr>sp_name = ''__header__'', sp_hash = toy_hash (take 1 b), sp_size = 1, sp_offset = 0\<rparr>,
                  \<lparr>sp_name = ''w'', sp_hash = toy_hash (take 2 (drop 2 b)), sp_size = 2, sp_offset = 2\<rparr>]"

definition gap_stage :: "string \<Rightarrow> objs \<Rightarrow> (hash \<times> layer list) option \<times> objs" where
  "gap_stage b os =
     (if length b < 4 then (None, os)
      else (Some (toy_hash b, map span_layer (gap_spans b)), snd (snd (publish_spans (\<lambda>_. True) b (gap_spans b) os))))"

definition gap_env :: stage_env where
  "gap_env = (toy_env (\<lambda>_. True))\<lparr>se_core := Some \<lparr>cf_stage_safetensors = Some gap_stage, cf_split_safetensors = None,
     cf_stage_cdc = None, cf_chunk_file = None\<rparr>\<rparr>"

lemma publish_spans_contents:
  "publish_spans (\<lambda>_. True) b ss os = (ok, done, os') \<Longrightarrow> contents os' \<subseteq> contents os \<union> {x. sublist x b}"
proof (induction ss arbitrary: os ok "done" os')
  case (Cons s ss)
  obtain os1 where p: "publish (\<lambda>_. True) (sp_hash s) (slice b s) os = Some os1" using publish_total by blast
  obtain r where r: "publish_spans (\<lambda>_. True) b ss os1 = r" by blast
  have "contents os1 \<subseteq> contents os \<union> {x. sublist x b}"
    using p slice_sublist by (auto simp: publish_def contents_def split: if_splits)
  moreover have "contents os' \<subseteq> contents os1 \<union> {x. sublist x b}"
    using Cons.prems p r by (cases r) (auto dest: Cons.IH)
  ultimately show ?case by blast
qed simp

lemma gap_layers_ok: "layers_ok toy_hash gap_stage"
  unfolding layers_ok_def
proof (intro allI impI)
  fix b os assume good: "good_store toy_hash b os"
  show "case gap_stage b os of (res, os') \<Rightarrow>
      keeps os os' \<and> content_addressed toy_hash os' \<and> contents os' \<subseteq> contents os \<union> {x. sublist x b}
      \<and> (case res of None \<Rightarrow> True
         | Some (wh, ls) \<Rightarrow> wh = toy_hash b
             \<and> (\<exists>ss. ls = map span_layer ss \<and> hashed_in toy_hash b ss \<and> spans_apart 0 ss
                   \<and> list_all (\<lambda>s. dget os' (sp_hash s) = Some (slice b s)) ss))"
  proof (cases "length b < 4")
    case True
    then show ?thesis using good by (auto simp: gap_stage_def good_store_def)
  next
    case False
    have hashed: "list_all (\<lambda>s. sp_hash s = toy_hash (slice b s)) (gap_spans b)"
      by (simp add: gap_spans_def slice_def)
    obtain os' where o: "publish_spans (\<lambda>_. True) b (gap_spans b) os = (True, gap_spans b, os')"
        "good_store toy_hash b os'" "keeps os os'"
        "list_all2 (\<lambda>h x. dget os' h = Some x) (map sp_hash (gap_spans b)) (map (slice b) (gap_spans b))"
      using publish_spans_stored[OF good hashed] by blast
    have "hashed_in toy_hash b (gap_spans b)" "spans_apart 0 (gap_spans b)"
      using False by (simp_all add: hashed_in_def gap_spans_def slice_def)
    moreover have "list_all (\<lambda>s. dget os' (sp_hash s) = Some (slice b s)) (gap_spans b)"
      using o(4) by (simp add: gap_spans_def)
    ultimately show ?thesis
      using o publish_spans_contents[OF o(1)] False by (auto simp: gap_stage_def good_store_def)
  qed
qed

lemma gap_file_not_restored:
  "let r = compute_stage_result gap_env [(''m.safetensors'', \<lparr>wf_bytes = ''abcd'', wf_mtime = 5\<rparr>)] []
             ''m.safetensors'' ''artifact'' None []
   in (case r of
         (Done (Some s), _, os) \<Rightarrow>
           sr_hash s = toy_hash ''abcd'' \<and> length (sr_layers s) = 2
           \<and> (case materialize_file toy_hash
                 \<lparr>nt_up = False, nt_object = \<lambda>_. NoAnswer, nt_batch = \<lambda>_. BatchFailed\<rparr> (\<lambda>_. 9) True
                 ''m.safetensors'' (sr_hash s) (sr_layers s) (sr_chunks s) [] os of
                (Raised e, w, _) \<Rightarrow> e = ''MissingObjectError'' \<and> w = []
              | _ \<Rightarrow> False)
       | _ \<Rightarrow> False)"
  by code_simp

text \<open>A legacy layer pass that fails half-way keeps the layers it has written: the file is staged with
  its second half missing.\<close>

lemma failed_split_truncates:
  "let r = compute_stage_result (toy_env (\<lambda>h. h \<noteq> toy_hash ''cd''))
             [(''m.safetensors'', \<lparr>wf_bytes = ''abcd'', wf_mtime = 5\<rparr>)] [] ''m.safetensors'' ''artifact'' None []
   in (case r of
         (Done (Some s), _, os) \<Rightarrow>
           sr_hash s = toy_hash ''abcd''
           \<and> dget (fst (snd (materialize_file toy_hash
                 \<lparr>nt_up = False, nt_object = \<lambda>_. NoAnswer, nt_batch = \<lambda>_. BatchFailed\<rparr> (\<lambda>_. 9) False
                 ''m.safetensors'' (sr_hash s) (sr_layers s) (sr_chunks s) [] os))) ''m.safetensors''
             = Some \<lparr>wf_bytes = ''ab'', wf_mtime = 9\<rparr>
       | _ \<Rightarrow> False)"
  by code_simp

text \<open>Unstaging a changed file that HEAD holds as chunks writes an index entry without them; the next
  commit records a whole-file object that was never stored.\<close>

lemma unstaged_chunks_lost:
  assumes "dget head_tree rel = Some d" "e_chunks d \<noteq> []" "e_layers d = []"
    and "dget os (e_hash d) = None" "dget (ix_entries ix) rel = Some e" "\<not> nt_up net"
  shows "case unstage_loop head_tree [rel] w ix of
       (Done ix', w') \<Rightarrow>
         (case dget (commit_tree ix') rel of
            Some d' \<Rightarrow> e_hash d' = e_hash d \<and> e_chunks d' = []
              \<and> fst (materialize_file sha net stamp verify rel (e_hash d') (e_layers d') (e_chunks d') w os)
                = Raised ''MissingObjectError''
          | None \<Rightarrow> False)
     | _ \<Rightarrow> False"
  using assms
  by (simp add: commit_tree_def dget_map_snd commit_entry_def head_entry_def materialize_file_def)

end
