(* ===== verification/Delivery.thy ===== *)
theory Delivery
  imports Restore MergeBase
begin

text \<open>
  Committing and delivering: \<open>core.py::commit_staged\<close>, \<open>_finalize_commit\<close>, the queue of commits that
  still have to reach the registry (\<open>.av/pending_push\<close>), \<open>upload_commit_objects\<close>,
  \<open>flush_pending_push\<close> and \<open>commit_scoped_paths\<close>.

  The registry is a client over a state of its own: each call returns its answer and the next state of
  the registry, so that anything may happen there between two calls. An \<open>AuthenticationError\<close> is the
  only exception of a call, a failed request is \<open>False\<close>.
\<close>

section \<open>Commits\<close>

record commit_data =
  cd_parents :: "hash list"
  cd_author :: string
  cd_timestamp :: string
  cd_message :: string
  cd_tree :: tree
  cd_tags :: "string list"
  cd_metrics :: "(string \<times> json) list"
  cd_project_id :: string
  cd_project_name :: string
  cd_run_id :: "string option"
  cd_env :: "hash option"

definition layer_json :: "layer \<Rightarrow> json" where
  "layer_json l = JObj [(''name'', JStr (l_name l)), (''hash'', JStr (l_hash l)), (''size'', JInt (l_size l))]"

definition chunk_json :: "chunk \<Rightarrow> json" where
  "chunk_json c = JObj [(''hash'', JStr (ch_hash c)), (''size'', JInt (ch_size c)), (''offset'', JInt (ch_offset c))]"

definition tree_entry_json :: "entry \<Rightarrow> json" where
  "tree_entry_json e =
     JObj [(''hash'', JStr (e_hash e)), (''size'', JInt (e_size e)), (''type'', JStr (e_type e)),
           (''layers'', JList (map layer_json (e_layers e))),
           (''chunks'', JList (map chunk_json (e_chunks e)))]"

definition tree_json :: "tree \<Rightarrow> json" where
  "tree_json t = JObj (map (\<lambda>(p, e). (p, tree_entry_json e)) t)"

definition opt_field :: "string \<Rightarrow> json option \<Rightarrow> (string \<times> json) list" where
  "opt_field k v = (case v of None \<Rightarrow> [] | Some j \<Rightarrow> [(k, j)])"

text \<open>The payload in the order of the code; the hash and the signature come last.\<close>

definition payload :: "commit_data \<Rightarrow> (string \<times> json) list" where
  "payload cd =
     [(''parents'', JList (map JStr (cd_parents cd))), (''author'', JStr (cd_author cd)),
      (''timestamp'', JStr (cd_timestamp cd)), (''message'', JStr (cd_message cd)),
      (''tree'', tree_json (cd_tree cd)), (''tags'', JList (map JStr (cd_tags cd))),
      (''metrics'', JObj (cd_metrics cd)), (''project_id'', JStr (cd_project_id cd)),
      (''project_name'', JStr (cd_project_name cd))]
     @ opt_field ''run_id'' (map_option JStr (cd_run_id cd))
     @ opt_field ''env_snapshot_id'' (map_option JStr (cd_env cd))"

text \<open>\<open>canonical_commit_bytes\<close>: sorted keys, without the signature, with the time stamp in its canonical
  spelling (the parser of the standard library is an argument; \<open>None\<close>: not a text or empty).\<close>

definition canonical_commit_bytes ::
  "(json \<Rightarrow> string option) \<Rightarrow> (string \<times> json) list \<Rightarrow> string" where
  "canonical_commit_bytes canon_ts fs =
     (let fs1 = (case canon_ts (field fs ''timestamp'' JNull) of
                   None \<Rightarrow> fs | Some t \<Rightarrow> dset fs ''timestamp'' (JStr t)) in
      dumps_sorted (JObj (ddel fs1 ''signature'')))"

definition commit_hash ::
  "(string \<Rightarrow> hash) \<Rightarrow> (json \<Rightarrow> string option) \<Rightarrow> commit_data \<Rightarrow> hash" where
  "commit_hash sha canon_ts cd = sha (canonical_commit_bytes canon_ts (payload cd))"

section \<open>The local repository\<close>

record q_entry =
  qe_hash :: hash
  qe_ref :: "string option"

datatype head = Attached string | Detached hash

text \<open>
  A commit file holds the payload with the hash and perhaps a signature. A queue that cannot be read is
  \<open>None\<close>. A branch file may be empty.
\<close>

record stored_commit =
  sc_data :: commit_data
  sc_signature :: "json option"

record lrepo =
  lr_commits :: "(hash, stored_commit) dict"
  lr_queue :: "q_entry list option"
  lr_heads :: "(string, hash) dict"
  lr_head :: head
  lr_index :: index
  lr_objs :: objs

definition stored_json :: "hash \<Rightarrow> stored_commit \<Rightarrow> (string \<times> json) list" where
  "stored_json h sc =
     payload (sc_data sc) @ [(''hash'', JStr h)] @ opt_field ''signature'' (sc_signature sc)"

definition history_commit :: "hash \<Rightarrow> stored_commit \<Rightarrow> commit" where
  "history_commit h sc =
     \<lparr>c_hash = h, c_parents = cd_parents (sc_data sc), c_author = cd_author (sc_data sc),
      c_timestamp = cd_timestamp (sc_data sc), c_message = cd_message (sc_data sc),
      c_tree = cd_tree (sc_data sc), c_tags = cd_tags (sc_data sc),
      c_project_id = cd_project_id (sc_data sc), c_project_name = cd_project_name (sc_data sc)\<rparr>"

definition history :: "(hash, stored_commit) dict \<Rightarrow> commit_store" where
  "history cs = map (\<lambda>(h, sc). (h, history_commit h sc)) cs"

section \<open>The queue\<close>

definition load_pending_push :: "q_entry list option \<Rightarrow> q_entry list attempt" where
  "load_pending_push q = (case q of None \<Rightarrow> Raised ''CorruptStateError'' | Some l \<Rightarrow> Done l)"

definition queue_pending_push ::
  "hash \<Rightarrow> string option \<Rightarrow> q_entry list option \<Rightarrow> q_entry list option attempt" where
  "queue_pending_push h ref q =
     (case load_pending_push q of
        Raised e \<Rightarrow> Raised e
      | Done pending \<Rightarrow>
          Done (if list_ex (\<lambda>e. qe_hash e = h) pending then q
                else Some (pending @ [\<lparr>qe_hash = h, qe_ref = ref\<rparr>])))"

text \<open>The remaining entries are the new queue.\<close>

definition remove_pending_push :: "hash list \<Rightarrow> q_entry list option \<Rightarrow> q_entry list attempt" where
  "remove_pending_push hs q =
     (case load_pending_push q of
        Raised e \<Rightarrow> Raised e
      | Done pending \<Rightarrow> Done (filter (\<lambda>e. \<not> List.member hs (qe_hash e)) pending))"

section \<open>The client\<close>

datatype ref_answer = RefDone bool | RefRace "hash option" | RefUnauthorized

record 's client =
  cl_available :: "'s \<Rightarrow> bool \<times> 's"
  cl_check :: "hash list \<Rightarrow> 's \<Rightarrow> hash list attempt \<times> 's"
  cl_upload :: "hash \<Rightarrow> string \<Rightarrow> 's \<Rightarrow> bool attempt \<times> 's"
  cl_push :: "hash \<Rightarrow> stored_commit \<Rightarrow> 's \<Rightarrow> bool attempt \<times> 's"
  cl_ref :: "string \<Rightarrow> hash \<Rightarrow> hash option \<Rightarrow> 's \<Rightarrow> ref_answer \<times> 's"

text \<open>The local object files of the tree entries in scope: the parts of a split file, the whole object
  of any other. What is not in the local store is not a candidate.\<close>

definition upload_hashes :: "tree \<Rightarrow> path list option \<Rightarrow> hash list" where
  "upload_hashes tree only =
     concat (map (\<lambda>(p, info). entry_hashes info)
       (filter (\<lambda>(p, _). case only of None \<Rightarrow> True | Some ps \<Rightarrow> List.member ps p) tree))"

definition candidates :: "objs \<Rightarrow> (hash \<times> string) option \<Rightarrow> tree \<Rightarrow> path list option \<Rightarrow> hash list" where
  "candidates os snapshot tree only =
     rev (remdups (rev (filter (has_key os) (upload_hashes tree only)
                         @ (case snapshot of None \<Rightarrow> [] | Some (sid, _) \<Rightarrow> [sid]))))"

text \<open>The snapshot's object is written before it is uploaded.\<close>

definition with_snapshot :: "(hash \<times> string) option \<Rightarrow> objs \<Rightarrow> objs" where
  "with_snapshot snapshot os =
     (case snapshot of None \<Rightarrow> os
      | Some (sid, b) \<Rightarrow> if has_key os sid then os else dset os sid b)"

text \<open>All uploads are made; then the first that raised is raised.\<close>

fun upload_all :: "'s client \<Rightarrow> objs \<Rightarrow> hash list \<Rightarrow> 's \<Rightarrow> bool attempt \<times> 's" where
  "upload_all c os [] s = (Done True, s)"
| "upload_all c os (h # hs) s =
     (case cl_upload c h (dget_or os h []) s of
        (Raised e, s1) \<Rightarrow> (Raised e, snd (upload_all c os hs s1))
      | (Done ok, s1) \<Rightarrow>
          (case upload_all c os hs s1 of
             (Raised e, s2) \<Rightarrow> (Raised e, s2)
           | (Done oks, s2) \<Rightarrow> (Done (ok \<and> oks), s2)))"

definition upload_commit_objects ::
  "'s client \<Rightarrow> (hash \<times> string) option \<Rightarrow> tree \<Rightarrow> path list option \<Rightarrow> objs \<Rightarrow> 's
   \<Rightarrow> bool attempt \<times> objs \<times> 's" where
  "upload_commit_objects c snapshot tree only os s =
     (let cands = candidates os snapshot tree only; os' = with_snapshot snapshot os in
      if cands = [] then (Done True, os', s)
      else (case cl_check c cands s of
              (Raised e, s1) \<Rightarrow> (Raised e, os', s1)
            | (Done found, s1) \<Rightarrow>
                (let missing = filter (\<lambda>h. \<not> List.member found h) cands in
                 if missing = [] then (Done True, os', s1)
                 else (case upload_all c os' missing s1 of (r, s') \<Rightarrow> (r, os', s')))))"

section \<open>Flushing the queue\<close>

text \<open>One queued commit: \<open>True\<close> when it counts as delivered. A commit without a file is dropped.\<close>

definition deliver_entry ::
  "'s client \<Rightarrow> (hash \<times> string) option \<Rightarrow> (hash, stored_commit) dict \<Rightarrow> q_entry \<Rightarrow> objs \<Rightarrow> 's
   \<Rightarrow> bool attempt \<times> objs \<times> 's" where
  "deliver_entry c snapshot commits e os s =
     (case dget commits (qe_hash e) of
        None \<Rightarrow> (Done True, os, s)
      | Some sc \<Rightarrow>
          (case upload_commit_objects c snapshot (cd_tree (sc_data sc)) None os s of
             (Raised x, os1, s1) \<Rightarrow> (Raised x, os1, s1)
           | (Done False, os1, s1) \<Rightarrow> (Done False, os1, s1)
           | (Done True, os1, s1) \<Rightarrow>
               (case cl_push c (qe_hash e) sc s1 of
                  (Raised x, s2) \<Rightarrow> (Raised x, os1, s2)
                | (Done False, s2) \<Rightarrow> (Done False, os1, s2)
                | (Done True, s2) \<Rightarrow>
                    (case qe_ref e of
                       None \<Rightarrow> (Done True, os1, s2)
                     | Some ref \<Rightarrow>
                         if ref = [] then (Done True, os1, s2) else
                         (case cl_ref c ref (qe_hash e)
                                 (case cd_parents (sc_data sc) of [] \<Rightarrow> None | p # _ \<Rightarrow> Some p) s2 of
                            (RefDone ok, s3) \<Rightarrow> (Done ok, os1, s3)
                          | (RefRace current, s3) \<Rightarrow>
                              (Done (ref_contains (history commits) current (qe_hash e)), os1, s3)
                          | (RefUnauthorized, s3) \<Rightarrow> (Raised ''AuthenticationError'', os1, s3))))))"

text \<open>The hashes delivered, and whether an exception ended the loop.\<close>

fun deliver_all ::
  "'s client \<Rightarrow> (hash \<times> string) option \<Rightarrow> (hash, stored_commit) dict \<Rightarrow> q_entry list \<Rightarrow> objs \<Rightarrow> 's
   \<Rightarrow> hash list \<times> string option \<times> objs \<times> 's" where
  "deliver_all c snapshot commits [] os s = ([], None, os, s)"
| "deliver_all c snapshot commits (e # es) os s =
     (case deliver_entry c snapshot commits e os s of
        (Raised x, os1, s1) \<Rightarrow> ([], Some x, os1, s1)
      | (Done ok, os1, s1) \<Rightarrow>
          (case deliver_all c snapshot commits es os1 s1 of
             (ds, x, os2, s2) \<Rightarrow> ((if ok then qe_hash e # ds else ds), x, os2, s2)))"

definition flush_pending_push ::
  "'s client \<Rightarrow> (hash \<times> string) option \<Rightarrow> hash list \<Rightarrow> lrepo \<Rightarrow> 's \<Rightarrow> q_entry list attempt \<times> lrepo \<times> 's" where
  "flush_pending_push c snapshot skip l s =
     (case load_pending_push (lr_queue l) of
        Raised e \<Rightarrow> (Raised e, l, s)
      | Done all \<Rightarrow>
          (let pending = filter (\<lambda>e. \<not> List.member skip (qe_hash e)) all in
           if pending = [] then (Done all, l, s)
           else (case cl_available c s of
             (False, s1) \<Rightarrow> (Done all, l, s1)
           | (True, s1) \<Rightarrow>
             (case deliver_all c snapshot (lr_commits l) pending (lr_objs l) s1 of
                (delivered, x, os', s') \<Rightarrow>
                  (let rest = filter (\<lambda>e. \<not> List.member delivered (qe_hash e)) all;
                       l' = l\<lparr>lr_objs := os', lr_queue := Some rest\<rparr> in
                   (case x of Some e \<Rightarrow> (Raised e, l', s') | None \<Rightarrow> (Done rest, l', s')))))))"

section \<open>Finishing a commit\<close>

text \<open>
  The local part runs under the repository lock, one durable write after the other. A process killed
  between two writes leaves the writes before them. \<open>Attached b\<close> as the target is the file of the
  branch, \<open>Detached\<close> the HEAD file itself.
\<close>

definition write_commit :: "hash \<Rightarrow> stored_commit \<Rightarrow> lrepo \<Rightarrow> lrepo attempt" where
  "write_commit h sc l = Done (l\<lparr>lr_commits := dset (lr_commits l) h sc\<rparr>)"

definition enqueue :: "hash \<Rightarrow> string option \<Rightarrow> lrepo \<Rightarrow> lrepo attempt" where
  "enqueue h ref l =
     (case queue_pending_push h ref (lr_queue l) of
        Raised e \<Rightarrow> Raised e | Done q \<Rightarrow> Done (l\<lparr>lr_queue := q\<rparr>))"

definition move_ref :: "head \<Rightarrow> hash \<Rightarrow> lrepo \<Rightarrow> lrepo attempt" where
  "move_ref target h l =
     Done (case target of
             Attached b \<Rightarrow> l\<lparr>lr_heads := dset (lr_heads l) b h\<rparr>
           | Detached _ \<Rightarrow> l\<lparr>lr_head := Detached h\<rparr>)"

definition save_index :: "index \<Rightarrow> lrepo \<Rightarrow> lrepo attempt" where
  "save_index ix l = Done (l\<lparr>lr_index := ix\<rparr>)"

fun run_steps :: "(lrepo \<Rightarrow> lrepo attempt) list \<Rightarrow> lrepo \<Rightarrow> string option \<times> lrepo" where
  "run_steps [] l = (None, l)"
| "run_steps (f # fs) l = (case f l of Raised e \<Rightarrow> (Some e, l) | Done l' \<Rightarrow> run_steps fs l')"

definition persist_steps ::
  "hash \<Rightarrow> stored_commit \<Rightarrow> string option \<Rightarrow> head \<Rightarrow> index \<Rightarrow> (lrepo \<Rightarrow> lrepo attempt) list" where
  "persist_steps h sc remote_ref target ix =
     [write_commit h sc, enqueue h remote_ref, move_ref target h, save_index (clear_staged ix)]"

record fin_result =
  fr_hash :: hash
  fr_queued :: bool
  fr_reason :: string
  fr_race :: "(string \<times> hash option \<times> string option) option"

definition settled :: "hash \<Rightarrow> fin_result" where
  "settled h = \<lparr>fr_hash = h, fr_queued = False, fr_reason = [], fr_race = None\<rparr>"

definition still_queued :: "hash \<Rightarrow> string \<Rightarrow> fin_result" where
  "still_queued h why = \<lparr>fr_hash = h, fr_queued = True, fr_reason = why, fr_race = None\<rparr>"

text \<open>\<open>tip_run_id\<close>: the run named by the first \<open>run:\<close> tag of a local commit.\<close>

definition tip_run_id :: "(hash, stored_commit) dict \<Rightarrow> hash option \<Rightarrow> string option" where
  "tip_run_id commits tip =
     (case tip of None \<Rightarrow> None
      | Some h \<Rightarrow>
          if h = [] then None
          else (case dget commits h of None \<Rightarrow> None
                | Some sc \<Rightarrow> map_option (drop 4) (find (\<lambda>t. startswith t ''run:'') (cd_tags (sc_data sc)))))"

definition queued_list :: "lrepo \<Rightarrow> q_entry list" where
  "queued_list l = (case lr_queue l of None \<Rightarrow> [] | Some q \<Rightarrow> q)"

definition expected_parent :: "lrepo \<Rightarrow> string option \<Rightarrow> hash list \<Rightarrow> hash option" where
  "expected_parent l remote_ref parents =
     (case (parents, remote_ref) of
        ([p, q], Some ref) \<Rightarrow>
          if list_ex (\<lambda>e. qe_hash e = p \<and> qe_ref e = Some ref) (queued_list l) then Some q else Some p
      | (p # _, _) \<Rightarrow> Some p
      | ([], _) \<Rightarrow> None)"

text \<open>The failure paths queue again, which changes nothing while the commit is queued.\<close>

definition requeue :: "hash \<Rightarrow> string option \<Rightarrow> lrepo \<Rightarrow> lrepo" where
  "requeue h ref l = (case enqueue h ref l of Raised _ \<Rightarrow> l | Done l' \<Rightarrow> l')"

definition set_queue :: "q_entry list \<Rightarrow> lrepo \<Rightarrow> lrepo" where
  "set_queue q l = l\<lparr>lr_queue := Some q\<rparr>"

text \<open>After the reference of a merge moved, its parents queued for the same reference are dropped.\<close>

definition drop_parents :: "string option \<Rightarrow> hash list \<Rightarrow> lrepo \<Rightarrow> lrepo" where
  "drop_parents remote_ref parents l =
     (if length parents = 2 \<and> remote_ref \<noteq> None
      then set_queue (filter (\<lambda>e. \<not> (qe_ref e = remote_ref \<and> List.member parents (qe_hash e))) (queued_list l)) l
      else l)"

definition drop_delivered :: "hash \<Rightarrow> lrepo \<Rightarrow> lrepo" where
  "drop_delivered h l = set_queue (filter (\<lambda>e. qe_hash e \<noteq> h) (queued_list l)) l"

definition push_to_remote ::
  "'s client \<Rightarrow> (hash \<times> string) option \<Rightarrow> hash \<Rightarrow> stored_commit \<Rightarrow> string option \<Rightarrow> path list option
   \<Rightarrow> hash option \<Rightarrow> lrepo \<Rightarrow> 's \<Rightarrow> fin_result \<times> lrepo \<times> 's" where
  "push_to_remote c snapshot h sc remote_ref only expected l s =
     (let parents = cd_parents (sc_data sc) in
      (case upload_commit_objects c snapshot (cd_tree (sc_data sc)) only (lr_objs l) s of
         (r, os, s1) \<Rightarrow>
      (let l = l\<lparr>lr_objs := os\<rparr>; again = requeue h remote_ref l in
      (case r of
         Raised _ \<Rightarrow> (still_queued h ''auth_rejected'', again, s1)
       | Done False \<Rightarrow> (still_queued h ''object_upload_failed'', again, s1)
       | Done True \<Rightarrow>
      (case cl_push c h sc s1 of
         (Raised _, s2) \<Rightarrow> (still_queued h ''auth_rejected'', again, s2)
       | (Done False, s2) \<Rightarrow> (still_queued h ''push_failed'', again, s2)
       | (Done True, s2) \<Rightarrow>
      (case (case remote_ref of None \<Rightarrow> (RefDone True, s2) | Some ref \<Rightarrow> cl_ref c ref h expected s2) of
         (RefUnauthorized, s3) \<Rightarrow> (still_queued h ''auth_rejected'', again, s3)
       | (RefRace current, s3) \<Rightarrow>
           ((still_queued h ''ref_race'')
              \<lparr>fr_race := Some (case remote_ref of None \<Rightarrow> [] | Some ref \<Rightarrow> ref, current,
                               tip_run_id (lr_commits l) current)\<rparr>, again, s3)
       | (RefDone False, s3) \<Rightarrow> (still_queued h ''ref_update_failed'', again, s3)
       | (RefDone True, s3) \<Rightarrow>
           (settled h, drop_delivered h (drop_parents remote_ref parents l), s3)))))))"

definition push_or_queue ::
  "'s client \<Rightarrow> (hash \<times> string) option \<Rightarrow> hash \<Rightarrow> stored_commit \<Rightarrow> string option \<Rightarrow> path list option
   \<Rightarrow> bool \<Rightarrow> lrepo \<Rightarrow> 's \<Rightarrow> fin_result \<times> lrepo \<times> 's" where
  "push_or_queue c snapshot h sc remote_ref only defer l s =
     (let expected = expected_parent l remote_ref (cd_parents (sc_data sc)) in
      if defer then (still_queued h ''upload_deferred'', requeue h remote_ref l, s)
      else (case flush_pending_push c snapshot [h] l s of
        (_, l1, s1) \<Rightarrow>
          (case cl_available c s1 of
             (True, s2) \<Rightarrow> push_to_remote c snapshot h sc remote_ref only expected l1 s2
           | (False, s2) \<Rightarrow> (still_queued h ''server_unreachable'', requeue h remote_ref l1, s2))))"

record 's commit_env =
  ce_sha :: "string \<Rightarrow> hash"
  ce_canon_ts :: "json \<Rightarrow> string option"
  ce_sign :: "hash \<Rightarrow> commit_data \<Rightarrow> json option"
  ce_client :: "'s client"
  ce_snapshot :: "(hash \<times> string) option"
  ce_author :: string
  ce_now :: string
  ce_project_id :: string
  ce_project_name :: string

definition sealed :: "'s commit_env \<Rightarrow> commit_data \<Rightarrow> hash \<times> stored_commit" where
  "sealed env cd =
     (let h = commit_hash (ce_sha env) (ce_canon_ts env) cd in
      (h, \<lparr>sc_data = cd, sc_signature = ce_sign env h cd\<rparr>))"

text \<open>The reference on the registry is \<open><project_id>/<branch>\<close>, the last segment of the branch's path.\<close>

definition remote_ref_name :: "string \<Rightarrow> head \<Rightarrow> string option" where
  "remote_ref_name project target =
     (case target of Attached b \<Rightarrow> Some (project @ ''/'' @ file_name b) | Detached _ \<Rightarrow> None)"

definition finalize_commit ::
  "'s commit_env \<Rightarrow> commit_data \<Rightarrow> head \<Rightarrow> index \<Rightarrow> path list option \<Rightarrow> bool \<Rightarrow> lrepo \<Rightarrow> 's
   \<Rightarrow> fin_result attempt \<times> lrepo \<times> 's" where
  "finalize_commit env cd target ix only defer l s =
     (case sealed env cd of (h, sc) \<Rightarrow>
      (let ref = remote_ref_name (ce_project_id env) target in
       (case run_steps (persist_steps h sc ref target ix) l of
          (Some e, l1) \<Rightarrow> (Raised e, l1, s)
        | (None, l1) \<Rightarrow>
            (case push_or_queue (ce_client env) (ce_snapshot env) h sc ref only defer l1 s of
               (r, l2, s2) \<Rightarrow> (Done r, l2, s2)))))"

definition head_parents :: "lrepo \<Rightarrow> hash list" where
  "head_parents l =
     (case lr_head l of
        Attached b \<Rightarrow> (let tip = dget_or (lr_heads l) b [] in if tip = [] then [] else [tip])
      | Detached h \<Rightarrow> [h])"

definition build_commit ::
  "'s commit_env \<Rightarrow> string \<Rightarrow> string list \<Rightarrow> (string \<times> json) list \<Rightarrow> string option \<Rightarrow> index \<Rightarrow> lrepo \<Rightarrow> commit_data" where
  "build_commit env message tags metrics run ix l =
     (let run' = (case run of Some [] \<Rightarrow> None | r \<Rightarrow> r);
          tagged = (case run' of None \<Rightarrow> tags
                    | Some r \<Rightarrow> if List.member tags (''run:'' @ r) then tags else tags @ [''run:'' @ r]) in
      \<lparr>cd_parents = head_parents l, cd_author = ce_author env, cd_timestamp = ce_now env,
       cd_message = message, cd_tree = commit_tree ix, cd_tags = tagged, cd_metrics = metrics,
       cd_project_id = ce_project_id env, cd_project_name = ce_project_name env,
       cd_run_id = run', cd_env = map_option fst (ce_snapshot env)\<rparr>)"

text \<open>\<open>None\<close>: nothing is staged.\<close>

definition commit_staged ::
  "'s commit_env \<Rightarrow> string \<Rightarrow> string list \<Rightarrow> (string \<times> json) list \<Rightarrow> string option \<Rightarrow> bool \<Rightarrow> index \<Rightarrow> lrepo \<Rightarrow> 's
   \<Rightarrow> fin_result option attempt \<times> lrepo \<times> 's" where
  "commit_staged env message tags metrics run defer ix l s =
     (let staged = get_staged_entries ix in
      if staged = [] \<and> ix_removed ix = [] then (Done None, l, s)
      else (case finalize_commit env (build_commit env message tags metrics run ix l) (lr_head l) ix
                   (Some (map fst staged)) defer l s of
              (Raised e, l', s') \<Rightarrow> (Raised e, l', s')
            | (Done r, l', s') \<Rightarrow> (Done (Some r), l', s')))"

section \<open>A killed commit\<close>

definition points_at :: "lrepo \<Rightarrow> head \<Rightarrow> hash option" where
  "points_at l target =
     (case target of
        Attached b \<Rightarrow> dget (lr_heads l) b
      | Detached _ \<Rightarrow> (case lr_head l of Detached h \<Rightarrow> Some h | Attached _ \<Rightarrow> None))"

definition is_queued :: "lrepo \<Rightarrow> hash \<Rightarrow> bool" where
  "is_queued l h \<longleftrightarrow> list_ex (\<lambda>e. qe_hash e = h) (queued_list l)"

lemma enqueue_queues: "enqueue h ref l = Done l' \<Longrightarrow> is_queued l' h"
  by (auto simp: enqueue_def queue_pending_push_def load_pending_push_def is_queued_def queued_list_def
      split: option.splits if_splits)

text \<open>
  C37. Whenever a commit is interrupted, after any of its durable writes or by an unreadable queue, a
  branch or HEAD that points to the new commit points to a commit whose file is there and which the
  queue of undelivered commits holds.
\<close>

theorem killed_commit_not_stranded:
  assumes "run_steps (take n (persist_steps h sc ref target ix)) l = (e, l')"
    and "points_at l' target = Some h" "points_at l target \<noteq> Some h"
  shows "dget (lr_commits l') h = Some sc \<and> is_queued l' h"
proof -
  let ?l1 = "l\<lparr>lr_commits := dset (lr_commits l) h sc\<rparr>"
  have same: "points_at ?l1 target = points_at l target"
    by (simp add: points_at_def split: head.split)
  have q: "points_at l2 target = points_at l target \<and> is_queued l2 h \<and> lr_commits l2 = lr_commits ?l1"
    if "enqueue h ref ?l1 = Done l2" for l2
    using enqueue_queues[OF that] that
    by (auto simp: enqueue_def points_at_def split: attempt.splits head.splits)
  have mv: "is_queued l3 h \<and> lr_commits l3 = lr_commits ?l1"
    if "enqueue h ref ?l1 = Done l2" "move_ref target h l2 = Done l3" for l2 l3
    using q[OF that(1)] that(2)
    by (auto simp: move_ref_def is_queued_def queued_list_def split: head.splits)
  show ?thesis
  proof (cases n)
    case 0
    then show ?thesis using assms by simp
  next
    case (Suc m)
    have r1: "run_steps (take m [enqueue h ref, move_ref target h, save_index (clear_staged ix)]) ?l1 = (e, l')"
      using assms(1) by (simp add: Suc persist_steps_def write_commit_def)
    have m0: "m \<noteq> 0" using r1 same assms(2,3) by (cases m) auto
    then obtain k where k: "m = Suc k" by (cases m) auto
    obtain l2 where l2: "enqueue h ref ?l1 = Done l2"
      using r1 same assms(2,3) by (auto simp: k split: attempt.splits)
    have r2: "run_steps (take k [move_ref target h, save_index (clear_staged ix)]) l2 = (e, l')"
      using r1 by (simp add: k l2)
    have "k \<noteq> 0" using r2 q[OF l2] assms(2,3) by (cases k) auto
    then obtain j where j: "k = Suc j" by (cases k) auto
    obtain l3 where l3: "move_ref target h l2 = Done l3" by (simp add: move_ref_def)
    have r3: "run_steps (take j [save_index (clear_staged ix)]) l3 = (e, l')"
      using r2 by (simp add: j l3)
    have "is_queued l3 h" "lr_commits l3 = lr_commits ?l1" using mv[OF l2 l3] by simp_all
    moreover have "l' = l3 \<or> l' = l3\<lparr>lr_index := clear_staged ix\<rparr>"
      using r3 by (cases j) (auto simp: save_index_def)
    ultimately show ?thesis by (auto simp: is_queued_def queued_list_def)
  qed
qed

definition demo_repo :: lrepo where
  "demo_repo = \<lparr>lr_commits = [], lr_queue = Some [], lr_heads = [(''main'', [])], lr_head = Attached ''main'',
     lr_index = \<lparr>ix_entries = [(''f'', \<lparr>ie_hash = ''e'', ie_size = 1, ie_mtime = 0, ie_type = ''code'', ie_staged = True,
       ie_pointer = None, ie_layers = [], ie_chunks = []\<rparr>)], ix_removed = []\<rparr>, lr_objs = [(''e'', ''x'')]\<rparr>"

definition demo_data :: commit_data where
  "demo_data = \<lparr>cd_parents = [], cd_author = ''a'', cd_timestamp = ''t'', cd_message = ''m'', cd_tree = [], cd_tags = [],
     cd_metrics = [], cd_project_id = ''p'', cd_project_name = ''p'', cd_run_id = None, cd_env = None\<rparr>"

lemma killed_commit_not_stranded_witness:
  "case run_steps (take 3 (persist_steps ''c'' \<lparr>sc_data = demo_data, sc_signature = None\<rparr> None (Attached ''main'')
       (lr_index demo_repo))) demo_repo of
     (e, l') \<Rightarrow> points_at l' (Attached ''main'') = Some ''c'' \<and> is_queued l' ''c''"
proof -
  let ?steps = "persist_steps ''c'' \<lparr>sc_data = demo_data, sc_signature = None\<rparr> None (Attached ''main'') (lr_index demo_repo)"
  obtain e l' where r: "run_steps (take 3 ?steps) demo_repo = (e, l')" by (cases "run_steps (take 3 ?steps) demo_repo")
  have "points_at (snd (run_steps (take 3 ?steps) demo_repo)) (Attached ''main'') = Some ''c''"
    "points_at demo_repo (Attached ''main'') = Some []" by code_simp+
  then have "points_at l' (Attached ''main'') = Some ''c''" "points_at demo_repo (Attached ''main'') \<noteq> Some ''c''"
    by (simp_all add: r)
  with killed_commit_not_stranded[OF r] show ?thesis by (simp add: r)
qed

section \<open>Nothing is lost on the way to the registry\<close>

text \<open>A property of the registry that the client's calls keep is kept by everything built from them.\<close>

locale kept_by_calls =
  fixes c :: "'s client" and P :: "'s \<Rightarrow> bool"
  assumes available: "P s \<Longrightarrow> cl_available c s = (ok, s') \<Longrightarrow> P s'"
    and check: "P s \<Longrightarrow> cl_check c hs s = (found, s') \<Longrightarrow> P s'"
    and upload: "P s \<Longrightarrow> cl_upload c h b s = (r, s') \<Longrightarrow> P s'"
    and push: "P s \<Longrightarrow> cl_push c h sc s = (r, s') \<Longrightarrow> P s'"
    and ref: "P s \<Longrightarrow> cl_ref c nm h x s = (a, s') \<Longrightarrow> P s'"
begin

lemma upload_all: "P s \<Longrightarrow> upload_all c os hs s = (r, s') \<Longrightarrow> P s'"
proof (induction hs arbitrary: s r s')
  case (Cons h hs)
  obtain a s1 where 1: "cl_upload c h (dget_or os h []) s = (a, s1)" by (cases "cl_upload c h (dget_or os h []) s")
  obtain r2 s2 where 2: "upload_all c os hs s1 = (r2, s2)" by (cases "upload_all c os hs s1")
  have "s' = s2" using Cons.prems(2) 1 2 by (auto split: attempt.splits)
  then show ?case using Cons.IH[OF upload[OF Cons.prems(1) 1] 2] by simp
qed simp

lemma upload_commit_objects:
  "P s \<Longrightarrow> upload_commit_objects c sn tr only os s = (r, os', s') \<Longrightarrow> P s'"
  by (auto simp: upload_commit_objects_def Let_def dest: check upload_all
      split: if_splits attempt.splits prod.splits)

lemma deliver_entry:
  assumes "P s" "deliver_entry c sn commits e os s = (r, os', s')"
  shows "P s'"
proof (cases "dget commits (qe_hash e)")
  case None then show ?thesis using assms by (simp add: deliver_entry_def)
next
  case (Some sc)
  obtain r1 os1 s1 where u: "upload_commit_objects c sn (cd_tree (sc_data sc)) None os s = (r1, os1, s1)"
    by (cases "upload_commit_objects c sn (cd_tree (sc_data sc)) None os s")
  obtain r2 s2 where p: "cl_push c (qe_hash e) sc s1 = (r2, s2)" by (cases "cl_push c (qe_hash e) sc s1")
  have "P s1" using upload_commit_objects[OF assms(1) u] .
  moreover have "P s2" using push[OF \<open>P s1\<close> p] .
  ultimately show ?thesis
    using assms(2) ref[OF \<open>P s2\<close>] unfolding deliver_entry_def Some option.case u prod.case p
    by (auto split: attempt.splits bool.splits option.splits if_splits ref_answer.splits prod.splits)
qed

lemma deliver_all:
  assumes "P s" "deliver_all c sn commits es os s = (ds, x, os', s')"
  shows "P s'"
  using assms
proof (induction es arbitrary: os s ds x os' s')
  case (Cons e es)
  obtain r os1 s1 where d: "deliver_entry c sn commits e os s = (r, os1, s1)"
    by (cases "deliver_entry c sn commits e os s")
  obtain ds2 x2 os2 s2 where rest: "deliver_all c sn commits es os1 s1 = (ds2, x2, os2, s2)"
    by (cases "deliver_all c sn commits es os1 s1")
  have "P s1" using deliver_entry[OF Cons.prems(1) d] .
  then show ?case
    using Cons.prems(2) d rest Cons.IH[OF \<open>P s1\<close> rest] by (auto split: attempt.splits)
qed simp

lemma flush:
  assumes "P s" "flush_pending_push c sn skip l s = (r, l', s')"
  shows "P s'"
proof -
  obtain ok s1 where av: "cl_available c s = (ok, s1)" by (cases "cl_available c s")
  show ?thesis
    using assms deliver_all[OF available[OF assms(1) av]] available[OF assms(1) av]
    by (auto simp: flush_pending_push_def Let_def av split: attempt.splits if_splits prod.splits option.splits bool.splits)
qed

end

section \<open>The registry as a client uses it\<close>

text \<open>
  What the client relies on: an accepted commit is held, and what the registry holds stays through the
  client's calls. The conclusion, proved once here: no commit leaves the queue before the registry holds
  it.
\<close>

locale registry_client =
  fixes c :: "'s client" and holds :: "hash \<Rightarrow> 's \<Rightarrow> bool"
  assumes push_holds: "cl_push c h sc s = (Done True, s') \<Longrightarrow> holds h s'"
    and holds_kept: "kept_by_calls c (holds h)"

sublocale registry_client < commits: kept_by_calls c "holds h" for h
  by (rule holds_kept)

definition queue_backed :: "lrepo \<Rightarrow> bool" where
  "queue_backed l \<longleftrightarrow> list_all (\<lambda>e. has_key (lr_commits l) (qe_hash e)) (queued_list l)"

definition safe :: "(hash \<Rightarrow> 's \<Rightarrow> bool) \<Rightarrow> lrepo \<Rightarrow> 's \<Rightarrow> hash list \<Rightarrow> bool" where
  "safe holds l s M \<longleftrightarrow> queue_backed l \<and> list_all (\<lambda>h. is_queued l h \<or> holds h s) M"

lemma is_queued_iff: "is_queued l h \<longleftrightarrow> h \<in> qe_hash ` set (queued_list l)"
  by (auto simp: is_queued_def list_ex_iff)

lemma queue_backed_iff: "queue_backed l \<longleftrightarrow> qe_hash ` set (queued_list l) \<subseteq> fst ` set (lr_commits l)"
  by (auto simp: queue_backed_def list_all_iff)

lemma safe_iff:
  "safe holds l s M \<longleftrightarrow> qe_hash ` set (queued_list l) \<subseteq> fst ` set (lr_commits l)
     \<and> (\<forall>h \<in> set M. h \<in> qe_hash ` set (queued_list l) \<or> holds h s)"
  by (auto simp: safe_def queue_backed_iff is_queued_iff list_all_iff)

lemma queued_list_simps [simp]:
  "queued_list (l\<lparr>lr_objs := os\<rparr>) = queued_list l"
  "queued_list (l\<lparr>lr_index := ix\<rparr>) = queued_list l"
  "queued_list (l\<lparr>lr_commits := cs\<rparr>) = queued_list l"
  "queued_list (l\<lparr>lr_heads := hs\<rparr>) = queued_list l"
  "queued_list (l\<lparr>lr_head := hd'\<rparr>) = queued_list l"
  "queued_list (l\<lparr>lr_queue := Some q\<rparr>) = q"
  "queued_list (set_queue q l) = q" "lr_commits (set_queue q l) = lr_commits l"
  by (simp_all add: queued_list_def set_queue_def)

text \<open>Queueing keeps what is there and adds the commit.\<close>

lemma enqueue_effect:
  assumes "enqueue h ref l = Done l'"
  shows "lr_commits l' = lr_commits l"
    and "qe_hash ` set (queued_list l') = insert h (qe_hash ` set (queued_list l))"
proof -
  obtain q where q: "lr_queue l = Some q"
    using assms by (auto simp: enqueue_def queue_pending_push_def load_pending_push_def split: option.splits)
  show "lr_commits l' = lr_commits l"
    using assms by (auto simp: enqueue_def split: attempt.splits)
  show "qe_hash ` set (queued_list l') = insert h (qe_hash ` set (queued_list l))"
  proof (cases "list_ex (\<lambda>e. qe_hash e = h) q")
    case True
    then have "l' = l" and "h \<in> qe_hash ` set q"
      using assms q by (auto simp: enqueue_def queue_pending_push_def load_pending_push_def list_ex_iff)
    then show ?thesis using q by (simp add: queued_list_def insert_absorb)
  next
    case False
    then have "l' = l\<lparr>lr_queue := Some (q @ [\<lparr>qe_hash = h, qe_ref = ref\<rparr>])\<rparr>"
      using assms q by (simp add: enqueue_def queue_pending_push_def load_pending_push_def)
    then show ?thesis using q by (simp add: queued_list_def)
  qed
qed

lemma safe_enqueue:
  assumes "safe holds l s M" "has_key (lr_commits l) h" "enqueue h ref l = Done l'"
  shows "safe holds l' s (h # M)"
  using assms(1,2) unfolding safe_iff enqueue_effect[OF assms(3)] by auto

lemma safe_requeue:
  assumes "safe holds l s M" "has_key (lr_commits l) h"
  shows "safe holds (requeue h ref l) s M"
proof (cases "enqueue h ref l")
  case (Raised e)
  then show ?thesis using assms(1) by (simp add: requeue_def)
next
  case (Done l')
  then show ?thesis using safe_enqueue[OF assms Done] by (simp add: requeue_def safe_def)
qed

lemma safe_objs [simp]: "safe holds (l\<lparr>lr_objs := os\<rparr>) s M \<longleftrightarrow> safe holds l s M"
  by (simp add: safe_iff)

lemma safe_drop_delivered:
  "safe holds l s M \<Longrightarrow> holds h s \<Longrightarrow> safe holds (drop_delivered h l) s M"
  by (force simp: safe_iff drop_delivered_def)

lemma deliver_all_subset:
  "deliver_all c sn commits es os s = (ds, x, os', s') \<Longrightarrow> set ds \<subseteq> qe_hash ` set es"
proof (induction es arbitrary: os s ds x os' s')
  case (Cons e es)
  obtain r os1 s1 where d: "deliver_entry c sn commits e os s = (r, os1, s1)"
    by (cases "deliver_entry c sn commits e os s")
  obtain ds2 x2 os2 s2 where rest: "deliver_all c sn commits es os1 s1 = (ds2, x2, os2, s2)"
    by (cases "deliver_all c sn commits es os1 s1")
  from Cons.prems d rest have "set ds \<subseteq> insert (qe_hash e) (set ds2)"
    by (auto split: attempt.splits if_splits)
  then show ?case using Cons.IH[OF rest] by auto
qed simp

context registry_client
begin

lemma keeps_safe:
  assumes "safe holds l s M" "\<And>h. holds h s \<Longrightarrow> holds h s'"
  shows "safe holds l s' M"
  using assms by (auto simp: safe_iff)

lemma deliver_entry_delivers:
  assumes "deliver_entry c sn commits e os s = (Done True, os', s')" "has_key commits (qe_hash e)"
  shows "holds (qe_hash e) s'"
proof -
  obtain sc where sc: "dget commits (qe_hash e) = Some sc"
    using assms(2) by (auto simp only: has_key_dget)
  obtain r1 os1 s1 where u: "upload_commit_objects c sn (cd_tree (sc_data sc)) None os s = (r1, os1, s1)"
    by (cases "upload_commit_objects c sn (cd_tree (sc_data sc)) None os s")
  obtain r2 s2 where p: "cl_push c (qe_hash e) sc s1 = (r2, s2)" by (cases "cl_push c (qe_hash e) sc s1")
  have r: "r1 = Done True" "r2 = Done True"
    using assms(1) unfolding deliver_entry_def sc option.case u prod.case p
    by (auto split: attempt.splits bool.splits)
  have "holds (qe_hash e) s2" using push_holds[OF p[unfolded r(2)]] .
  then show ?thesis
    using assms(1) commits.ref[of "qe_hash e" s2]
    unfolding deliver_entry_def sc option.case u prod.case p r attempt.case bool.case
    by (auto split: option.splits if_splits prod.splits ref_answer.splits)
qed

lemma deliver_all_delivers:
  assumes "deliver_all c sn commits es os s = (ds, x, os', s')"
    and "list_all (\<lambda>e. has_key commits (qe_hash e)) es"
  shows "list_all (\<lambda>h. holds h s') ds"
  using assms
proof (induction es arbitrary: os s ds x os' s')
  case (Cons e es)
  obtain r os1 s1 where d: "deliver_entry c sn commits e os s = (r, os1, s1)"
    by (cases "deliver_entry c sn commits e os s")
  obtain ds2 x2 os2 s2 where rest: "deliver_all c sn commits es os1 s1 = (ds2, x2, os2, s2)"
    by (cases "deliver_all c sn commits es os1 s1")
  show ?case
  proof (cases r)
    case (Raised y)
    then show ?thesis using Cons.prems(1) d by simp
  next
    case (Done ok)
    have out: "ds = (if ok then qe_hash e # ds2 else ds2)" "s' = s2"
      using Cons.prems(1) d rest Done by auto
    have rest_ok: "list_all (\<lambda>h. holds h s2) ds2" using Cons.IH[OF rest] Cons.prems(2) by simp
    show ?thesis
    proof (cases ok)
      case True
      have "holds (qe_hash e) s1"
        using deliver_entry_delivers[of sn commits e os s os1 s1] d Done True Cons.prems(2) by simp
      then have "holds (qe_hash e) s2" using commits.deliver_all[OF _ rest] by blast
      then show ?thesis using out True rest_ok by simp
    qed (use out rest_ok in simp)
  qed
qed simp

lemma flush_safe:
  assumes "safe holds l s M" "flush_pending_push c sn skip l s = (r, l', s')"
  shows "safe holds l' s' M \<and> lr_commits l' = lr_commits l"
proof (cases "lr_queue l = None \<or> filter (\<lambda>e. \<not> List.member skip (qe_hash e)) (queued_list l) = []
    \<or> \<not> fst (cl_available c s)")
  case True
  then have "l' = l" "s' = s \<or> s' = snd (cl_available c s)"
    using assms(2)
    by (auto simp: flush_pending_push_def load_pending_push_def queued_list_def Let_def
        split: option.splits if_splits prod.splits bool.splits)
  then show ?thesis using assms(1) keeps_safe[OF assms(1) commits.available[OF _ surjective_pairing]] by auto
next
  case False
  obtain s1 where av: "cl_available c s = (True, s1)" using False by (cases "cl_available c s") auto
  define pending where "pending = filter (\<lambda>e. \<not> List.member skip (qe_hash e)) (queued_list l)"
  obtain ds x os' s2 where d: "deliver_all c sn (lr_commits l) pending (lr_objs l) s1 = (ds, x, os', s2)"
    by (cases "deliver_all c sn (lr_commits l) pending (lr_objs l) s1")
  define rest where "rest = filter (\<lambda>e. \<not> List.member ds (qe_hash e)) (queued_list l)"
  have q: "load_pending_push (lr_queue l) = Done (queued_list l)"
    using False by (auto simp: load_pending_push_def queued_list_def)
  have out: "l' = l\<lparr>lr_objs := os', lr_queue := Some rest\<rparr>" "s' = s2"
    using assms(2) False d unfolding flush_pending_push_def q attempt.case pending_def[symmetric] Let_def
    by (auto simp: rest_def pending_def av split: option.splits)
  have "list_all (\<lambda>e. has_key (lr_commits l) (qe_hash e)) pending"
    using assms(1) by (auto simp: safe_def queue_backed_def pending_def list_all_iff)
  from deliver_all_delivers[OF d this] have ds: "\<And>h. h \<in> set ds \<Longrightarrow> holds h s2"
    by (simp add: list_all_iff)
  have kept: "\<And>h. holds h s \<Longrightarrow> holds h s2"
    using commits.deliver_all[OF commits.available[OF _ av] d] by blast
  have ql: "queued_list l' = rest" "lr_commits l' = lr_commits l" by (simp_all add: out(1) queued_list_def)
  have rest: "qe_hash ` set rest = qe_hash ` set (queued_list l) - set ds"
    by (auto simp: rest_def)
  show ?thesis
    using assms(1) ds kept unfolding safe_iff ql rest out(2) by blast
qed

text \<open>A merge whose reference moved may drop its parents, which is the one exception.\<close>

lemma push_to_remote_safe:
  assumes "safe holds l s M" "has_key (lr_commits l) h"
    and "push_to_remote c sn h sc ref only expected l s = (r, l', s')"
    and merged: "\<And>p s1 s2. length (cd_parents (sc_data sc)) = 2 \<Longrightarrow> \<not> fr_queued r
      \<Longrightarrow> p \<in> set (cd_parents (sc_data sc)) \<Longrightarrow> \<not> is_queued l' p
      \<Longrightarrow> cl_push c h sc s1 = (Done True, s2) \<Longrightarrow> holds p s2"
  shows "safe holds l' s' M"
proof -
  obtain r1 os s1 where u: "upload_commit_objects c sn (cd_tree (sc_data sc)) only (lr_objs l) s = (r1, os, s1)"
    by (cases "upload_commit_objects c sn (cd_tree (sc_data sc)) only (lr_objs l) s")
  obtain r2 s2 where p: "cl_push c h sc s1 = (r2, s2)" by (cases "cl_push c h sc s1")
  obtain r3 s3 where rf: "(case ref of None \<Rightarrow> (RefDone True, s2) | Some ref \<Rightarrow> cl_ref c ref h expected s2) = (r3, s3)"
    by (metis prod.exhaust)
  let ?l = "l\<lparr>lr_objs := os\<rparr>"
  have k1: "safe holds ?l s1 M" using keeps_safe[OF assms(1)] commits.upload_commit_objects[OF _ u] by simp
  have k2: "safe holds ?l s2 M" using keeps_safe[OF k1] commits.push[OF _ p] by blast
  have h23: "holds x s3" if "holds x s2" for x
    using rf commits.ref[OF that] that by (cases ref) auto
  have k3: "safe holds ?l s3 M" using keeps_safe[OF k2 h23] .
  have key: "has_key (lr_commits ?l) h" using assms(2) by simp
  note again = safe_requeue[OF k1 key, of ref] safe_requeue[OF k2 key, of ref] safe_requeue[OF k3 key, of ref]
  show ?thesis
  proof (cases "r1 = Done True \<and> r2 = Done True \<and> r3 = RefDone True")
    case True
    then have p': "cl_push c h sc s1 = (Done True, s2)" using p by simp
    have out: "l' = drop_delivered h (drop_parents ref (cd_parents (sc_data sc)) ?l)" "s' = s3" "\<not> fr_queued r"
      using assms(3) True unfolding push_to_remote_def Let_def u prod.case
      by (auto simp: p rf settled_def)
    have gone: "holds x s3" if "is_queued ?l x" "\<not> is_queued l' x" for x
    proof (cases "x = h")
      case True
      then show ?thesis using h23 push_holds[OF p'] by simp
    next
      case False
      then have "length (cd_parents (sc_data sc)) = 2" "x \<in> set (cd_parents (sc_data sc))"
        using that unfolding out(1) is_queued_iff drop_delivered_def drop_parents_def
        by (auto split: if_splits)
      then show ?thesis using h23 merged[OF _ out(3) _ that(2) p'] by simp
    qed
    have cs: "lr_commits l' = lr_commits ?l"
      and sub: "qe_hash ` set (queued_list l') \<subseteq> qe_hash ` set (queued_list ?l)"
      by (auto simp: out(1) drop_delivered_def drop_parents_def)
    show ?thesis using k3 sub gone unfolding safe_iff out(2) is_queued_iff cs by blast
  next
    case False
    then have "l' = requeue h ref ?l \<and> (s' = s1 \<or> s' = s2 \<or> s' = s3)"
      using assms(3) unfolding push_to_remote_def Let_def u prod.case p rf
      by (auto split: attempt.splits bool.splits ref_answer.splits)
    then show ?thesis using again by auto
  qed
qed

lemma push_or_queue_safe:
  assumes "safe holds l s M" "has_key (lr_commits l) h"
    and "push_or_queue c sn h sc ref only defer l s = (r, l', s')"
    and merged: "\<And>p s1 s2. length (cd_parents (sc_data sc)) = 2 \<Longrightarrow> \<not> fr_queued r
      \<Longrightarrow> p \<in> set (cd_parents (sc_data sc)) \<Longrightarrow> \<not> is_queued l' p
      \<Longrightarrow> cl_push c h sc s1 = (Done True, s2) \<Longrightarrow> holds p s2"
  shows "safe holds l' s' M"
proof (cases "defer")
  case True
  then show ?thesis using assms(3) safe_requeue[OF assms(1,2)] by (auto simp: push_or_queue_def Let_def)
next
  case False
  obtain r1 l1 s1 where f: "flush_pending_push c sn [h] l s = (r1, l1, s1)"
    by (cases "flush_pending_push c sn [h] l s")
  obtain ok s2 where av: "cl_available c s1 = (ok, s2)" by (cases "cl_available c s1")
  have s1: "safe holds l1 s1 M" and cs: "lr_commits l1 = lr_commits l" using flush_safe[OF assms(1) f] by simp_all
  have s2: "safe holds l1 s2 M" using keeps_safe[OF s1] commits.available[OF _ av] by blast
  have key: "has_key (lr_commits l1) h" using assms(2) cs by simp
  show ?thesis
  proof (cases ok)
    case True
    then have "push_to_remote c sn h sc ref only (expected_parent l ref (cd_parents (sc_data sc))) l1 s2 = (r, l', s')"
      using assms(3) False by (simp add: push_or_queue_def Let_def f av)
    from push_to_remote_safe[OF s2 key this] show ?thesis using merged by blast
  next
    case na: False
    then show ?thesis using assms(3) False safe_requeue[OF s2 key] by (auto simp: push_or_queue_def Let_def f av)
  qed
qed

end

section \<open>The life of a repository\<close>

text \<open>
  What may happen, in any order: commits, merges (any commit finished from given data, as
  \<open>merge\<close> does), commits killed between two durable writes, flushes, anything that leaves the queue
  alone and deletes no commit file (staging, checkout, branches, fetching), and steps of others on the
  registry. The first list has the commits that were finished, or that a killed commit left a branch or
  HEAD at. The second has the pairs of a parent and a merge that a merge dropped from the queue when its
  reference moved.
\<close>

definition finished :: "fin_result attempt \<Rightarrow> hash list" where
  "finished r = (case r of Done f \<Rightarrow> [fr_hash f] | Raised _ \<Rightarrow> [])"

definition made :: "fin_result option attempt \<Rightarrow> hash list" where
  "made r = (case r of Done (Some f) \<Rightarrow> [fr_hash f] | _ \<Rightarrow> [])"

definition dropped :: "hash list \<Rightarrow> fin_result attempt \<Rightarrow> lrepo \<Rightarrow> (hash \<times> hash) list" where
  "dropped parents r l' =
     (case r of
        Done f \<Rightarrow> if length parents = 2 \<and> \<not> fr_queued f
                  then map (\<lambda>p. (p, fr_hash f)) (filter (\<lambda>p. \<not> is_queued l' p) parents) else []
      | Raised _ \<Rightarrow> [])"

definition left_at :: "lrepo \<Rightarrow> lrepo \<Rightarrow> head \<Rightarrow> hash \<Rightarrow> hash list" where
  "left_at l l' target h = (if points_at l' target = Some h \<and> points_at l target \<noteq> Some h then [h] else [])"

inductive repo_run ::
  "'s client \<Rightarrow> ('s \<Rightarrow> 's \<Rightarrow> bool) \<Rightarrow> lrepo \<Rightarrow> 's \<Rightarrow> hash list \<Rightarrow> (hash \<times> hash) list \<Rightarrow> bool"
  for c :: "'s client" and world :: "'s \<Rightarrow> 's \<Rightarrow> bool" where
  start: "lr_queue l = Some [] \<Longrightarrow> repo_run c world l s [] []"
| commit: "repo_run c world l s M D \<Longrightarrow> ce_client env = c
    \<Longrightarrow> commit_staged env message tags metrics run later (lr_index l) l s = (r, l', s')
    \<Longrightarrow> repo_run c world l' s' (made r @ M) D"
| merge: "repo_run c world l s M D \<Longrightarrow> ce_client env = c
    \<Longrightarrow> finalize_commit env cd target ix only later l s = (r, l', s')
    \<Longrightarrow> repo_run c world l' s' (finished r @ M) (dropped (cd_parents cd) r l' @ D)"
| killed: "repo_run c world l s M D
    \<Longrightarrow> run_steps (take n (persist_steps h sc ref target ix)) l = (e, l')
    \<Longrightarrow> repo_run c world l' s (left_at l l' target h @ M) D"
| flush: "repo_run c world l s M D \<Longrightarrow> flush_pending_push c sn skip l s = (r', l', s')
    \<Longrightarrow> repo_run c world l' s' M D"
| work: "repo_run c world l s M D \<Longrightarrow> set (map fst (lr_commits l)) \<subseteq> set (map fst cs)
    \<Longrightarrow> repo_run c world (l\<lparr>lr_commits := cs, lr_index := ix, lr_objs := os, lr_head := hd', lr_heads := hds\<rparr>) s M D"
| others: "repo_run c world l s M D \<Longrightarrow> world s s' \<Longrightarrow> repo_run c world l s' M D"

text \<open>Held, or dropped by a merge that is held.\<close>

definition covered :: "(hash \<Rightarrow> 's \<Rightarrow> bool) \<Rightarrow> (hash \<times> hash) list \<Rightarrow> hash \<Rightarrow> 's \<Rightarrow> bool" where
  "covered holds D h s \<longleftrightarrow> holds h s \<or> (\<exists>m. (h, m) \<in> set D \<and> holds m s)"

lemma covered_mono: "covered holds D h s \<Longrightarrow> covered holds (E @ D) h s"
  by (auto simp: covered_def)

lemma safe_mono: "safe holds l s M \<Longrightarrow> (\<And>h. holds h s \<Longrightarrow> holds' h s) \<Longrightarrow> safe holds' l s M"
  by (auto simp: safe_iff)

lemma covered_kept:
  assumes "\<And>h. kept_by_calls c (holds h)"
  shows "kept_by_calls c (covered holds D h)"
  by (rule kept_by_calls.intro; auto simp: covered_def dest: kept_by_calls.available[OF assms]
      kept_by_calls.check[OF assms] kept_by_calls.upload[OF assms] kept_by_calls.push[OF assms] kept_by_calls.ref[OF assms])

lemma covered_client:
  assumes "registry_client c holds"
  shows "registry_client c (covered holds D)"
proof (rule registry_client.intro)
  show "covered holds D h s'" if "cl_push c h sc s = (Done True, s')" for h sc s s'
    using registry_client.push_holds[OF assms that] by (simp add: covered_def)
  show "kept_by_calls c (covered holds D h)" for h
    by (rule covered_kept) (rule registry_client.holds_kept[OF assms])
qed

text \<open>Any prefix of the durable writes keeps the commits safe.\<close>

lemma run_steps_keeps:
  assumes "run_steps fs l = (e, l')" and "I l"
    and "\<forall>f \<in> set fs. \<forall>x x'. I x \<longrightarrow> f x = Done x' \<longrightarrow> I x'"
  shows "I l'"
  using assms
proof (induction fs arbitrary: l)
  case (Cons f fs)
  show ?case
  proof (cases "f l")
    case (Raised x)
    then show ?thesis using Cons.prems by simp
  next
    case (Done l1)
    have here: "\<forall>x x'. I x \<longrightarrow> f x = Done x' \<longrightarrow> I x'"
      and there: "\<forall>f \<in> set fs. \<forall>x x'. I x \<longrightarrow> f x = Done x' \<longrightarrow> I x'"
      by (meson Cons.prems(3) list.set_intros)+
    have "run_steps fs l1 = (e, l')" using Cons.prems(1) Done by simp
    moreover have "I l1" using here Cons.prems(2) Done by blast
    ultimately show ?thesis using there by (rule Cons.IH)
  qed
qed simp

lemma ref_and_index_frame:
  assumes "move_ref target h x = Done x' \<or> save_index ix x = Done x'"
  shows "queued_list x' = queued_list x" "lr_commits x' = lr_commits x"
  using assms by (auto simp: move_ref_def save_index_def split: head.splits)

lemma safe_cong:
  "queued_list x' = queued_list x \<Longrightarrow> lr_commits x' = lr_commits x \<Longrightarrow> safe holds x' s M \<longleftrightarrow> safe holds x s M"
  by (simp only: safe_iff)

lemma persist_steps_safe:
  assumes "run_steps (take n (persist_steps h sc ref target ix)) l = (e, l')" and "safe holds l s M"
  shows "safe holds l' s M"
proof (cases n)
  case 0
  then show ?thesis using assms by simp
next
  case (Suc m)
  let ?l = "l\<lparr>lr_commits := dset (lr_commits l) h sc\<rparr>"
  define I where "I x \<longleftrightarrow> safe holds x s M \<and> has_key (lr_commits x) h" for x
  have r: "run_steps (take m [enqueue h ref, move_ref target h, save_index (clear_staged ix)]) ?l = (e, l')"
    using assms(1) by (simp add: Suc persist_steps_def write_commit_def)
  have "I ?l" using assms(2) by (auto simp: I_def safe_iff)
  moreover have step: "I x'"
    if "f \<in> set [enqueue h ref, move_ref target h, save_index (clear_staged ix)]" "I x" "f x = Done x'" for f x x'
  proof (cases "f = enqueue h ref")
    case True
    with that safe_enqueue[of holds x s M h ref x'] enqueue_effect(1)[of h ref x x']
    show ?thesis by (simp add: I_def safe_def)
  next
    case False
    with that have m: "move_ref target h x = Done x' \<or> save_index (clear_staged ix) x = Done x'" by auto
    show ?thesis
      using that(2) by (simp only: I_def safe_cong[OF ref_and_index_frame[OF m]] ref_and_index_frame(2)[OF m])
  qed
  moreover have "\<forall>f \<in> set (take m [enqueue h ref, move_ref target h, save_index (clear_staged ix)]).
      \<forall>x x'. I x \<longrightarrow> f x = Done x' \<longrightarrow> I x'"
    using step in_set_takeD by fast
  ultimately have "I l'" using run_steps_keeps[OF r, of I] by blast
  then show ?thesis by (simp add: I_def)
qed

lemma persisted:
  assumes "run_steps (persist_steps h sc ref target ix) l = (None, l')"
  shows "is_queued l' h \<and> has_key (lr_commits l') h"
proof -
  let ?l = "l\<lparr>lr_commits := dset (lr_commits l) h sc\<rparr>"
  obtain l2 where l2: "enqueue h ref ?l = Done l2"
    and r: "run_steps [move_ref target h, save_index (clear_staged ix)] l2 = (None, l')"
    using assms by (auto simp: persist_steps_def write_commit_def split: attempt.splits)
  define I where "I x \<longleftrightarrow> h \<in> qe_hash ` set (queued_list x) \<and> h \<in> fst ` set (lr_commits x)" for x
  have "I l2" using enqueue_effect[OF l2] by (simp add: I_def)
  moreover have step: "I x'" if "f \<in> set [move_ref target h, save_index (clear_staged ix)]" "I x" "f x = Done x'" for f x x'
  proof -
    from that(1,3) have m: "move_ref target h x = Done x' \<or> save_index (clear_staged ix) x = Done x'" by auto
    show ?thesis using that(2) by (simp only: I_def ref_and_index_frame[OF m])
  qed
  moreover have "\<forall>f \<in> set [move_ref target h, save_index (clear_staged ix)]. \<forall>x x'. I x \<longrightarrow> f x = Done x' \<longrightarrow> I x'"
    using step by blast
  ultimately have "I l'" using run_steps_keeps[OF r, of I] by blast
  then show ?thesis by (simp add: I_def is_queued_iff)
qed

lemma safe_append: "safe holds l s (A @ M) \<longleftrightarrow> safe holds l s M \<and> list_all (\<lambda>h. is_queued l h \<or> holds h s) A"
  by (auto simp: safe_def)

lemma head_parents_length: "length (head_parents l) \<le> 1"
  by (simp add: head_parents_def Let_def split: head.split)

lemma push_or_queue_hash:
  "push_or_queue c sn h sc ref ps later l s = (f, l', s') \<Longrightarrow> fr_hash f = h"
  by (auto simp: push_or_queue_def push_to_remote_def Let_def settled_def still_queued_def
      split: if_splits prod.splits attempt.splits bool.splits ref_answer.splits)

context registry_client
begin

lemma finalize_commit_safe:
  assumes "safe holds l s M" "ce_client env = c"
    and "finalize_commit env cd target ix only later l s = (r, l', s')"
    and merged: "\<And>f p h sc s1 s2. r = Done f \<Longrightarrow> length (cd_parents cd) = 2 \<Longrightarrow> \<not> fr_queued f
      \<Longrightarrow> p \<in> set (cd_parents cd) \<Longrightarrow> \<not> is_queued l' p
      \<Longrightarrow> cl_push c (fr_hash f) sc s1 = (Done True, s2) \<Longrightarrow> holds p s2"
  shows "safe holds l' s' (finished r @ M)"
proof -
  obtain h sc where sealed: "sealed env cd = (h, sc)" by (cases "sealed env cd")
  then have data: "sc_data sc = cd" by (auto simp: sealed_def Let_def)
  define ref where "ref = remote_ref_name (ce_project_id env) target"
  obtain e l1 where p: "run_steps (persist_steps h sc ref target ix) l = (e, l1)"
    by (cases "run_steps (persist_steps h sc ref target ix) l")
  have fin: "finalize_commit env cd target ix only later l s
      = (case run_steps (persist_steps h sc ref target ix) l of
          (Some e, l1) \<Rightarrow> (Raised e, l1, s)
        | (None, l1) \<Rightarrow> (case push_or_queue c (ce_snapshot env) h sc ref only later l1 s of
               (r, l2, s2) \<Rightarrow> (Done r, l2, s2)))"
    by (simp only: finalize_commit_def sealed prod.case Let_def ref_def assms(2))
  have s1: "safe holds l1 s M"
    using persist_steps_safe[of 4 h sc ref target ix l e l1 holds s M] p assms(1)
    by (simp add: persist_steps_def)
  show ?thesis
  proof (cases e)
    case (Some x)
    then have "finished r = []" "l' = l1" "s' = s"
      using assms(3) unfolding fin p by (auto simp: finished_def)
    then show ?thesis using s1 by simp
  next
    case None
    obtain f l2 s2 where q: "push_or_queue c (ce_snapshot env) h sc ref only later l1 s = (f, l2, s2)"
      by (cases "push_or_queue c (ce_snapshot env) h sc ref only later l1 s")
    have out: "r = Done f" "l' = l2" "s' = s2"
      using assms(3) unfolding fin p None by (auto simp: q)
    have fh: "fr_hash f = h" using push_or_queue_hash[OF q] .
    have made: "safe holds l1 s (h # M)" using s1 persisted[OF p[unfolded None]] by (simp add: safe_def)
    have "safe holds l2 s2 (h # M)"
      by (rule push_or_queue_safe[OF made _ q]) (use persisted[OF p[unfolded None]] merged out data fh in auto)
    then show ?thesis by (simp add: out finished_def fh)
  qed
qed

lemma commit_staged_safe:
  assumes "safe holds l s M" "ce_client env = c"
    and "commit_staged env message tags metrics run later ix l s = (r, l', s')"
  shows "safe holds l' s' (made r @ M)"
proof (cases "get_staged_entries ix = [] \<and> ix_removed ix = []")
  case True
  then show ?thesis using assms by (auto simp: commit_staged_def made_def)
next
  case False
  define cd where "cd = build_commit env message tags metrics run ix l"
  define ps where "ps = Some (map fst (get_staged_entries ix))"
  obtain r1 l1 s1 where f: "finalize_commit env cd (lr_head l) ix ps later l s = (r1, l1, s1)"
    by (cases "finalize_commit env cd (lr_head l) ix ps later l s")
  have "length (cd_parents cd) \<noteq> 2" using head_parents_length[of l] by (simp add: cd_def build_commit_def Let_def)
  then have "safe holds l1 s1 (finished r1 @ M)"
    by (intro finalize_commit_safe[OF assms(1,2) f]) simp
  moreover have "made r = finished r1" "l' = l1" "s' = s1"
    using assms(3) f unfolding commit_staged_def Let_def if_not_P[OF False] cd_def ps_def
    by (auto simp: made_def finished_def split: attempt.splits)
  ultimately show ?thesis by simp
qed

text \<open>What a merge drops is covered by the merge, which the registry holds.\<close>

lemma merge_safe:
  assumes "safe (covered holds D) l s M" "ce_client env = c"
    and "finalize_commit env cd target ix only later l s = (r, l', s')"
  shows "safe (covered holds (dropped (cd_parents cd) r l' @ D)) l' s' (finished r @ M)"
proof -
  have client: "registry_client c holds" by unfold_locales
  let ?E = "dropped (cd_parents cd) r l' @ D"
  have start: "safe (covered holds ?E) l s M" using safe_mono[OF assms(1) covered_mono] .
  show ?thesis
  proof (rule registry_client.finalize_commit_safe[OF covered_client[OF client] start assms(2,3)])
    fix f p sc s1 s2
    assume "r = Done f" "length (cd_parents cd) = 2" "\<not> fr_queued f" "p \<in> set (cd_parents cd)" "\<not> is_queued l' p"
    then have "(p, fr_hash f) \<in> set ?E" by (auto simp: dropped_def)
    moreover assume "cl_push c (fr_hash f) sc s1 = (Done True, s2)"
    then have "holds (fr_hash f) s2" by (rule push_holds)
    ultimately show "covered holds ?E p s2" by (auto simp: covered_def)
  qed
qed

lemma run_safe:
  assumes "repo_run c world l s M D" and "\<And>s s' h. world s s' \<Longrightarrow> holds h s \<Longrightarrow> holds h s'"
  shows "safe (covered holds D) l s M"
  using assms(1)
proof (induction rule: repo_run.induct)
  case (start l s)
  then show ?case by (simp add: safe_def queue_backed_def queued_list_def)
next
  case (commit l s M D env message tags metrics run later r l' s')
  have client: "registry_client c holds" by unfold_locales
  show ?case using registry_client.commit_staged_safe[OF covered_client[OF client] commit(4,2,3)] .
next
  case (merge l s M D env cd target ix only later r l' s')
  show ?case using merge_safe[OF merge(4,2,3)] .
next
  case (killed l s M D n h sc ref target ix e l')
  have "list_all (\<lambda>x. is_queued l' x \<or> covered holds D x s) (left_at l l' target h)"
    using killed_commit_not_stranded[OF killed(2)] by (auto simp: left_at_def)
  then show ?case using persist_steps_safe[OF killed(2,3)] by (simp add: safe_append)
next
  case (flush l s M D sn skip r' l' s')
  have client: "registry_client c holds" by unfold_locales
  show ?case using registry_client.flush_safe[OF covered_client[OF client] flush(3,2)] by simp
next
  case (work l s M D cs hds hd' os ix)
  have "queued_list (l\<lparr>lr_commits := cs, lr_index := ix, lr_objs := os, lr_head := hd', lr_heads := hds\<rparr>) = queued_list l"
    by (simp add: queued_list_def)
  moreover have "fst ` set (lr_commits l) \<subseteq> fst ` set cs" using work(2) by simp
  ultimately show ?case using work(3) unfolding safe_iff by (simp, blast)
next
  case (others l s M D s')
  have "covered holds D h s'" if "covered holds D h s" for h
    using that assms(2)[OF others(2)] by (auto simp: covered_def)
  then show ?case using others(3) by (auto simp: safe_iff)
qed

end

section \<open>A merge can drop a parent that was never delivered\<close>

text \<open>
  A registry that keeps the hashes it accepted and refuses one commit, as after a failed request. The
  flush before the merge's own push leaves that commit queued; when the reference moved to the merge, the
  queue forgets it.
\<close>

definition refusing :: "hash \<Rightarrow> hash list client" where
  "refusing bad = \<lparr>cl_available = (\<lambda>s. (True, s)), cl_check = (\<lambda>hs s. (Done hs, s)), cl_upload = (\<lambda>_ _ s. (Done True, s)),
     cl_push = (\<lambda>h _ s. if h = bad then (Done False, s) else (Done True, h # s)),
     cl_ref = (\<lambda>_ _ _ s. (RefDone True, s))\<rparr>"

lemma merge_drops_undelivered_parent:
  "let parent = \<lparr>sc_data = demo_data, sc_signature = None\<rparr>;
       merge = \<lparr>sc_data = demo_data\<lparr>cd_parents := [''p'', ''q'']\<rparr>, sc_signature = None\<rparr>;
       l = demo_repo\<lparr>lr_commits := [(''p'', parent), (''m'', merge)],
         lr_queue := Some [\<lparr>qe_hash = ''p'', qe_ref = Some ''p/main''\<rparr>, \<lparr>qe_hash = ''m'', qe_ref = Some ''p/main''\<rparr>]\<rparr>
   in case push_or_queue (refusing ''p'') None ''m'' merge (Some ''p/main'') None False l [''q''] of
        (r, l', held) \<Rightarrow> \<not> fr_queued r \<and> \<not> is_queued l' ''p'' \<and> held = [''m'', ''q'']"
  by code_simp

end
