(* ===== verification/Registry.thy ===== *)
theory Registry
  imports Delivery Commits Refs ObjectStore
begin

text \<open>
  The client against the model's own registry: \<open>client.py\<close>'s \<open>VaultClient\<close> with the handlers
  \<open>push_commit\<close>, \<open>update_ref\<close>, \<open>upload_object\<close> and \<open>check_objects_batch\<close> behind a network that
  loses requests and replies.
\<close>

section \<open>Requests over a network\<close>

datatype fault = Delivered | LostRequest | LostReply

text \<open>The tables of commits, references and objects; events and audit rows are kept in each part. What
  happens to the next requests is part of the state: each request takes one fault, the probe and the
  batch check included, and an empty list delivers. So are the coming readings of the monotonic clock, in
  milliseconds, and the client's cached probe.\<close>

record 'f registry =
  rg_commits :: commits_db
  rg_refs :: refs_db
  rg_objects :: "'f objects"
  rg_faults :: "fault list"
  rg_times :: "int list"
  rg_probe :: "(bool \<times> int) option"

definition next_fault :: "'f registry \<Rightarrow> fault" where
  "next_fault s = (case rg_faults s of [] \<Rightarrow> Delivered | f # _ \<Rightarrow> f)"

text \<open>One request: \<open>None\<close> is a \<open>RequestException\<close>; a lost reply leaves the effect on the registry.\<close>

definition send :: "('f registry \<Rightarrow> 'r \<times> 'f registry) \<Rightarrow> 'f registry \<Rightarrow> 'r option \<times> 'f registry" where
  "send f s =
     (let s1 = s\<lparr>rg_faults := tl (rg_faults s)\<rparr> in
      case next_fault s of
        LostRequest \<Rightarrow> (None, s1)
      | LostReply \<Rightarrow> (None, snd (f s1))
      | Delivered \<Rightarrow> (case f s1 of (r, s2) \<Rightarrow> (Some r, s2)))"

section \<open>VaultClient\<close>

text \<open>\<open>server_available\<close>: a probe of \<open>/api/health\<close>, whose answer is kept for a second.\<close>

definition server_available :: "'f registry \<Rightarrow> bool \<times> 'f registry" where
  "server_available s =
     (let now = (case rg_times s of [] \<Rightarrow> 0 | t # _ \<Rightarrow> t);
          s0 = s\<lparr>rg_times := tl (rg_times s)\<rparr>;
          probed = (case send (\<lambda>s. ((), s)) s0 of (answer, s1) \<Rightarrow>
                      (answer \<noteq> None, s1\<lparr>rg_probe := Some (answer \<noteq> None, now)\<rparr>)) in
      (case rg_probe s0 of
         None \<Rightarrow> probed
       | Some (value, checked_at) \<Rightarrow> if now - checked_at < 1000 then (value, s0) else probed))"

text \<open>What a client session is: the digest and filter of the registry, the registry's configuration, the
  caller its token stands for (\<open>None\<close>: refused with 401), the object requests.\<close>

record 'f session =
  vc_ops :: "'f bloom_ops"
  vc_sha :: "string \<Rightarrow> hash"
  vc_cfg :: commit_config
  vc_caller :: "caller option"
  vc_request :: request

definition vc_upload_object :: "'f session \<Rightarrow> hash \<Rightarrow> string \<Rightarrow> 'f registry \<Rightarrow> bool attempt \<times> 'f registry" where
  "vc_upload_object v h b s =
     (case send (\<lambda>s. if vc_caller v = None then (401, s)
              else (case upload_object (vc_ops v) (vc_sha v) (vc_request v) h \<lparr>b_chunks = [b], b_error = None\<rparr> (rg_objects s) of
                      (d, r) \<Rightarrow> (http_status r, s\<lparr>rg_objects := d\<rparr>))) s of
        (None, s') \<Rightarrow> (Done False, s')
      | (Some st, s') \<Rightarrow> (if st = 401 then Raised ''AuthenticationError'' else Done (st = 201), s'))"

definition vc_push_commit :: "'f session \<Rightarrow> hash \<Rightarrow> stored_commit \<Rightarrow> 'f registry \<Rightarrow> bool attempt \<times> 'f registry" where
  "vc_push_commit v h sc s =
     (case send (\<lambda>s. case vc_caller v of None \<Rightarrow> (401, s)
              | Some cl \<Rightarrow> (case push_commit (vc_cfg v) cl (stored_json h sc) (rg_commits s) of
                      (r, d) \<Rightarrow> (reply_status r, s\<lparr>rg_commits := d\<rparr>))) s of
        (None, s') \<Rightarrow> (Done False, s')
      | (Some st, s') \<Rightarrow> (if st = 401 then Raised ''AuthenticationError'' else Done (st = 201 \<or> st = 409), s'))"

text \<open>The current hash of a lost race is read from the answer.\<close>

definition race_current :: "reply \<Rightarrow> hash option" where
  "race_current r =
     (case r of Fail _ (JObj fs) \<Rightarrow> (case field fs ''current'' JNull of JStr h \<Rightarrow> Some h | _ \<Rightarrow> None) | _ \<Rightarrow> None)"

definition vc_update_ref ::
  "'f session \<Rightarrow> string \<Rightarrow> hash \<Rightarrow> hash option \<Rightarrow> 'f registry \<Rightarrow> ref_answer \<times> 'f registry" where
  "vc_update_ref v name h expected s =
     (case send (\<lambda>s. case vc_caller v of None \<Rightarrow> (Fail 401 JNull, s)
              | Some cl \<Rightarrow> (case update_ref cl name h expected (rg_refs s) of (r, d) \<Rightarrow> (r, s\<lparr>rg_refs := d\<rparr>))) s of
        (None, s') \<Rightarrow> (RefDone False, s')
      | (Some r, s') \<Rightarrow>
          (if reply_status r = 401 then RefUnauthorized
           else if reply_status r = 409 then RefRace (race_current r)
           else RefDone (reply_status r = 200), s'))"

text \<open>The check changes nothing on the registry; a failed request finds nothing.\<close>

definition vc_batch_check_objects :: "'f session \<Rightarrow> hash list \<Rightarrow> 'f registry \<Rightarrow> hash list attempt \<times> 'f registry" where
  "vc_batch_check_objects v hs s =
     (if hs = [] then (Done [], s)
      else (case send (\<lambda>s. (if vc_caller v = None then None
                          else Some (fst (check_objects_batch (vc_ops v) (vc_request v) hs (rg_objects s))), s)) s of
              (None, s') \<Rightarrow> (Done [], s')
            | (Some None, s') \<Rightarrow> (Raised ''AuthenticationError'', s')
            | (Some (Some found), s') \<Rightarrow> (Done found, s')))"

definition vault_client :: "'f session \<Rightarrow> 'f registry client" where
  "vault_client v =
     \<lparr>cl_available = server_available, cl_check = vc_batch_check_objects v,
      cl_upload = vc_upload_object v, cl_push = vc_push_commit v, cl_ref = vc_update_ref v\<rparr>"

section \<open>The registry keeps commits\<close>

definition holds :: "hash \<Rightarrow> 'f registry \<Rightarrow> bool" where
  "holds h s \<longleftrightarrow> find_commit (JStr h) (rg_commits s) \<noteq> None"

lemma push_commit_keeps_found:
  assumes "find_commit (JStr x) s \<noteq> None" and "push_commit cfg cl b s = (r, s')"
  shows "find_commit (JStr x) s' \<noteq> None"
proof (cases rule: push_commit_cases[of cfg cl b s])
  case (refused r')
  then show ?thesis using assms by simp
next
  case (stored h raw_tree metrics tags project tree ts s'')
  from stored(7) obtain trees' rh parents where
    "cm_commits s'' = cm_commits s @ [commit_of_body cl b h project parents ts rh metrics tags]"
    by (rule store_commit_cases)
  then show ?thesis using assms stored(1) by (auto simp: find_commit_def find_row_append)
qed

lemma check_sizes_refusal: "check_sizes b = Inl r \<Longrightarrow> reply_status r = 422 \<or> reply_status r = 500"
  by (auto simp: check_sizes_def split: json.splits if_splits option.splits)

lemma push_commit_accepted:
  assumes "push_commit cfg cl b s = (r, s')" and "field b ''hash'' (JStr []) = JStr h"
    and "reply_status r = 201 \<or> reply_status r = 409"
  shows "find_commit (JStr h) s' \<noteq> None"
proof (cases "find_commit (JStr h) s")
  case (Some c)
  then show ?thesis using push_commit_keeps_found[OF _ assms(1)] by simp
next
  case None
  show ?thesis
  proof (cases rule: push_commit_cases[of cfg cl b s])
    case (refused r')
    have "reply_status r \<noteq> 201 \<and> reply_status r \<noteq> 409"
      using assms(1,2) refused None
      by (auto simp: push_commit_def dest!: check_sizes_refusal split: if_splits sum.splits option.splits prod.splits)
    then show ?thesis using assms(3) by simp
  next
    case (stored h' raw_tree metrics tags project tree ts s'')
    from stored(7) obtain trees' rh parents where
      "cm_commits s'' = cm_commits s @ [commit_of_body cl b h' project parents ts rh metrics tags]"
      by (rule store_commit_cases)
    moreover have "find_row (\<lambda>c. JStr (co_hash c)) (JStr h')
        [commit_of_body cl b h' project parents ts rh metrics tags] \<noteq> None"
      by (simp add: find_row_def commit_of_body_def)
    ultimately show ?thesis using assms(1,2) stored(1,2)
      by (auto simp: find_commit_def find_row_append split: option.split)
  qed
qed

lemma stored_json_hash: "field (stored_json h sc) ''hash'' (JStr []) = JStr h"
  by (simp add: stored_json_def payload_def opt_field_def field_def dget_or_def split: option.split)

lemma send_keeps:
  assumes "send f s = (r, s')" and "holds h s"
    and "\<And>x. holds h x \<Longrightarrow> holds h (snd (f x))"
  shows "holds h s'"
proof -
  let ?s = "s\<lparr>rg_faults := tl (rg_faults s)\<rparr>"
  have "holds h ?s" using assms(2) by (simp add: holds_def)
  then have "holds h (snd (f ?s))" by (rule assms(3))
  then show ?thesis using assms(1) \<open>holds h ?s\<close>
    by (auto simp: send_def Let_def split: fault.splits prod.splits)
qed

lemma holds_fields [simp]:
  "holds h (s\<lparr>rg_refs := rf\<rparr>) = holds h s" "holds h (s\<lparr>rg_objects := ob\<rparr>) = holds h s"
  "holds h (s\<lparr>rg_faults := fs\<rparr>) = holds h s" "holds h (s\<lparr>rg_times := ts\<rparr>) = holds h s"
  "holds h (s\<lparr>rg_probe := pr\<rparr>) = holds h s"
  by (simp_all add: holds_def)

lemma push_keeps_holds:
  assumes "holds x s" and "push_commit cfg cl b (rg_commits s) = (r, d)"
  shows "holds x (s\<lparr>rg_commits := d\<rparr>)"
  using push_commit_keeps_found[OF _ assms(2)] assms(1) by (simp add: holds_def)

lemma server_available_keeps:
  assumes "holds x s" and "server_available s = (ok, s')"
  shows "holds x s'"
proof -
  define s0 where "s0 = s\<lparr>rg_times := tl (rg_times s)\<rparr>"
  obtain a s1 where a: "send (\<lambda>s. ((), s)) s0 = (a, s1)" by fastforce
  have "holds x s0" using assms(1) by (simp add: s0_def)
  then have "holds x s1" by (rule send_keeps[OF a]) simp
  then show ?thesis using assms(2) \<open>holds x s0\<close>
    by (auto simp: server_available_def Let_def s0_def[symmetric] a split: option.splits if_splits)
qed

lemma batch_check_keeps:
  fixes s :: "'a registry"
  assumes "holds x s" and "vc_batch_check_objects v hs s = (r, s')"
  shows "holds x s'"
proof (cases "hs = []")
  case True
  then show ?thesis using assms by (simp add: vc_batch_check_objects_def)
next
  case False
  define f where "f s = (if vc_caller v = None then None
    else Some (fst (check_objects_batch (vc_ops v) (vc_request v) hs (rg_objects s))), s)" for s :: "'a registry"
  obtain a s1 where a: "send f s = (a, s1)" by fastforce
  have "holds x s1" using assms(1) by (rule send_keeps[OF a]) (simp add: f_def)
  moreover have "s' = s1"
    using assms(2) False a unfolding vc_batch_check_objects_def f_def[abs_def] by (auto split: option.splits)
  ultimately show ?thesis by simp
qed

lemma vault_client_keeps: "kept_by_calls (vault_client v) (holds x)"
proof
  fix s s' :: "'a registry" and ok
  assume "holds x s" and "cl_available (vault_client v) s = (ok, s')"
  then show "holds x s'" by (simp add: vault_client_def server_available_keeps)
next
  fix s s' :: "'a registry" and hs found
  assume "holds x s" and "cl_check (vault_client v) hs s = (found, s')"
  then show "holds x s'" by (simp add: vault_client_def batch_check_keeps)
next
  fix s s' :: "'a registry" and h b r
  assume "holds x s" and call: "cl_upload (vault_client v) h b s = (r, s')"
  obtain a s1 where a: "send (\<lambda>s. if vc_caller v = None then (401, s)
              else (case upload_object (vc_ops v) (vc_sha v) (vc_request v) h \<lparr>b_chunks = [b], b_error = None\<rparr> (rg_objects s) of
                      (d, r) \<Rightarrow> (http_status r, s\<lparr>rg_objects := d\<rparr>))) s = (a, s1)" by fastforce
  have "holds x s1" using \<open>holds x s\<close> by (rule send_keeps[OF a]) (simp split: prod.split)
  moreover have "s' = s1" using call a by (simp add: vault_client_def vc_upload_object_def split: option.splits)
  ultimately show "holds x s'" by simp
next
  fix s s' :: "'a registry" and h sc r
  assume "holds x s" and call: "cl_push (vault_client v) h sc s = (r, s')"
  obtain a s1 where a: "send (\<lambda>s. case vc_caller v of None \<Rightarrow> (401, s)
              | Some cl \<Rightarrow> (case push_commit (vc_cfg v) cl (stored_json h sc) (rg_commits s) of
                      (r, d) \<Rightarrow> (reply_status r, s\<lparr>rg_commits := d\<rparr>))) s = (a, s1)" by fastforce
  have "holds x s1" using \<open>holds x s\<close>
    by (rule send_keeps[OF a]) (auto split: option.split prod.split intro: push_keeps_holds)
  moreover have "s' = s1" using call a by (simp add: vault_client_def vc_push_commit_def split: option.splits)
  ultimately show "holds x s'" by simp
next
  fix s s' :: "'a registry" and nm h e a
  assume "holds x s" and call: "cl_ref (vault_client v) nm h e s = (a, s')"
  obtain b s1 where b: "send (\<lambda>s. case vc_caller v of None \<Rightarrow> (Fail 401 JNull, s)
      | Some cl \<Rightarrow> (case update_ref cl nm h e (rg_refs s) of (r, d) \<Rightarrow> (r, s\<lparr>rg_refs := d\<rparr>))) s = (b, s1)"
    by fastforce
  have "holds x s1" using \<open>holds x s\<close> by (rule send_keeps[OF b]) (simp split: option.split prod.split)
  moreover have "s' = s1" using call b by (simp add: vault_client_def vc_update_ref_def split: option.splits)
  ultimately show "holds x s'" by simp
qed

interpretation vault: registry_client "vault_client v" holds for v :: "'f session"
proof (rule registry_client.intro)
  fix h sc and s s' :: "'f registry"
  assume "cl_push (vault_client v) h sc s = (Done True, s')"
  then have call: "vc_push_commit v h sc s = (Done True, s')" by (simp add: vault_client_def)
  let ?s = "s\<lparr>rg_faults := tl (rg_faults s)\<rparr>"
  obtain cl where cl: "vc_caller v = Some cl" and ok: "next_fault s = Delivered"
    using call by (cases "vc_caller v"; cases "next_fault s") (auto simp: vc_push_commit_def send_def Let_def)
  obtain r d where p: "push_commit (vc_cfg v) cl (stored_json h sc) (rg_commits ?s) = (r, d)"
    by (cases "push_commit (vc_cfg v) cl (stored_json h sc) (rg_commits ?s)")
  have "s' = ?s\<lparr>rg_commits := d\<rparr>" "reply_status r = 201 \<or> reply_status r = 409"
    using call p by (auto simp: vc_push_commit_def send_def Let_def cl ok split: if_splits)
  then show "holds h s'" using push_commit_accepted[OF p stored_json_hash] by (simp add: holds_def)
next
  show "kept_by_calls (vault_client v) (holds h)" for h by (rule vault_client_keeps)
qed

section \<open>No commit is lost\<close>

text \<open>What others do on the registry: pushes of commits, and anything to references and objects. The network, the
  clock and the cached probe (each process has its own) change freely.\<close>

inductive registry_step :: "commit_config \<Rightarrow> 'f registry \<Rightarrow> 'f registry \<Rightarrow> bool" for cfg where
  pushed: "push_commit cfg cl b (rg_commits s) = (r, d) \<Longrightarrow> registry_step cfg s (s\<lparr>rg_commits := d\<rparr>)"
| other: "registry_step cfg s (s\<lparr>rg_refs := rf, rg_objects := ob, rg_faults := fs, rg_times := ts, rg_probe := pr\<rparr>)"

lemma registry_step_keeps: "registry_step cfg s s' \<Longrightarrow> holds h s \<Longrightarrow> holds h s'"
  by (induction rule: registry_step.induct) (simp_all add: push_keeps_holds)

text \<open>
  C2. Whatever order commits, merges, interrupted commits, flushes and other work come in, whatever
  requests and replies the network loses (the first one after a successful probe included) and whatever
  others push meanwhile: every commit that was finished, or that a branch was left at by a killed commit,
  is still queued, or held by the registry, or was dropped from the queue by a merge of it that the
  registry holds. The queue starts empty and stays readable, and no commit file is deleted.
\<close>

theorem made_commit_queued_or_held:
  assumes "repo_run (vault_client v) (registry_step cfg) l s M D" and "h \<in> set M"
  shows "is_queued l h \<or> find_commit (JStr h) (rg_commits s) \<noteq> None
    \<or> (\<exists>m. (h, m) \<in> set D \<and> find_commit (JStr m) (rg_commits s) \<noteq> None)"
proof -
  have "safe (covered holds D) l s M"
    using vault.run_safe[OF assms(1)] registry_step_keeps by blast
  then show ?thesis using assms(2) by (auto simp: safe_def list_all_iff holds_def covered_def)
qed

definition demo_session :: "hash set session" where
  "demo_session = \<lparr>vc_ops = exact_ops, vc_sha = (\<lambda>_. ''e''), vc_cfg = demo_commit_config,
     vc_caller = Some demo_caller, vc_request = toy_request\<rparr>"

definition demo_registry :: "hash set registry" where
  "demo_registry = \<lparr>rg_commits = demo_commits, rg_refs = demo_refs, rg_objects = empty_objects, rg_faults = [],
     rg_times = [], rg_probe = None\<rparr>"

definition demo_env :: "hash set registry commit_env" where
  "demo_env = \<lparr>ce_sha = (\<lambda>_. replicate 64 CHR ''c''), ce_canon_ts = (\<lambda>_. None), ce_sign = (\<lambda>_ _. None),
     ce_client = vault_client demo_session, ce_snapshot = None, ce_author = ''a'', ce_now = ''t'',
     ce_project_id = ''p'', ce_project_name = ''p''\<rparr>"

text \<open>A commit without local objects, made with the upload deferred and flushed afterwards.\<close>

definition demo_bare :: lrepo where
  "demo_bare = demo_repo\<lparr>lr_objs := []\<rparr>"

definition demo_made :: "fin_result option attempt \<times> lrepo \<times> hash set registry" where
  "demo_made = commit_staged demo_env ''m'' [] [] None True (lr_index demo_bare) demo_bare demo_registry"

definition demo_flushed :: "q_entry list attempt \<times> lrepo \<times> hash set registry" where
  "demo_flushed = (case demo_made of (r, l, s) \<Rightarrow> flush_pending_push (vault_client demo_session) None [] l s)"

lemma made_commit_queued_or_held_witness:
  "case demo_flushed of (r, l, s) \<Rightarrow>
     repo_run (vault_client demo_session) (registry_step demo_commit_config) l s [replicate 64 CHR ''c''] []
     \<and> queued_list l = [] \<and> find_commit (JStr (replicate 64 CHR ''c'')) (rg_commits s) \<noteq> None"
proof -
  obtain r1 l1 s1 where m: "demo_made = (r1, l1, s1)" by (cases demo_made)
  obtain r2 l2 s2 where f: "demo_flushed = (r2, l2, s2)" by (cases demo_flushed)
  have "made (fst demo_made) = [replicate 64 CHR ''c'']" and "queued_list (fst (snd demo_flushed)) = []"
    by code_simp+
  then have made: "made r1 = [replicate 64 CHR ''c'']" and q: "queued_list l2 = []" by (simp_all add: m f)
  have "repo_run (vault_client demo_session) (registry_step demo_commit_config) demo_bare demo_registry [] []"
    by (rule repo_run.start) (simp add: demo_bare_def demo_repo_def)
  from repo_run.commit[OF this _ m[unfolded demo_made_def]]
  have "repo_run (vault_client demo_session) (registry_step demo_commit_config) l1 s1 [replicate 64 CHR ''c''] []"
    by (simp add: made demo_env_def)
  from repo_run.flush[OF this, of None "[]" r2 l2 s2]
  have run: "repo_run (vault_client demo_session) (registry_step demo_commit_config) l2 s2 [replicate 64 CHR ''c''] []"
    using f by (simp add: demo_flushed_def m)
  from made_commit_queued_or_held[OF run, of "replicate 64 CHR ''c''"] q run show ?thesis
    by (simp add: f is_queued_def)
qed

end
