(* ===== verification/Scoped.thy ===== *)
theory Scoped
  imports Delivery
begin

text \<open>
  The machine-driven commit of given paths: \<open>core.py::commit_scoped_paths\<close>, which the framework plugins
  call, and the precedence of run ids, \<open>core.py::resolve_run_id\<close>. A directory argument stands for the
  files its walk yields (\<open>Ignore\<close>).
\<close>

section \<open>The run of a commit\<close>

text \<open>Explicit argument, environment, the recorded state of \<open>av run start\<close>; a state file that cannot be
  read or parsed is \<open>None\<close>.\<close>

definition resolve_run_id :: "string option \<Rightarrow> string option \<Rightarrow> string option \<Rightarrow> string option" where
  "resolve_run_id explicit env_run state =
     (case explicit of Some (c # cs) \<Rightarrow> Some (c # cs)
      | _ \<Rightarrow> (case env_run of Some (c # cs) \<Rightarrow> Some (c # cs) | _ \<Rightarrow> state))"

section \<open>Staging and scoping\<close>

fun stage_targets ::
  "stage_env \<Rightarrow> (string \<times> string list) list \<Rightarrow> path list \<Rightarrow> worktree \<Rightarrow> objs \<Rightarrow> index
   \<Rightarrow> unit attempt \<times> worktree \<times> objs \<times> index" where
  "stage_targets env rules [] w os ix = (Done (), w, os, ix)"
| "stage_targets env rules (p # ps) w os ix =
     (if \<not> has_key w p \<or> endswith p ''.av-pointer'' then stage_targets env rules ps w os ix
      else (case stage_one_file env w os ix p (flags_for rules p) of
              (Raised e, w', os', ix') \<Rightarrow> (Raised e, w', os', ix')
            | (Done _, w', os', ix') \<Rightarrow> stage_targets env rules ps w' os' ix'))"

text \<open>New paths, paths with new bytes, paths this staging staged.\<close>

definition in_scope :: "(path, ientry) dict \<Rightarrow> path \<Rightarrow> ientry \<Rightarrow> bool" where
  "in_scope saved p e \<longleftrightarrow>
     (case dget saved p of
        None \<Rightarrow> True
      | Some old \<Rightarrow> ie_hash e \<noteq> ie_hash old \<or> ie_staged e \<and> \<not> ie_staged old)"

definition scope_index :: "(path, ientry) dict \<Rightarrow> index \<Rightarrow> index" where
  "scope_index saved ix = ix\<lparr>ix_entries := filter (\<lambda>(p, e). in_scope saved p e) (ix_entries ix)\<rparr>"

definition put_back :: "path \<times> ientry \<Rightarrow> index \<Rightarrow> index" where
  "put_back x ix =
     (if has_key (ix_entries ix) (fst x) then ix
      else ix\<lparr>ix_entries := dset (ix_entries ix) (fst x) (snd x)\<rparr>)"

text \<open>The index the function leaves: what it holds in memory, with every other saved entry put back. A
  finished commit has cleared the flags of the scoped index before.\<close>

definition commit_scoped_paths ::
  "stage_env \<Rightarrow> 's commit_env \<Rightarrow> (string \<times> string list) list \<Rightarrow> path list \<Rightarrow> string \<Rightarrow> string list
   \<Rightarrow> (string \<times> json) list \<Rightarrow> string option \<Rightarrow> worktree \<Rightarrow> lrepo \<Rightarrow> 's
   \<Rightarrow> fin_result option attempt \<times> worktree \<times> lrepo \<times> 's" where
  "commit_scoped_paths senv env rules targets message tags metrics run w l s =
     (let saved = ix_entries (lr_index l) in
      (case stage_targets senv rules targets w (lr_objs l) (lr_index l) of
         (Raised e, w', os, ix) \<Rightarrow>
           (Raised e, w', l\<lparr>lr_objs := os, lr_index := fold put_back saved ix\<rparr>, s)
       | (Done _, w', os, ix) \<Rightarrow>
           (let scoped = scope_index saved ix in
            case commit_staged env message tags metrics run False scoped (l\<lparr>lr_objs := os\<rparr>) s of
              (r, l', s') \<Rightarrow>
                (let after = (case r of Done (Some _) \<Rightarrow> clear_staged scoped | _ \<Rightarrow> scoped) in
                 (r, w', l'\<lparr>lr_index := fold put_back saved after\<rparr>, s')))))"

section \<open>Other staged work is left alone\<close>

lemma stage_result_path:
  "compute_stage_result env w os rel ty ex flags = (Done (Some r), w', os') \<Longrightarrow> sr_path r = rel"
  by (auto simp: compute_stage_result_def Let_def split: if_splits option.splits prod.splits)

lemma stage_one_file_frame:
  assumes "stage_one_file env w os ix rel flags = (r, w', os', ix')" and "index_wf ix"
  shows "index_wf ix'" and "p \<noteq> rel \<Longrightarrow> dget (ix_entries ix') p = dget (ix_entries ix) p"
proof -
  obtain c w1 os1 where c: "compute_stage_result env w os rel (classify_file rel) (dget (ix_entries ix) rel) flags = (c, w1, os1)"
    by (cases "compute_stage_result env w os rel (classify_file rel) (dget (ix_entries ix) rel) flags")
  have "ix' = ix \<or> (\<exists>x. c = Done (Some x) \<and> ix' = apply_stage_result ix x)"
    using assms(1) by (auto simp: stage_one_file_def c split: attempt.splits option.splits)
  then show "index_wf ix'" and "p \<noteq> rel \<Longrightarrow> dget (ix_entries ix') p = dget (ix_entries ix) p"
    using assms(2) c by (auto simp: dget_apply_stage_result dest: stage_result_path intro: index_wf_apply)
qed

lemma stage_targets_frame:
  assumes "stage_targets env rules ps w os ix = (r, w', os', ix')" and "index_wf ix"
  shows "index_wf ix' \<and> (p \<notin> set ps \<longrightarrow> dget (ix_entries ix') p = dget (ix_entries ix) p)"
  using assms
proof (induction ps arbitrary: w os ix)
  case (Cons q ps)
  show ?case
  proof (cases "\<not> has_key w q \<or> endswith q ''.av-pointer''")
    case True
    then have "stage_targets env rules ps w os ix = (r, w', os', ix')" using Cons.prems(1) by auto
    then show ?thesis using Cons.IH Cons.prems(2) by auto
  next
    case False
    obtain r1 w1 os1 ix1 where o: "stage_one_file env w os ix q (flags_for rules q) = (r1, w1, os1, ix1)"
      by (cases "stage_one_file env w os ix q (flags_for rules q)")
    note fr = stage_one_file_frame[OF o Cons.prems(2)]
    show ?thesis
    proof (cases r1)
      case (Raised e)
      then have "ix' = ix1" using Cons.prems(1) False o by auto
      then show ?thesis using fr by simp
    next
      case (Done b)
      then have "stage_targets env rules ps w1 os1 ix1 = (r, w', os', ix')" using Cons.prems(1) False o by auto
      then show ?thesis using Cons.IH[OF _ fr(1)] fr(2) by simp
    qed
  qed
qed simp

lemma dget_filter:
  "dict_wf d \<Longrightarrow> dget (filter (\<lambda>(k, v). P k v) d) k =
     (case dget d k of None \<Rightarrow> None | Some v \<Rightarrow> if P k v then Some v else None)"
proof (induction d)
  case (Cons x d)
  obtain k' v' where x: "x = (k', v')" by (cases x)
  have "dict_wf d" "k' \<notin> fst ` set d" using Cons.prems by (auto simp: dict_wf_def x)
  moreover have "dget d k' = None" using \<open>k' \<notin> fst ` set d\<close> by (simp add: map_of_eq_None_key)
  ultimately show ?case using Cons.IH by (auto simp: x)
qed simp

lemma dget_put_back:
  "dget (ix_entries (fold put_back saved ix)) p =
     (case dget (ix_entries ix) p of Some e \<Rightarrow> Some e | None \<Rightarrow> dget saved p)"
proof (induction saved arbitrary: ix)
  case (Cons x saved)
  have "dget (ix_entries (put_back x ix)) p
      = (case dget (ix_entries ix) p of Some e \<Rightarrow> Some e | None \<Rightarrow> if p = fst x then Some (snd x) else None)"
  proof (cases "dget (ix_entries ix) (fst x)")
    case None
    then have "\<not> has_key (ix_entries ix) (fst x)" by (simp only: has_key_dget) simp
    then show ?thesis using None by (simp add: put_back_def split: option.split)
  next
    case (Some e)
    then have "has_key (ix_entries ix) (fst x)" by (simp only: has_key_dget) simp
    then show ?thesis using Some by (auto simp: put_back_def split: option.split)
  qed
  then show ?case using Cons.IH by (auto simp: Cons.IH split: option.split)
qed (simp split: option.split)

text \<open>
  C38. A scoped commit leaves every path that is not one of its targets as it was in the index, staged or
  not, whether the commit is made, finds nothing new, or an exception ends it.
\<close>

theorem scoped_commit_leaves_rest:
  assumes "commit_scoped_paths senv env rules targets message tags metrics run w l s = (r, w', l', s')"
    and "index_wf (lr_index l)" and "p \<notin> set targets"
  shows "dget (ix_entries (lr_index l')) p = dget (ix_entries (lr_index l)) p"
proof -
  let ?saved = "ix_entries (lr_index l)"
  obtain a w1 os ix where st: "stage_targets senv rules targets w (lr_objs l) (lr_index l) = (a, w1, os, ix)"
    by (cases "stage_targets senv rules targets w (lr_objs l) (lr_index l)")
  have wf: "index_wf ix" and same: "dget (ix_entries ix) p = dget ?saved p"
    using stage_targets_frame[OF st assms(2)] assms(3) by simp_all
  have scoped: "dget (ix_entries (scope_index ?saved ix)) p = None"
    using wf by (simp add: scope_index_def index_wf_def dget_filter same in_scope_def split: option.split)
  show ?thesis
  proof (cases a)
    case (Raised e)
    then show ?thesis using assms(1) by (auto simp: commit_scoped_paths_def st dget_put_back same split: option.split)
  next
    case (Done u)
    obtain r1 l1 s1 where c: "commit_staged env message tags metrics run False (scope_index ?saved ix) (l\<lparr>lr_objs := os\<rparr>) s = (r1, l1, s1)"
      by (cases "commit_staged env message tags metrics run False (scope_index ?saved ix) (l\<lparr>lr_objs := os\<rparr>) s")
    define after where "after = (case r1 of Done (Some _) \<Rightarrow> clear_staged (scope_index ?saved ix) | _ \<Rightarrow> scope_index ?saved ix)"
    have l': "lr_index l' = fold put_back ?saved after"
      using assms(1) Done by (auto simp: commit_scoped_paths_def st c after_def Let_def)
    have "dget (ix_entries after) p = None"
      using scoped by (auto simp: after_def dget_clear_staged split: attempt.split option.split)
    then show ?thesis by (simp add: l' dget_put_back)
  qed
qed

section \<open>Concrete scoped commits\<close>

definition plain_stage :: stage_env where
  "plain_stage = \<lparr>se_sha = (\<lambda>b. CHR ''h'' # b), se_core = None, se_fused = True, se_threshold = 9,
     se_writable = (\<lambda>_. True), se_stamp = (\<lambda>_. 0)\<rparr>"

definition plain_env :: "hash list commit_env" where
  "plain_env = \<lparr>ce_sha = (\<lambda>_. ''c''), ce_canon_ts = (\<lambda>_. None), ce_sign = (\<lambda>_ _. None), ce_client = refusing [],
     ce_snapshot = None, ce_author = ''a'', ce_now = ''t'', ce_project_id = ''p'', ce_project_name = ''p''\<rparr>"

definition clean_entry :: "hash \<Rightarrow> bool \<Rightarrow> ientry" where
  "clean_entry h staged = \<lparr>ie_hash = h, ie_size = 1, ie_mtime = 0, ie_type = ''code'', ie_staged = staged,
     ie_pointer = None, ie_layers = [], ie_chunks = []\<rparr>"

definition two_files :: worktree where
  "two_files = [(''f'', \<lparr>wf_bytes = ''x'', wf_mtime = 0\<rparr>), (''g'', \<lparr>wf_bytes = ''y'', wf_mtime = 0\<rparr>)]"

definition committed_repo :: "path list \<Rightarrow> bool \<Rightarrow> lrepo" where
  "committed_repo removed staged = demo_repo\<lparr>lr_heads := [(''main'', ''b'')], lr_objs := [],
     lr_index := \<lparr>ix_entries = [(''f'', clean_entry ''hx'' staged)], ix_removed = removed\<rparr>\<rparr>"

lemma scoped_commit_leaves_rest_witness:
  "case commit_scoped_paths plain_stage plain_env [] [''g''] ''m'' [] [] None two_files (committed_repo [] True) [] of
     (r, w', l', s') \<Rightarrow> map_option ie_staged (dget (ix_entries (lr_index l')) ''f'') = Some True"
proof -
  obtain r w' l' s' where c: "commit_scoped_paths plain_stage plain_env [] [''g''] ''m'' [] [] None two_files
      (committed_repo [] True) [] = (r, w', l', s')"
    by (cases "commit_scoped_paths plain_stage plain_env [] [''g''] ''m'' [] [] None two_files (committed_repo [] True) []")
  have "dget (ix_entries (lr_index l')) ''f'' = dget (ix_entries (lr_index (committed_repo [] True))) ''f''"
    by (rule scoped_commit_leaves_rest[OF c]) (simp_all add: committed_repo_def index_wf_def dict_wf_def)
  also have "\<dots> = Some (clean_entry ''hx'' True)" by (simp add: committed_repo_def)
  finally show ?thesis by (simp add: c clean_entry_def)
qed

text \<open>
  The tree of a scoped commit holds the scoped paths alone: the file \<open>f\<close>, tracked and unchanged since the
  commit before, is missing from the tree of the new tip.
\<close>

lemma scoped_commit_drops_tracked_files:
  "case commit_scoped_paths plain_stage plain_env [] [''g''] ''m'' [] [] None two_files (committed_repo [] False) [] of
     (r, w', l', s') \<Rightarrow> map_option (\<lambda>sc. dkeys (cd_tree (sc_data sc))) (dget (lr_commits l') ''c'') = Some [''g'']
        \<and> dkeys (ix_entries (lr_index l')) = [''g'', ''f'']"
  by code_simp

text \<open>
  With a removal staged, importing an unchanged file is no no-op: it makes a commit with an empty tree and
  the staged removal is gone.
\<close>

lemma scoped_noop_commits_empty_tree:
  "case commit_scoped_paths plain_stage plain_env [] [''f''] ''m'' [] [] None two_files (committed_repo [''d''] False) [] of
     (r, w', l', s') \<Rightarrow> map_option (\<lambda>sc. cd_tree (sc_data sc)) (dget (lr_commits l') ''c'') = Some []
        \<and> ix_removed (lr_index l') = []"
  by code_simp

end
