(* ===== verification/Sync.thy ===== *)
theory Sync
  imports Delivery TreeMerge
begin

text \<open>
  Talking to the registry about history: \<open>sync.py\<close> and the commands of \<open>cmd_sync.py\<close> built on it,
  \<open>av pull\<close>, \<open>av merge\<close>, \<open>av fetch\<close> and \<open>av clone\<close>, with \<open>fsutil.py::find_commit_file\<close>.

  The listing of a project's commits is the sequence of its page answers; a listing whose pages never
  end is outside the model. Answers of other calls do not change within one command.
\<close>

section \<open>Rows of the registry\<close>

text \<open>A commit row as the registry serves it; a missing or null field is \<open>None\<close> or empty.\<close>

record remote_row =
  rr_hash :: hash
  rr_parents :: "hash list"
  rr_parent_hash :: "hash option"
  rr_author :: string
  rr_timestamp :: string
  rr_message :: string
  rr_tree :: tree
  rr_tags :: "string list"
  rr_metrics :: "(string \<times> json) list"
  rr_project_id :: string
  rr_project_name :: string
  rr_signature :: json
  rr_env :: "hash option"

definition normalize_commit_row :: "remote_row \<Rightarrow> hash \<times> stored_commit" where
  "normalize_commit_row r =
     (rr_hash r,
      \<lparr>sc_data =
         \<lparr>cd_parents = (if rr_parents r = []
                        then (case rr_parent_hash r of Some (c # cs) \<Rightarrow> [c # cs] | _ \<Rightarrow> []) else rr_parents r),
          cd_author = (if rr_author r = [] then ''anonymous'' else rr_author r),
          cd_timestamp = rr_timestamp r, cd_message = rr_message r, cd_tree = rr_tree r, cd_tags = rr_tags r,
          cd_metrics = rr_metrics r, cd_project_id = rr_project_id r, cd_project_name = rr_project_name r,
          cd_run_id = None,
          cd_env = (case rr_env r of Some (c # cs) \<Rightarrow> Some (c # cs) | _ \<Rightarrow> None)\<rparr>,
       sc_signature = (if truthy (rr_signature r) then Some (rr_signature r) else None)\<rparr>)"

text \<open>One page: its rows and whether it names a next offset. No answer reads as an empty page.\<close>

datatype page = Page "remote_row list" bool | PageUnauthorized

text \<open>\<open>iter_project_commits\<close>: all rows, in the order of the pages.\<close>

fun iter_project_commits :: "page list \<Rightarrow> (hash \<times> stored_commit) list attempt" where
  "iter_project_commits [] = Done []"
| "iter_project_commits (PageUnauthorized # ps) = Raised ''AuthenticationError''"
| "iter_project_commits (Page rows has_next # ps) =
     (if rows = [] \<or> \<not> has_next then Done (map normalize_commit_row rows)
      else (case iter_project_commits ps of
              Raised e \<Rightarrow> Raised e
            | Done cs \<Rightarrow> Done (map normalize_commit_row rows @ cs)))"

section \<open>Projects and branches\<close>

record project =
  pj_id :: string
  pj_name :: string

definition resolve_project :: "project list \<Rightarrow> string \<Rightarrow> project attempt" where
  "resolve_project projects name_or_id =
     (if projects = [] then Raised ''ValidationError''
      else (case find (\<lambda>p. pj_id p = name_or_id) projects of
        Some p \<Rightarrow> Done p
      | None \<Rightarrow>
          (let exact = filter (\<lambda>p. pj_name p = name_or_id) projects;
               prefix = filter (\<lambda>p. startswith (pj_name p) name_or_id) projects;
               candidates = (if exact \<noteq> [] then exact else prefix) in
           (case candidates of [p] \<Rightarrow> Done p | _ \<Rightarrow> Raised ''ValidationError''))))"

definition branches_of :: "(string, hash) dict \<Rightarrow> string \<Rightarrow> string list" where
  "branches_of refs project_id =
     sort (filter (\<lambda>b. b \<noteq> [])
       (map (\<lambda>(name, _). drop (Suc (length project_id)) name)
         (filter (\<lambda>(name, _). startswith name (project_id @ ''/'')) refs)))"

definition pick_default_branch :: "(string, hash) dict \<Rightarrow> string \<Rightarrow> string option" where
  "pick_default_branch refs project_id =
     (let branches = branches_of refs project_id in
      case find (List.member branches) [''main'', ''master''] of
        Some b \<Rightarrow> Some b
      | None \<Rightarrow> (case branches of [] \<Rightarrow> None | b # _ \<Rightarrow> Some b))"

section \<open>Naming a commit\<close>

definition is_hex :: "string \<Rightarrow> bool" where
  "is_hex s \<longleftrightarrow> list_all (\<lambda>c. List.member ''0123456789abcdef'' c) (lower s)"

definition find_commit_file :: "(hash, 'c) dict \<Rightarrow> string \<Rightarrow> hash attempt" where
  "find_commit_file commits h =
     (if has_key commits h then Done h
      else if 4 \<le> length h \<and> length h < 64 \<and> is_hex h then
        (case filter (\<lambda>k. startswith k (lower h)) (dkeys commits) of
           [k] \<Rightarrow> Done k
         | [] \<Rightarrow> Raised ''FileNotFoundError''
         | _ \<Rightarrow> Raised ''AmbiguousCommitHash'')
      else Raised ''FileNotFoundError'')"

section \<open>av pull\<close>

record remote = net +
  rm_project :: string
  rm_project_name :: string
  rm_ref :: "string \<Rightarrow> hash option attempt"
  rm_pages :: "page list"
  rm_commit :: "string \<Rightarrow> remote_row option attempt"

text \<open>\<open>_resolve\<close>: pages are taken until the commit is known or the listing is exhausted.\<close>

fun resolve_commit ::
  "hash \<Rightarrow> (hash, stored_commit) dict \<Rightarrow> page list
   \<Rightarrow> stored_commit option attempt \<times> (hash, stored_commit) dict \<times> page list" where
  "resolve_commit h known [] = (Done (dget known h), known, [])"
| "resolve_commit h known (p # ps) =
     (if has_key known h then (Done (dget known h), known, p # ps)
      else (case p of
              PageUnauthorized \<Rightarrow> (Raised ''AuthenticationError'', known, p # ps)
            | Page rows has_next \<Rightarrow>
                (let known' = fold (\<lambda>r k. dset k (fst (normalize_commit_row r)) (snd (normalize_commit_row r))) rows known in
                 if rows = [] \<or> \<not> has_next then (Done (dget known' h), known', [])
                 else resolve_commit h known' ps)))"

definition page_hashes :: "page list \<Rightarrow> hash set" where
  "page_hashes ps = (\<Union>p \<in> set ps. case p of Page rows _ \<Rightarrow> rr_hash ` set rows | PageUnauthorized \<Rightarrow> {})"

lemma finite_page_hashes [simp]: "finite (page_hashes ps)"
  by (auto simp: page_hashes_def split: page.split)

lemma page_hashes_Cons:
  "page_hashes (p # ps) = (case p of Page rows _ \<Rightarrow> rr_hash ` set rows | PageUnauthorized \<Rightarrow> {}) \<union> page_hashes ps"
  by (simp add: page_hashes_def)

lemma psubset_step: "A \<subseteq> B \<Longrightarrow> x \<in> A \<Longrightarrow> x \<notin> C \<Longrightarrow> A - insert x C \<subset> B - C"
  by blast

lemma keys_learned:
  "fst ` set (fold (\<lambda>r k. dset k (fst (normalize_commit_row r)) (snd (normalize_commit_row r))) rows known)
     = fst ` set known \<union> rr_hash ` set rows"
proof (induction rows arbitrary: known)
  case (Cons r rows)
  then show ?case by (auto simp: normalize_commit_row_def)
qed simp

lemma resolve_commit_keys:
  "resolve_commit h known ps = (r, known', ps') \<Longrightarrow>
     fst ` set known' \<union> page_hashes ps' \<subseteq> fst ` set known \<union> page_hashes ps
     \<and> (r = Done (Some sc) \<longrightarrow> h \<in> fst ` set known')"
proof (induction h known ps arbitrary: r known' ps' rule: resolve_commit.induct)
  case (1 h known)
  then show ?case by (auto simp: map_of_Some_key)
next
  case (2 h known p ps)
  let ?learn = "\<lambda>rows. fold (\<lambda>r k. dset k (fst (normalize_commit_row r)) (snd (normalize_commit_row r))) rows known"
  show ?case
  proof (cases "has_key known h")
    case True
    then show ?thesis using "2.prems" by auto
  next
    case nk: False
    show ?thesis
    proof (cases p)
      case PageUnauthorized
      then show ?thesis using "2.prems" nk by (auto simp: page_hashes_def)
    next
      case (Page rows has_next)
      show ?thesis
      proof (cases "rows = [] \<or> \<not> has_next")
        case True
        then have out: "known' = ?learn rows" "ps' = []" "r = Done (dget known' h)"
          using "2.prems" nk Page by (auto simp: Let_def)
        have "fst ` set known' \<union> page_hashes ps' \<subseteq> fst ` set known \<union> page_hashes (p # ps)"
          unfolding out(1,2) keys_learned page_hashes_Cons Page by (simp add: page_hashes_def) blast
        moreover have "r = Done (Some sc) \<longrightarrow> h \<in> fst ` set known'"
          using map_of_Some_key[of known' h sc] by (simp add: out(3))
        ultimately show ?thesis by blast
      next
        case False
        have ih: "fst ` set known' \<union> page_hashes ps' \<subseteq> fst ` set (?learn rows) \<union> page_hashes ps
            \<and> (r = Done (Some sc) \<longrightarrow> h \<in> fst ` set known')"
          using "2.IH"[OF nk Page refl False] "2.prems" nk Page False by (simp add: Let_def)
        then show ?thesis unfolding keys_learned page_hashes_Cons Page by auto
      qed
    qed
  qed
qed

lemma walk_decreases:
  assumes "\<not> (cursor = local_tip \<or> has_key commits cursor)"
    and "resolve_commit cursor known ps = (Done (Some sc), known', ps')"
  shows "card (fst ` set known' \<union> page_hashes ps' - fst ` set (dset commits cursor sc))
     < card (fst ` set known \<union> page_hashes ps - fst ` set commits)"
proof -
  from assms(1) have n: "cursor \<notin> fst ` set commits" by simp
  from resolve_commit_keys[OF assms(2)] have
    "fst ` set known' \<union> page_hashes ps' \<subseteq> fst ` set known \<union> page_hashes ps" "cursor \<in> fst ` set known'" by auto
  then have "fst ` set known' \<union> page_hashes ps' - fst ` set (dset commits cursor sc)
      \<subset> fst ` set known \<union> page_hashes ps - fst ` set commits"
    unfolding keys_dset using n by (intro psubset_step) auto
  then show ?thesis by (simp add: psubset_card_mono)
qed

text \<open>The walk back along first parents, every new commit written as it is reached.\<close>

function walk_remote ::
  "hash \<Rightarrow> hash \<Rightarrow> (hash, stored_commit) dict \<Rightarrow> page list \<Rightarrow> (hash, stored_commit) dict
   \<Rightarrow> bool attempt \<times> (hash, stored_commit) dict" where
  "walk_remote local_tip cursor known ps commits =
     (if cursor = [] then (Done False, commits)
      else if cursor = local_tip \<or> has_key commits cursor then (Done True, commits)
      else (case resolve_commit cursor known ps of
              (Raised e, _, _) \<Rightarrow> (Raised e, commits)
            | (Done None, _, _) \<Rightarrow> (Raised ''validation'', commits)
            | (Done (Some sc), known', ps') \<Rightarrow>
                walk_remote local_tip (case cd_parents (sc_data sc) of [] \<Rightarrow> [] | p # _ \<Rightarrow> p)
                  known' ps' (dset commits cursor sc)))"
  by pat_completeness auto
termination
  by (relation "measure (\<lambda>(t, cursor, known, ps, commits).
        card (fst ` set known \<union> page_hashes ps - fst ` set commits))")
     (auto simp only: in_measure prod.case wf_measure dest!: sym [of _ "resolve_commit _ _ _"] intro: walk_decreases)

section \<open>Switching to a tree\<close>

definition objects_of :: "remote \<Rightarrow> net" where
  "objects_of rm = net.truncate rm"

text \<open>\<open>ensure_objects_local\<close>, then \<open>_materialize_tree\<close>. An exception leaves the index file alone.\<close>

definition switch_tree ::
  "(string \<Rightarrow> hash) \<Rightarrow> (path \<Rightarrow> int) \<Rightarrow> remote \<Rightarrow> tree \<Rightarrow> worktree \<Rightarrow> lrepo
   \<Rightarrow> unit attempt \<times> worktree \<times> lrepo" where
  "switch_tree sha stamp rm tree w l =
     (case ensure_objects_local sha (objects_of rm) tree (lr_objs l) of
        (Raised e, os) \<Rightarrow> (Raised e, w, l\<lparr>lr_objs := os\<rparr>)
      | (Done _, os) \<Rightarrow>
          (case materialize_tree sha (objects_of rm) stamp False (Flat tree) (lr_index l) w os of
             (Raised e, w', os') \<Rightarrow> (Raised e, w', l\<lparr>lr_objs := os'\<rparr>)
           | (Done ix, w', os') \<Rightarrow> (Done (), w', l\<lparr>lr_objs := os', lr_index := ix\<rparr>)))"

definition tree_of_commit :: "lrepo \<Rightarrow> hash \<Rightarrow> tree" where
  "tree_of_commit l h = (case dget (lr_commits l) h of None \<Rightarrow> [] | Some sc \<Rightarrow> cd_tree (sc_data sc))"

text \<open>Moving a branch file.\<close>

definition set_head :: "string \<Rightarrow> hash \<Rightarrow> lrepo \<Rightarrow> lrepo" where
  "set_head b h l = l\<lparr>lr_heads := dset (lr_heads l) b h\<rparr>"

section \<open>av pull\<close>

datatype pull_result = NoRemoteBranch | UpToDate hash | Pulled hash hash

definition fast_forward_ok :: "lrepo \<Rightarrow> bool \<Rightarrow> hash \<Rightarrow> hash \<Rightarrow> bool" where
  "fast_forward_ok l joined local_tip remote_tip \<longleftrightarrow>
     local_tip = [] \<or> joined \<and> is_ancestor (history (lr_commits l)) local_tip remote_tip"

text \<open>The part after the remote history is local.\<close>

definition integrate ::
  "(string \<Rightarrow> hash) \<Rightarrow> (path \<Rightarrow> int) \<Rightarrow> remote \<Rightarrow> bool \<Rightarrow> string \<Rightarrow> hash \<Rightarrow> hash \<Rightarrow> bool \<Rightarrow> worktree \<Rightarrow> lrepo
   \<Rightarrow> pull_result attempt \<times> worktree \<times> lrepo" where
  "integrate sha stamp rm force b local_tip remote_tip joined w l =
     (if \<not> fast_forward_ok l joined local_tip remote_tip then (Raised ''merge_conflict'', w, l)
      else if \<not> force \<and> collect_dirty_paths sha w (lr_index l) [] \<noteq> [] then (Raised ''validation'', w, l)
      else (case switch_tree sha stamp rm (tree_of_commit l remote_tip) w l of
              (Raised e, w', l') \<Rightarrow> (Raised e, w', l')
            | (Done _, w', l') \<Rightarrow> (Done (Pulled local_tip remote_tip), w', set_head b remote_tip l')))"

definition pull ::
  "(string \<Rightarrow> hash) \<Rightarrow> (path \<Rightarrow> int) \<Rightarrow> remote \<Rightarrow> bool \<Rightarrow> worktree \<Rightarrow> lrepo
   \<Rightarrow> pull_result attempt \<times> worktree \<times> lrepo" where
  "pull sha stamp rm force w l =
     (case lr_head l of
        Detached _ \<Rightarrow> (Raised ''validation'', w, l)
      | Attached b \<Rightarrow>
          (let local_tip = dget_or (lr_heads l) b [] in
           if \<not> nt_up rm then (Raised ''validation'', w, l)
           else (case rm_ref rm (rm_project rm @ ''/'' @ b) of
                   Raised e \<Rightarrow> (Raised e, w, l)
                 | Done None \<Rightarrow> (Done NoRemoteBranch, w, l)
                 | Done (Some remote_tip) \<Rightarrow>
                     if remote_tip = [] then (Done NoRemoteBranch, w, l)
                     else if remote_tip = local_tip then (Done (UpToDate local_tip), w, l)
                     else (case walk_remote local_tip remote_tip [] (rm_pages rm) (lr_commits l) of
                             (Raised e, cs) \<Rightarrow> (Raised e, w, l\<lparr>lr_commits := cs\<rparr>)
                           | (Done joined, cs) \<Rightarrow>
                               integrate sha stamp rm force b local_tip remote_tip joined w (l\<lparr>lr_commits := cs\<rparr>)))))"

section \<open>av merge\<close>

datatype side = NoPolicy | Ours | Theirs

datatype merge_result =
    MergeUpToDate
  | FastForwarded hash hash
  | Conflicted "path list"
  | MergedInto fin_result

text \<open>The target: a branch, a local commit by hash or prefix, a commit the registry has. A branch file
  may be empty.\<close>

definition resolve_target :: "remote \<Rightarrow> string \<Rightarrow> lrepo \<Rightarrow> hash attempt \<times> lrepo" where
  "resolve_target rm target l =
     (if has_key (lr_heads l) target then (Done (dget_or (lr_heads l) target []), l)
      else (case find_commit_file (lr_commits l) target of
              Done h \<Rightarrow> (Done h, l)
            | Raised e \<Rightarrow>
                if e = ''AmbiguousCommitHash'' then (Raised ''validation'', l)
                else if \<not> nt_up rm then (Done [], l)
                else (case rm_commit rm target of
                        Raised x \<Rightarrow> (Raised x, l)
                      | Done None \<Rightarrow> (Done [], l)
                      | Done (Some r) \<Rightarrow>
                          (case normalize_commit_row r of (h, sc) \<Rightarrow>
                             (Done h, l\<lparr>lr_commits := dset (lr_commits l) h sc\<rparr>)))))"

text \<open>The second chance for a commit whose file is missing.\<close>

definition ensure_commit :: "remote \<Rightarrow> hash \<Rightarrow> lrepo \<Rightarrow> unit attempt \<times> lrepo" where
  "ensure_commit rm h l =
     (if has_key (lr_commits l) h \<or> \<not> nt_up rm then (Done (), l)
      else (case rm_commit rm h of
              Raised x \<Rightarrow> (Raised x, l)
            | Done None \<Rightarrow> (Done (), l)
            | Done (Some r) \<Rightarrow>
                (case normalize_commit_row r of (h', sc) \<Rightarrow>
                   (Done (), l\<lparr>lr_commits := dset (lr_commits l) h' sc\<rparr>))))"

definition merge_message :: "string option \<Rightarrow> string \<Rightarrow> string \<Rightarrow> string" where
  "merge_message message target b =
     (case message of Some (c # cs) \<Rightarrow> c # cs | _ \<Rightarrow> ''Merge '' @ target @ '' into '' @ b)"

definition merge_data :: "'s commit_env \<Rightarrow> string \<Rightarrow> hash \<Rightarrow> hash \<Rightarrow> tree \<Rightarrow> commit_data" where
  "merge_data env message ours theirs merged =
     \<lparr>cd_parents = [ours, theirs], cd_author = ce_author env, cd_timestamp = ce_now env, cd_message = message,
      cd_tree = merged, cd_tags = [], cd_metrics = [], cd_project_id = ce_project_id env,
      cd_project_name = ce_project_name env, cd_run_id = None, cd_env = None\<rparr>"

text \<open>A true merge: no dirty file, flat trees, conflicts resolved by a policy.\<close>

definition merge_trees ::
  "'s commit_env \<Rightarrow> (string \<Rightarrow> hash) \<Rightarrow> (path \<Rightarrow> int) \<Rightarrow> remote \<Rightarrow> path list \<Rightarrow> string \<Rightarrow> string \<Rightarrow> side
   \<Rightarrow> hash option \<Rightarrow> hash \<Rightarrow> hash \<Rightarrow> worktree \<Rightarrow> lrepo \<Rightarrow> 's
   \<Rightarrow> merge_result attempt \<times> worktree \<times> lrepo \<times> 's" where
  "merge_trees env sha stamp rm ps b message policy base ours theirs w l s =
     (let tb = (case base of None \<Rightarrow> [] | Some h \<Rightarrow> tree_of_commit l h);
          to = tree_of_commit l ours; tt = tree_of_commit l theirs in
      if \<not> (tree_is_flat tb \<and> tree_is_flat to \<and> tree_is_flat tt) then (Raised ''validation'', w, l, s)
      else (case three_way_tree_merge ps tb to tt of (merged, conflicts) \<Rightarrow>
        if conflicts \<noteq> [] \<and> policy = NoPolicy then (Done (Conflicted conflicts), w, l, s)
        else (let tree = apply_policy (if policy = Ours then to else tt) conflicts merged in
              (case switch_tree sha stamp rm tree w l of
                 (Raised e, w', l') \<Rightarrow> (Raised e, w', l', s)
               | (Done _, w', l') \<Rightarrow>
                   (case finalize_commit env (merge_data env message ours theirs tree) (Attached b)
                           (lr_index l') None False l' s of
                      (Raised e, l'', s') \<Rightarrow> (Raised e, w', l'', s')
                    | (Done r, l'', s') \<Rightarrow> (Done (MergedInto r), w', l'', s'))))))"

definition merge_commits ::
  "'s commit_env \<Rightarrow> (string \<Rightarrow> hash) \<Rightarrow> (path \<Rightarrow> int) \<Rightarrow> remote \<Rightarrow> path list \<Rightarrow> string \<Rightarrow> string \<Rightarrow> side \<Rightarrow> bool
   \<Rightarrow> hash \<Rightarrow> hash \<Rightarrow> worktree \<Rightarrow> lrepo \<Rightarrow> 's \<Rightarrow> merge_result attempt \<times> worktree \<times> lrepo \<times> 's" where
  "merge_commits env sha stamp rm ps b message policy no_ff ours theirs w l s =
     (let base = find_merge_base (history (lr_commits l)) ours theirs;
          dirty = collect_dirty_paths sha w (lr_index l) [] in
      if base = Some theirs then (Done MergeUpToDate, w, l, s)
      else if base = Some ours \<and> \<not> no_ff \<and> dirty = [] then
        (case switch_tree sha stamp rm (tree_of_commit l theirs) w l of
           (Raised e, w', l') \<Rightarrow> (Raised e, w', l', s)
         | (Done _, w', l') \<Rightarrow> (Done (FastForwarded ours theirs), w', set_head b theirs l', s))
      else if dirty \<noteq> [] then (Raised ''validation'', w, l, s)
      else merge_trees env sha stamp rm ps b message policy base ours theirs w l s)"

text \<open>\<open>policy\<close> has no value when both flags are given; \<open>allowed\<close> is the verdict of the branch policy,
  \<open>ps\<close> the order in which Python runs through the set of paths.\<close>

definition merge_cmd ::
  "'s commit_env \<Rightarrow> (string \<Rightarrow> hash) \<Rightarrow> (path \<Rightarrow> int) \<Rightarrow> remote \<Rightarrow> path list \<Rightarrow> bool \<Rightarrow> string \<Rightarrow> string option
   \<Rightarrow> side option \<Rightarrow> bool \<Rightarrow> worktree \<Rightarrow> lrepo \<Rightarrow> 's
   \<Rightarrow> merge_result attempt \<times> worktree \<times> lrepo \<times> 's" where
  "merge_cmd env sha stamp rm ps allowed target message policy no_ff w l s =
     (case (lr_head l, policy) of
        (Detached _, _) \<Rightarrow> (Raised ''validation'', w, l, s)
      | (Attached b, None) \<Rightarrow> (Raised ''validation'', w, l, s)
      | (Attached b, Some side) \<Rightarrow>
          (let ours = dget_or (lr_heads l) b [] in
           if ours = [] then (Raised ''validation'', w, l, s)
           else if \<not> allowed then (Raised ''policy_blocked'', w, l, s)
           else (case resolve_target rm target l of
                   (Raised e, l1) \<Rightarrow> (Raised e, w, l1, s)
                 | (Done theirs, l1) \<Rightarrow>
                     if theirs = [] then (Raised ''validation'', w, l1, s)
                     else if theirs = ours then (Done MergeUpToDate, w, l1, s)
                     else (case ensure_commit rm theirs l1 of
                             (Raised e, l2) \<Rightarrow> (Raised e, w, l2, s)
                           | (Done _, l2) \<Rightarrow>
                               merge_commits env sha stamp rm ps b (merge_message message target b) side no_ff
                                 ours theirs w l2 s))))"

section \<open>av fetch\<close>

definition resolve_fetch_targets ::
  "tree \<Rightarrow> path list \<Rightarrow> bool \<Rightarrow> string list \<Rightarrow> tree attempt" where
  "resolve_fetch_targets tree paths fetch_all layers =
     (if \<not> fetch_all \<and> paths = [] then Raised ''ValidationError''
      else if layers \<noteq> [] \<and> (fetch_all \<or> length paths \<noteq> 1) then Raised ''ValidationError''
      else if \<not> fetch_all \<and> list_ex (\<lambda>p. \<not> has_key tree p) paths then Raised ''ValidationError''
      else (let selected = (if fetch_all then tree
                            else fold (\<lambda>p sel. case dget tree p of None \<Rightarrow> sel | Some e \<Rightarrow> dset sel p e) paths []) in
            if layers = [] then Done selected
            else (case selected of
                    [(p, info)] \<Rightarrow>
                      if list_all (List.member (map l_name (e_layers info))) layers
                      then Done [(p, info\<lparr>e_layers := filter (\<lambda>l. List.member layers (l_name l)) (e_layers info)\<rparr>)]
                      else Raised ''ValidationError''
                  | _ \<Rightarrow> Raised ''ValueError'')))"

definition parts_of :: "entry \<Rightarrow> (hash \<times> int) list" where
  "parts_of e =
     (let parts = map (\<lambda>l. (l_hash l, l_size l)) (e_layers e) @ map (\<lambda>c. (ch_hash c, ch_size c)) (e_chunks e) in
      if parts \<noteq> [] then parts else [(e_hash e, e_size e)])"

definition wanted_parts :: "tree \<Rightarrow> (path \<times> hash \<times> int) list" where
  "wanted_parts selected = concat (map (\<lambda>(p, e). map (\<lambda>(h, n). (p, h, n)) (parts_of e)) selected)"

text \<open>All downloads run; their outcomes are looked at in order afterwards.\<close>

fun run_downloads ::
  "(string \<Rightarrow> hash) \<Rightarrow> net \<Rightarrow> (path \<times> hash \<times> int) list \<Rightarrow> objs
   \<Rightarrow> (path \<times> hash \<times> int) list attempt \<times> objs" where
  "run_downloads sha net [] os = (Done [], os)"
| "run_downloads sha net ((p, h, n) # rest) os =
     (case download_object sha net h of
        Raised e \<Rightarrow> (Raised e, snd (run_downloads sha net rest os))
      | Done None \<Rightarrow> (Raised ''ValidationError'', snd (run_downloads sha net rest os))
      | Done (Some b) \<Rightarrow>
          (case run_downloads sha net rest (dset os h b) of
             (Raised e, os') \<Rightarrow> (Raised e, os')
           | (Done xs, os') \<Rightarrow> (Done ((p, h, n) # xs), os')))"

record fetch_result =
  ft_fetched :: "(path \<times> hash \<times> int) list"
  ft_local :: nat
  ft_bytes :: int

definition download_selected_objects ::
  "(string \<Rightarrow> hash) \<Rightarrow> net \<Rightarrow> tree \<Rightarrow> objs \<Rightarrow> fetch_result attempt \<times> objs" where
  "download_selected_objects sha net selected os =
     (let wanted = wanted_parts selected;
          here = length (filter (\<lambda>(p, h, n). has_key os h) wanted);
          missing = filter (\<lambda>(p, h, n). \<not> has_key os h) wanted in
      if missing = [] then (Done \<lparr>ft_fetched = [], ft_local = here, ft_bytes = 0\<rparr>, os)
      else if \<not> nt_up net then (Raised ''NetworkError'', os)
      else (case batch_check_objects net (rev (remdups (rev (map (\<lambda>(p, h, n). h) missing)))) of
              Raised e \<Rightarrow> (Raised e, os)
            | Done found \<Rightarrow>
                if \<not> list_all (\<lambda>(p, h, n). List.member found h) missing then (Raised ''ValidationError'', os)
                else (case run_downloads sha net missing os of
                        (Raised e, os') \<Rightarrow> (Raised e, os')
                      | (Done xs, os') \<Rightarrow>
                          (Done \<lparr>ft_fetched = xs, ft_local = here,
                                 ft_bytes = sum_list (map (\<lambda>(p, h, n). n) xs)\<rparr>, os'))))"

definition head_tree :: "lrepo \<Rightarrow> tree" where
  "head_tree l = (case head_parents l of [h] \<Rightarrow> tree_of_commit l h | _ \<Rightarrow> [])"

definition fetch_cmd ::
  "(string \<Rightarrow> hash) \<Rightarrow> remote \<Rightarrow> path list \<Rightarrow> bool \<Rightarrow> string list \<Rightarrow> lrepo \<Rightarrow> fetch_result attempt \<times> lrepo" where
  "fetch_cmd sha rm paths fetch_all layers l =
     (case resolve_fetch_targets (head_tree l) paths fetch_all layers of
        Raised e \<Rightarrow> (Raised e, l)
      | Done selected \<Rightarrow>
          (case download_selected_objects sha (objects_of rm) selected (lr_objs l) of
             (r, os) \<Rightarrow> (r, l\<lparr>lr_objs := os\<rparr>)))"

section \<open>av clone\<close>

text \<open>Commit files are written as the pages arrive; \<open>None\<close> is a target left without a repository.\<close>

definition init_repo :: "string \<Rightarrow> hash \<Rightarrow> (hash \<times> stored_commit) list \<Rightarrow> lrepo" where
  "init_repo b tip cs =
     \<lparr>lr_commits = fold (\<lambda>(h, sc) d. dset d h sc) cs [], lr_queue = Some [], lr_heads = [(b, tip)],
      lr_head = Attached b, lr_index = empty_index, lr_objs = []\<rparr>"

definition clone ::
  "(string \<Rightarrow> hash) \<Rightarrow> (path \<Rightarrow> int) \<Rightarrow> remote \<Rightarrow> project list \<Rightarrow> (string, hash) dict \<Rightarrow> string
   \<Rightarrow> nat attempt \<times> worktree \<times> lrepo option" where
  "clone sha stamp rm projects refs name =
     (if \<not> nt_up rm then (Raised ''validation'', [], None)
      else (case resolve_project projects name of
        Raised e \<Rightarrow> (Raised ''validation'', [], None)
      | Done pj \<Rightarrow>
          (case iter_project_commits (rm_pages rm) of
             Raised e \<Rightarrow> (Raised e, [], None)
           | Done [] \<Rightarrow> (Raised ''validation'', [], None)
           | Done ((h0, sc0) # rest) \<Rightarrow>
               (let cs = (h0, sc0) # rest;
                    branch = pick_default_branch refs (pj_id pj);
                    tip = (case branch of None \<Rightarrow> h0 | Some b \<Rightarrow> dget_or refs (pj_id pj @ ''/'' @ b) []);
                    l = init_repo (case branch of None \<Rightarrow> ''main'' | Some b \<Rightarrow> b) tip cs in
                (case switch_tree sha stamp rm (tree_of_commit l tip) [] l of
                   (Raised e, w, l') \<Rightarrow> (Raised e, w, Some l')
                 | (Done _, w, l') \<Rightarrow> (Done (length cs), w, Some l'))))))"

section \<open>A pull only adds\<close>

declare walk_remote.simps [simp del]

lemma walk_remote_keeps:
  "walk_remote t c known ps commits = (r, commits') \<Longrightarrow> dget commits h = Some sc \<Longrightarrow> dget commits' h = Some sc"
proof (induction t c known ps commits arbitrary: r commits' rule: walk_remote.induct)
  case (1 t c known ps commits)
  show ?case
  proof (cases "c = [] \<or> c = t \<or> has_key commits c")
    case True
    then show ?thesis using "1.prems" by (auto simp: walk_remote.simps[of t c] split: if_splits)
  next
    case False
    obtain a known' ps' where a: "resolve_commit c known ps = (a, known', ps')"
      by (cases "resolve_commit c known ps")
    show ?thesis
    proof (cases "\<exists>x. a = Done (Some x)")
      case True
      then obtain x where x: "a = Done (Some x)" by blast
      let ?next = "case cd_parents (sc_data x) of [] \<Rightarrow> [] | p # _ \<Rightarrow> p"
      have "walk_remote t ?next known' ps' (dset commits c x) = (r, commits')"
        using "1.prems"(1) False a x by (simp add: walk_remote.simps[of t c])
      moreover have "dget (dset commits c x) h = Some sc"
        using "1.prems"(2) False by (auto dest: map_of_Some_key)
      ultimately show ?thesis using "1.IH"[OF _ _ a[symmetric] x refl refl] False x by auto
    next
      case nx: False
      then have "commits' = commits" using "1.prems"(1) False a
        by (auto simp: walk_remote.simps[of t c] split: attempt.splits option.splits)
      then show ?thesis using "1.prems"(2) by simp
    qed
  qed
qed

lemma switch_tree_frame:
  assumes "switch_tree sha stamp rm tree w l = (r, w', l')"
  shows "lr_commits l' = lr_commits l" "lr_queue l' = lr_queue l" "lr_heads l' = lr_heads l" "lr_head l' = lr_head l"
  using assms by (auto simp: switch_tree_def split: prod.splits attempt.splits)

text \<open>
  C39. A pull never loses local history or local work: every commit file and the queue stay, at most the
  current branch moves, only by a finished pull and only to a commit that has the old tip among its
  ancestors, and without \<open>--force\<close> a dirty working tree is not touched.
\<close>

theorem pull_fast_forward_only:
  assumes "pull sha stamp rm force w l = (r, w', l')"
  shows "(dget (lr_commits l) h = Some sc \<longrightarrow> dget (lr_commits l') h = Some sc)
    \<and> lr_queue l' = lr_queue l \<and> lr_head l' = lr_head l
    \<and> (w' \<noteq> w \<and> \<not> force \<longrightarrow> collect_dirty_paths sha w (lr_index l) [] = [])
    \<and> (lr_heads l' = lr_heads l
       \<or> (\<exists>b t. lr_head l = Attached b \<and> r = Done (Pulled (dget_or (lr_heads l) b []) t)
            \<and> lr_heads l' = dset (lr_heads l) b t
            \<and> (dget_or (lr_heads l) b [] = []
               \<or> store.anc (history (lr_commits l')) t (dget_or (lr_heads l) b []))))"
proof (cases "lr_head l")
  case (Detached d)
  then show ?thesis using assms by (simp add: pull_def)
next
  case (Attached b)
  let ?t = "dget_or (lr_heads l) b []"
  consider (quiet) "w' = w" "l' = l"
    | (walked) t where "rm_ref rm (rm_project rm @ ''/'' @ b) = Done (Some t)" "t \<noteq> []" "t \<noteq> ?t" "nt_up rm"
    using assms Attached by (auto simp: pull_def Let_def split: if_splits attempt.splits option.splits)
  then show ?thesis
  proof cases
    case quiet
    then show ?thesis by simp
  next
    case (walked t)
    obtain a cs where wk: "walk_remote ?t t [] (rm_pages rm) (lr_commits l) = (a, cs)"
      by (cases "walk_remote ?t t [] (rm_pages rm) (lr_commits l)")
    have kept: "dget (lr_commits l) h = Some sc \<longrightarrow> dget cs h = Some sc"
      using walk_remote_keeps[OF wk] by blast
    let ?l = "l\<lparr>lr_commits := cs\<rparr>"
    show ?thesis
    proof (cases a)
      case (Raised e)
      then have "w' = w" "l' = ?l" using assms Attached walked wk by (simp_all add: pull_def)
      then show ?thesis using kept by simp
    next
      case (Done joined)
      have int: "integrate sha stamp rm force b ?t t joined w ?l = (r, w', l')"
        using assms Attached walked wk Done by (simp add: pull_def)
      show ?thesis
      proof (cases "\<not> fast_forward_ok ?l joined ?t t \<or> \<not> force \<and> collect_dirty_paths sha w (lr_index l) [] \<noteq> []")
        case True
        then have "w' = w" "l' = ?l" using int by (auto simp: integrate_def split: if_splits)
        then show ?thesis using kept by simp
      next
        case False
        obtain x w1 l1 where sw: "switch_tree sha stamp rm (tree_of_commit ?l t) w ?l = (x, w1, l1)"
          by (cases "switch_tree sha stamp rm (tree_of_commit ?l t) w ?l")
        note fr = switch_tree_frame[OF sw]
        have anc: "?t = [] \<or> store.anc (history cs) t ?t"
          using False by (auto simp: fast_forward_ok_def is_ancestor_iff)
        show ?thesis
        proof (cases x)
          case (Raised e)
          then have "l' = l1" using int False sw by (auto simp: integrate_def)
          then show ?thesis using kept fr False by auto
        next
          case xd: (Done u)
          then have "l' = set_head b t l1" "r = Done (Pulled ?t t)" using int False sw by (auto simp: integrate_def)
          then show ?thesis using kept fr False anc Attached by (auto simp: set_head_def)
        qed
      qed
    qed
  qed
qed

section \<open>What a merge records\<close>

lemma requeue_commits: "lr_commits (requeue h ref l) = lr_commits l"
  by (cases "enqueue h ref l") (simp_all add: requeue_def enqueue_effect(1))

lemma flush_commits:
  "flush_pending_push c sn skip l s = (r, l', s') \<Longrightarrow> lr_commits l' = lr_commits l"
  by (auto simp: flush_pending_push_def Let_def split: attempt.splits if_splits prod.splits option.splits bool.splits)

lemma push_to_remote_commits:
  "push_to_remote c sn h sc ref only e l s = (r, l', s') \<Longrightarrow> lr_commits l' = lr_commits l \<and> fr_hash r = h"
proof -
  assume run: "push_to_remote c sn h sc ref only e l s = (r, l', s')"
  obtain r1 os s1 where u: "upload_commit_objects c sn (cd_tree (sc_data sc)) only (lr_objs l) s = (r1, os, s1)"
    by (cases "upload_commit_objects c sn (cd_tree (sc_data sc)) only (lr_objs l) s")
  obtain r2 s2 where p: "cl_push c h sc s1 = (r2, s2)" by (cases "cl_push c h sc s1")
  obtain r3 s3 where rf: "(case ref of None \<Rightarrow> (RefDone True, s2) | Some ref \<Rightarrow> cl_ref c ref h e s2) = (r3, s3)"
    by (metis prod.exhaust)
  let ?l = "l\<lparr>lr_objs := os\<rparr>"
  have "fr_hash r = h \<and> (l' = requeue h ref ?l \<or> l' = drop_delivered h (drop_parents ref (cd_parents (sc_data sc)) ?l))"
    using run unfolding push_to_remote_def Let_def u prod.case p rf
    by (auto simp: settled_def still_queued_def split: attempt.splits bool.splits ref_answer.splits)
  then show ?thesis by (auto simp: requeue_commits drop_delivered_def drop_parents_def)
qed

lemma push_or_queue_commits:
  assumes "push_or_queue c sn h sc ref only later l s = (r, l', s')"
  shows "lr_commits l' = lr_commits l \<and> fr_hash r = h"
proof (cases later)
  case True
  then show ?thesis using assms by (auto simp: push_or_queue_def Let_def requeue_commits still_queued_def)
next
  case False
  obtain r1 l1 s1 where f: "flush_pending_push c sn [h] l s = (r1, l1, s1)"
    by (cases "flush_pending_push c sn [h] l s")
  show ?thesis
    using assms False f flush_commits[OF f]
    by (auto simp: push_or_queue_def Let_def requeue_commits still_queued_def dest: push_to_remote_commits
        split: if_splits prod.splits bool.splits)
qed

lemma persisted_commits:
  assumes "run_steps (persist_steps h sc ref target ix) l = (None, l')"
  shows "lr_commits l' = dset (lr_commits l) h sc"
  using assms enqueue_effect(1)[of h ref "l\<lparr>lr_commits := dset (lr_commits l) h sc\<rparr>"]
  by (auto simp: persist_steps_def write_commit_def move_ref_def save_index_def split: attempt.splits head.splits)

lemma finalize_stores:
  assumes "finalize_commit env cd target ix only later l s = (Done f, l', s')"
  shows "fr_hash f = commit_hash (ce_sha env) (ce_canon_ts env) cd"
    and "dget (lr_commits l') (fr_hash f) = Some \<lparr>sc_data = cd, sc_signature = ce_sign env (fr_hash f) cd\<rparr>"
proof -
  define h where "h = commit_hash (ce_sha env) (ce_canon_ts env) cd"
  define sc where "sc = \<lparr>sc_data = cd, sc_signature = ce_sign env h cd\<rparr>"
  have sealed: "sealed env cd = (h, sc)" by (simp add: sealed_def h_def sc_def Let_def)
  obtain e l1 where p: "run_steps (persist_steps h sc (remote_ref_name (ce_project_id env) target) target ix) l = (e, l1)"
    by (cases "run_steps (persist_steps h sc (remote_ref_name (ce_project_id env) target) target ix) l")
  have "e = None" using assms p by (auto simp: finalize_commit_def sealed Let_def split: option.splits prod.splits)
  moreover obtain r l2 s2 where q: "push_or_queue (ce_client env) (ce_snapshot env) h sc
      (remote_ref_name (ce_project_id env) target) only later l1 s = (r, l2, s2)"
    by (cases "push_or_queue (ce_client env) (ce_snapshot env) h sc (remote_ref_name (ce_project_id env) target) only later l1 s")
  ultimately have "f = r" "l' = l2" using assms p by (auto simp: finalize_commit_def sealed Let_def)
  then show "fr_hash f = commit_hash (ce_sha env) (ce_canon_ts env) cd"
    "dget (lr_commits l') (fr_hash f) = Some \<lparr>sc_data = cd, sc_signature = ce_sign env (fr_hash f) cd\<rparr>"
    using push_or_queue_commits[OF q] persisted_commits[OF p[unfolded \<open>e = None\<close>]]
    by (simp_all add: h_def[symmetric] sc_def)
qed

definition base_tree :: "lrepo \<Rightarrow> hash option \<Rightarrow> tree" where
  "base_tree l base = (case base of None \<Rightarrow> [] | Some h \<Rightarrow> tree_of_commit l h)"

text \<open>
  C40. The commit of a finished merge has both tips as its parents and records, path by path, the side that
  changed since the base; where both changed differently it records the side the policy names, and without
  a policy there is no such path.
\<close>

theorem merge_records_resolution:
  assumes "merge_trees env sha stamp rm ps b message policy base ours theirs w l s = (Done (MergedInto f), w', l', s')"
    and "enumerates ps (base_tree l base) (tree_of_commit l ours) (tree_of_commit l theirs)"
  shows "\<exists>sc. dget (lr_commits l') (fr_hash f) = Some sc \<and> cd_parents (sc_data sc) = [ours, theirs]
    \<and> (let eb = dget (base_tree l base) p; eo = dget (tree_of_commit l ours) p; et = dget (tree_of_commit l theirs) p in
        dget (cd_tree (sc_data sc)) p
          = (if eo = et then eo else if eb = eo then et else if eb = et then eo else if policy = Ours then eo else et)
        \<and> (policy = NoPolicy \<longrightarrow> eo = et \<or> eb = eo \<or> eb = et))"
proof -
  let ?b = "base_tree l base" and ?o = "tree_of_commit l ours" and ?t = "tree_of_commit l theirs"
  obtain merged conflicts where m: "three_way_tree_merge ps ?b ?o ?t = (merged, conflicts)"
    by (cases "three_way_tree_merge ps ?b ?o ?t")
  define tree where "tree = apply_policy (if policy = Ours then ?o else ?t) conflicts merged"
  have flat: "tree_is_flat ?b \<and> tree_is_flat ?o \<and> tree_is_flat ?t" and pol: "conflicts = [] \<or> policy \<noteq> NoPolicy"
    using assms(1) m by (auto simp: merge_trees_def base_tree_def Let_def split: if_splits)
  obtain x w1 l1 where sw: "switch_tree sha stamp rm tree w l = (x, w1, l1)"
    by (cases "switch_tree sha stamp rm tree w l")
  obtain y l2 s2 where fin: "finalize_commit env (merge_data env message ours theirs tree) (Attached b) (lr_index l1) None False l1 s
      = (y, l2, s2)"
    by (cases "finalize_commit env (merge_data env message ours theirs tree) (Attached b) (lr_index l1) None False l1 s")
  have run: "merge_trees env sha stamp rm ps b message policy base ours theirs w l s
      = (case (x, w1, l1) of
           (Raised e, w', l') \<Rightarrow> (Raised e, w', l', s)
         | (Done _, w', l') \<Rightarrow>
             (case finalize_commit env (merge_data env message ours theirs tree) (Attached b) (lr_index l') None False l' s of
                (Raised e, l'', s') \<Rightarrow> (Raised e, w', l'', s')
              | (Done r, l'', s') \<Rightarrow> (Done (MergedInto r), w', l'', s')))"
    using flat pol unfolding sw[symmetric] tree_def
    by (auto simp: merge_trees_def base_tree_def[symmetric] m Let_def)
  have "y = Done f" "l' = l2"
    using assms(1) unfolding run by (auto simp: fin split: attempt.splits)
  from finalize_stores(2)[OF fin[unfolded \<open>y = Done f\<close>]] have st:
    "dget (lr_commits l') (fr_hash f)
       = Some \<lparr>sc_data = merge_data env message ours theirs tree,
               sc_signature = ce_sign env (fr_hash f) (merge_data env message ours theirs tree)\<rparr>"
    using \<open>l' = l2\<close> by simp
  have look: "dget merged p = merged_entry (dget ?b p) (dget ?o p) (dget ?t p)"
    using three_way_lookup[OF assms(2), of p] m by simp
  have conf: "p \<in> set conflicts \<longleftrightarrow> is_conflict (dget ?b p) (dget ?o p) (dget ?t p)"
    using three_way_conflict_iff[OF assms(2), of p] m by simp
  have tree: "dget tree p = (if p \<in> set conflicts then dget (if policy = Ours then ?o else ?t) p else dget merged p)"
    by (simp add: tree_def apply_policy_lookup)
  have entry: "dget tree p = (if dget ?o p = dget ?t p then dget ?o p else if dget ?b p = dget ?o p then dget ?t p
      else if dget ?b p = dget ?t p then dget ?o p else if policy = Ours then dget ?o p else dget ?t p)"
    unfolding tree conf look by (auto simp: is_conflict_def merged_entry_def path_verdict_def)
  have "policy = NoPolicy \<Longrightarrow> p \<notin> set conflicts" using pol by auto
  then have np: "policy = NoPolicy \<longrightarrow> dget ?o p = dget ?t p \<or> dget ?b p = dget ?o p \<or> dget ?b p = dget ?t p"
    unfolding conf by (auto simp: is_conflict_def)
  show ?thesis using st entry np by (auto simp: merge_data_def Let_def)
qed

section \<open>Concrete pulls\<close>

definition plain_row :: "hash \<Rightarrow> hash list \<Rightarrow> remote_row" where
  "plain_row h ps = \<lparr>rr_hash = h, rr_parents = ps, rr_parent_hash = None, rr_author = [], rr_timestamp = ''t'',
     rr_message = ''m'', rr_tree = [], rr_tags = [], rr_metrics = [], rr_project_id = ''p'', rr_project_name = ''p'',
     rr_signature = JNull, rr_env = None\<rparr>"

definition plain_remote :: "hash \<Rightarrow> page list \<Rightarrow> remote" where
  "plain_remote tip pages = \<lparr>nt_up = True, nt_object = (\<lambda>_. NoAnswer), nt_batch = (\<lambda>_. Found []), rm_project = ''p'',
     rm_project_name = ''p'', rm_ref = (\<lambda>_. Done (Some tip)), rm_pages = pages, rm_commit = (\<lambda>_. Done None)\<rparr>"

definition local_repo :: "(hash \<times> hash list) list \<Rightarrow> hash \<Rightarrow> lrepo" where
  "local_repo cs tip = \<lparr>lr_commits = map (\<lambda>(h, ps). normalize_commit_row (plain_row h ps)) cs, lr_queue = Some [],
     lr_heads = [(''main'', tip)], lr_head = Attached ''main'', lr_index = empty_index, lr_objs = []\<rparr>"

definition plain_pull :: "page list \<Rightarrow> hash \<Rightarrow> lrepo \<Rightarrow> pull_result attempt \<times> worktree \<times> lrepo" where
  "plain_pull pages tip l = pull (\<lambda>b. b) (\<lambda>_. 0) (plain_remote tip pages) False [] l"

lemma pull_fast_forward_only_witness:
  "case plain_pull [Page [plain_row ''c'' [''b'']] True, Page [plain_row ''b'' [''a'']] False] ''c'' (local_repo [(''a'', [])] ''a'') of
     (r, w', l') \<Rightarrow> lr_heads l' = [(''main'', ''c'')] \<and> store.anc (history (lr_commits l')) ''c'' ''a''"
proof -
  let ?pages = "[Page [plain_row ''c'' [''b'']] True, Page [plain_row ''b'' [''a'']] False]"
  let ?l = "local_repo [(''a'', [])] ''a''"
  obtain r w' l' where p: "plain_pull ?pages ''c'' ?l = (r, w', l')" by (cases "plain_pull ?pages ''c'' ?l")
  have "lr_heads (snd (snd (plain_pull ?pages ''c'' ?l))) = [(''main'', ''c'')]" by code_simp
  then have h: "lr_heads l' = [(''main'', ''c'')]" by (simp add: p)
  have l: "lr_heads ?l = [(''main'', ''a'')]" by (simp add: local_repo_def)
  have hd: "lr_head ?l = Attached ''main''" by (simp add: local_repo_def)
  from pull_fast_forward_only[OF p[unfolded plain_pull_def], of "[]" undefined]
  have "lr_heads l' = lr_heads ?l
       \<or> (\<exists>b t. lr_head ?l = Attached b \<and> r = Done (Pulled (dget_or (lr_heads ?l) b []) t)
            \<and> lr_heads l' = dset (lr_heads ?l) b t
            \<and> (dget_or (lr_heads ?l) b [] = []
               \<or> store.anc (history (lr_commits l')) t (dget_or (lr_heads ?l) b [])))" by blast
  then show ?thesis unfolding p prod.case h l hd by (auto simp: dget_or_def)
qed

text \<open>
  A pull that fails half way has written the tip's commit file already. The next pull takes that file for
  the place where the remote history joins the local one, misses what lies between and reports a
  divergence, though the registry is complete and the branch only behind.
\<close>

lemma interrupted_pull_blocks_later_pulls:
  "case plain_pull [Page [plain_row ''c'' [''b'']] True] ''c'' (local_repo [(''a'', [])] ''a'') of
     (r, w, l') \<Rightarrow> r = Raised ''validation''
       \<and> fst (plain_pull [Page [plain_row ''c'' [''b''], plain_row ''b'' [''a'']] False] ''c'' l') = Raised ''merge_conflict''"
  by code_simp

text \<open>Only first parents are fetched: when the registry's tip merges the local tip's child as its second
  parent, the local tip is an ancestor there and the pull still reports a divergence.\<close>

lemma second_parents_not_fetched:
  "fst (plain_pull [Page [plain_row ''m'' [''r'', ''x''], plain_row ''x'' [''y''], plain_row ''r'' [''a''], plain_row ''y'' [''a'']] False]
     ''m'' (local_repo [(''a'', []), (''y'', [''a''])] ''y'')) = Raised ''merge_conflict''"
  by code_simp

section \<open>Fetched commits forget their run\<close>

lemma keys_sort_keys: "sort_keys (JObj fs) = sort_keys (JObj gs) \<Longrightarrow> fst ` set fs = fst ` set gs"
proof -
  assume "sort_keys (JObj fs) = sort_keys (JObj gs)"
  then have "sort_key fst (map (\<lambda>(k, j). (k, sort_keys j)) fs) = sort_key fst (map (\<lambda>(k, j). (k, sort_keys j)) gs)"
    by (simp only: sort_keys.simps json.inject)
  from arg_cong[OF this, of "\<lambda>xs. fst ` set xs"]
  have "fst ` set (map (\<lambda>(k, j). (k, sort_keys j)) fs) = fst ` set (map (\<lambda>(k, j). (k, sort_keys j)) gs)"
    by (simp only: set_sort)
  then show ?thesis by (simp add: image_image case_prod_unfold)
qed

lemma payload_names_run: "''run_id'' \<in> fst ` set (payload cd) \<longleftrightarrow> cd_run_id cd \<noteq> None"
  by (cases "cd_run_id cd"; cases "cd_env cd") (simp_all add: payload_def opt_field_def)

text \<open>The registry's row of a commit that belongs to a run, fetched again, no longer has the bytes that were
  hashed and signed.\<close>

lemma fetched_run_commit_not_verifiable:
  assumes "cd_run_id cd \<noteq> None" and "normalize_commit_row r = (h, sc)"
  shows "canonical_commit_bytes canon (payload (sc_data sc)) \<noteq> canonical_commit_bytes canon (payload cd)"
proof
  define norm where "norm fs = (let fs1 = (case canon (field fs ''timestamp'' JNull) of
      None \<Rightarrow> fs | Some t \<Rightarrow> dset fs ''timestamp'' (JStr t)) in ddel fs1 ''signature'')" for fs :: "(string \<times> json) list"
  have canon: "canonical_commit_bytes canon fs = dumps_sorted (JObj (norm fs))" for fs
    by (simp add: canonical_commit_bytes_def norm_def Let_def)
  have run: "''run_id'' \<in> fst ` set (norm fs) \<longleftrightarrow> ''run_id'' \<in> fst ` set fs" for fs
    by (simp add: norm_def Let_def split: option.split)
  assume "canonical_commit_bytes canon (payload (sc_data sc)) = canonical_commit_bytes canon (payload cd)"
  then have "fst ` set (norm (payload (sc_data sc))) = fst ` set (norm (payload cd))"
    unfolding canon dumps_sorted_inject by (rule keys_sort_keys)
  then have "''run_id'' \<in> fst ` set (norm (payload (sc_data sc))) \<longleftrightarrow> ''run_id'' \<in> fst ` set (norm (payload cd))"
    by (rule arg_cong)
  then have "cd_run_id (sc_data sc) \<noteq> None" using assms(1) unfolding run payload_names_run by blast
  then show False using assms(2) by (auto simp: normalize_commit_row_def)
qed

section \<open>A concrete merge\<close>

definition edited :: "char \<Rightarrow> entry" where
  "edited c = \<lparr>e_hash = [c], e_size = 1, e_type = ''code'', e_layers = [], e_chunks = []\<rparr>"

definition forked_repo :: lrepo where
  "forked_repo = (local_repo [(''b'', []), (''o'', [''b'']), (''t'', [''b''])] ''o'')
     \<lparr>lr_commits := map (\<lambda>(h, ps, tree). (h, \<lparr>sc_data = demo_data\<lparr>cd_parents := ps, cd_tree := tree\<rparr>, sc_signature = None\<rparr>))
        [(''b'', [], [(''f'', edited CHR ''1''), (''g'', edited CHR ''1'')]),
         (''o'', [''b''], [(''f'', edited CHR ''2''), (''g'', edited CHR ''1'')]),
         (''t'', [''b''], [(''f'', edited CHR ''3''), (''g'', edited CHR ''4'')])],
      lr_objs := map (\<lambda>c. ([c], [c])) ''1234''\<rparr>"

definition quiet_client :: "unit client" where
  "quiet_client = \<lparr>cl_available = (\<lambda>s. (False, s)), cl_check = (\<lambda>_ s. (Done [], s)), cl_upload = (\<lambda>_ _ s. (Done False, s)),
     cl_push = (\<lambda>_ _ s. (Done False, s)), cl_ref = (\<lambda>_ _ _ s. (RefDone False, s))\<rparr>"

definition merge_env :: "unit commit_env" where
  "merge_env = \<lparr>ce_sha = (\<lambda>_. ''m''), ce_canon_ts = (\<lambda>_. None), ce_sign = (\<lambda>_ _. None), ce_client = quiet_client,
     ce_snapshot = None, ce_author = ''a'', ce_now = ''t'', ce_project_id = ''p'', ce_project_name = ''p''\<rparr>"

definition forked_merge :: "side \<Rightarrow> merge_result attempt \<times> worktree \<times> lrepo \<times> unit" where
  "forked_merge side = merge_trees merge_env (\<lambda>b. b) (\<lambda>_. 0) (plain_remote ''t'' []) [''f'', ''g''] ''main'' ''merge'' side
     (Some ''b'') ''o'' ''t'' [] forked_repo ()"

lemma merge_records_resolution_witness:
  "case forked_merge Ours of (r, w', l', s') \<Rightarrow>
     \<exists>sc. dget (lr_commits l') ''m'' = Some sc \<and> cd_parents (sc_data sc) = [''o'', ''t'']
       \<and> dget (cd_tree (sc_data sc)) ''f'' = Some (edited CHR ''2'')"
proof -
  obtain r w' l' s' where m: "forked_merge Ours = (r, w', l', s')" by (cases "forked_merge Ours")
  have "fst (forked_merge Ours) = Done (MergedInto (still_queued ''m'' ''server_unreachable''))" by code_simp
  then have r: "r = Done (MergedInto (still_queued ''m'' ''server_unreachable''))" by (simp add: m)
  have trees: "base_tree forked_repo (Some ''b'') = [(''f'', edited CHR ''1''), (''g'', edited CHR ''1'')]"
    "tree_of_commit forked_repo ''o'' = [(''f'', edited CHR ''2''), (''g'', edited CHR ''1'')]"
    "tree_of_commit forked_repo ''t'' = [(''f'', edited CHR ''3''), (''g'', edited CHR ''4'')]"
    by (simp_all add: base_tree_def tree_of_commit_def forked_repo_def)
  have en: "enumerates [''f'', ''g''] (base_tree forked_repo (Some ''b'')) (tree_of_commit forked_repo ''o'') (tree_of_commit forked_repo ''t'')"
    unfolding trees by (simp add: enumerates_def dkeys_def)
  have "edited CHR ''2'' \<noteq> edited CHR ''3''" "edited CHR ''1'' \<noteq> edited CHR ''2''" "edited CHR ''1'' \<noteq> edited CHR ''3''"
    by (simp_all add: edited_def)
  with merge_records_resolution[OF m[unfolded r forked_merge_def] en, of "''f''"] show ?thesis
    unfolding trees m prod.case by (auto simp: still_queued_def Let_def)
qed

text \<open>The dirty check of \<open>pull\<close> and \<open>merge\<close> is not given the tree to come: an untracked file in the way of the
  remote tree is overwritten without \<open>--force\<close>.\<close>

lemma pull_overwrites_untracked:
  "case pull (\<lambda>b. b) (\<lambda>_. 0) (plain_remote ''c'' [Page [(plain_row ''c'' [''a''])\<lparr>rr_tree := [(''f'', edited CHR ''1'')]\<rparr>] False])
      False [(''f'', \<lparr>wf_bytes = ''mine'', wf_mtime = 5\<rparr>)] ((local_repo [(''a'', [])] ''a'')\<lparr>lr_objs := [(''1'', ''1'')]\<rparr>) of
     (r, w', l') \<Rightarrow> r = Done (Pulled ''a'' ''c'') \<and> map_option wf_bytes (dget w' ''f'') = Some ''1''"
  by code_simp

end
