(* ===== verification/Spec2Isabelle.thy ===== *)
theory Spec2Isabelle
  imports MergeBase TreeMerge GcSweep RateLimit AuditChain Merkle Refs SemDiff Auth Runs Improver Evals Commits Ignore Staging Restore Delivery Registry Scoped Sync RedisCache Webhooks Doubles
begin

text \<open>
  Verification development of Aether-Vault (Python): root theory.

  Aether-Vault is version control for models and data. A client (\<open>python/av_cli\<close>) keeps commits,
  trees and chunks of files in a \<open>.av\<close> directory and synchronises them with a registry
  (\<open>python/av_server\<close>), a FastAPI service over a relational database, a sharded directory of
  content-addressed objects and an optional Redis. The registry also keeps experiment runs, improver
  versions, evaluations and an audit trail.

  \<^bold>\<open>The parts and their theories.\<close>
  \<^item> \<open>Base\<close>, \<open>Json\<close>, \<open>Doubles\<close>: dictionaries as association lists in insertion order (\<open>dict\<close>), the
    string methods the code uses, \<open>json.dumps\<close> with and without sorted keys, proved injective, and
    Python's floats as binary64 numbers with their rounding.
  \<^item> \<open>Repo\<close>, \<open>MergeBase\<close>, \<open>TreeMerge\<close> (client): the commit store \<open>.av/commits\<close>; \<open>merge.py\<close>'s
    \<open>find_merge_base\<close>, \<open>sync.py\<close>'s \<open>is_ancestor\<close>, \<open>core.py\<close>'s \<open>_ref_contains\<close>; the three-way merge
    of flat trees and the \<open>--ours\<close>/\<open>--theirs\<close> resolution.
  \<^item> \<open>Ignore\<close>, \<open>Staging\<close>, \<open>Restore\<close> (client): the walk of the working tree with its ignore files; the index,
    staging of a file whole, in layers or in chunks, status, \<open>av add\<close>, \<open>av rm\<close> and \<open>av unstage\<close>
    (\<open>index.py\<close>, \<open>core.py\<close>, \<open>cmd_staging.py\<close>); restoring files and whole trees (\<open>materialize_file\<close>,
    \<open>_materialize_tree\<close>).
  \<^item> \<open>Delivery\<close>, \<open>Scoped\<close>, \<open>Sync\<close> (client): \<open>core.py\<close>'s \<open>commit_staged\<close> and \<open>_finalize_commit\<close> with each
    durable write as a step, the queue of undelivered commits, \<open>commit_scoped_paths\<close>; \<open>sync.py\<close> and the
    commands pull, merge, fetch and clone of \<open>cmd_sync.py\<close>. The registry is the locale of the client's
    calls, so that anything may happen there between two of them.
  \<^item> \<open>Registry\<close>: \<open>client.py\<close>'s calls over a network that loses requests and replies, against the model's
    own handlers; it interprets the client locale of \<open>Delivery\<close>.
  \<^item> \<open>GcMark\<close>, \<open>GcSweep\<close> (registry): \<open>gc_mark.py\<close> and \<open>server.py::run_garbage_collection\<close>.
  \<^item> \<open>RedisCache\<close>, \<open>ObjectStore\<close>: the Bloom filters of \<open>redis_cache.py\<close>; \<open>storage.py\<close> with the upload,
    download, head and batch-check handlers. RedisBloom is a parameter.
  \<^item> \<open>RateLimit\<close>: both limiters of \<open>rate_limit.py\<close> and the middleware.
  \<^item> \<open>AuditChain\<close>: the hash-chained audit log, its extension at flush time (\<open>database.py\<close>), the two
    verifiers and the retention prune.
  \<^item> \<open>Merkle\<close>, \<open>Commits\<close>: \<open>build_merkle_tree\<close> and \<open>resolve_tree\<close> of \<open>server.py\<close>; \<open>push_commit\<close> with its
    checks, the run it links or creates, the anomaly detectors, and the routes that read commits back.
  \<^item> \<open>Handlers\<close>: what the JSON handlers share: caller, reply, table primitives, time stamps, parent
    chains, sequences of requests; and the contracts (locales) \<open>idempotent_create\<close>, \<open>keyed_rows\<close> and
    \<open>unwinding\<close>, each interpreted in the theories of the handlers that provide them.
  \<^item> \<open>Webhooks\<close>: events, signed deliveries, the retry worker and the webhook handlers. Its record
    \<open>effects\<close> (audit trail, events, deliveries) is the part of the database all later states extend.
  \<^item> \<open>Refs\<close>, \<open>SemDiff\<close>: branch references with compare-and-swap; the semantic summaries of client and
    server.
  \<^item> \<open>Identity\<close>, \<open>Auth\<close>: tokens, sessions, users and roles with the principal cache (\<open>identity.py\<close>);
    \<open>AV_AUTH_USERS\<close>, the \<open>require_token\<close> middleware, route scopes and the tenancy guard.
  \<^item> \<open>Runs\<close>, \<open>Improver\<close>, \<open>Evals\<close>: experiment runs with their lineage and metrics; improver versions, change
    sets, policy packs, canaries and freezes; eval suites and results, adapters, tasks, plans and budgets.

  \<^bold>\<open>State and operations.\<close> A handler is a function from the caller, its arguments and the state to a
  reply and the new state, in the order of the code: the checks and early returns, the change of the
  tables, then the event and the audit record. \<open>Fail n\<close> is an \<open>HTTPException\<close> with status \<open>n\<close>, or 500
  for an exception the handler does not catch; its detail texts are shortened. A handler that fails
  leaves the state as it was, except for records it commits before it refuses (scope and tenant
  denials, reference races). The tables are lists of rows in insertion order. A text column that is
  filled from a request body without a check holds the body's JSON value. Time stamps are
  microseconds. SHA-256, HMAC, ed25519, HTTP endpoints and the clock are arguments.

  \<^bold>\<open>What the lemma groups show.\<close> Ancestry: the merge base is a nearest common ancestor, and the two
  reachability walks agree. Merging: path-wise specification and symmetry. Collection: the mark phase
  computes the reachable trees and hashes, and the sweep never loses one and keeps reachability. Audit:
  what is written verifies, equal chain ends mean equal contents or a collision, the first edited row
  is located, and pruning breaks the chain. Limiter: at most twice the limit in any window length, and
  pruning is invisible. Trees: a round trip, and the root hash binds the tree. Deliveries: identical
  signed bodies, a bound on attempts, and every delivery is settled when the worker keeps running.
  Registry: one winner of a reference race, names confined to the directory, exactly the valid
  credentials admitted, projects kept by their tenant, pushed commits that read back, well-typed runs,
  complete lineage pages, change sets applied only after approval, frozen suites immutable, blind scores
  hidden, budget counters that are the sums of what was consumed. Client: the walk and the ignore rules
  exactly, a staged file restores, a checkout is exact, a killed commit is not stranded, a finished one is
  queued or held by the registry, a scoped commit leaves the rest alone, a pull only fast-forwards, a merge
  records both parents and the resolution. Lemmas named in the properties' texts show where a condition is
  needed: what the code does there is a counterexample.

  \<^bold>\<open>Fuel.\<close> \<open>resolve_tree\<close> and \<open>climb\<close> take fuel because stored trees and parent links may be cyclic;
  the round trip of trees and the theorem on lineage pages state an amount that suffices, and
  \<open>cf_fuel\<close> bounds the depth of the trees that \<open>Commits\<close> resolves: reading back holds for every amount
  from some point on. The exponent search of \<open>Doubles\<close> takes 2046 halvings, one for each exponent of
  binary64. The walks over commits and trees terminate by a measure on the unvisited part.

  \<^bold>\<open>Parameters.\<close> Besides the digests and the clock: the functions of the C++ extension, with what
  \<open>core.cpp\<close> ensures of them (\<open>core_ok\<close>); RedisBloom; which object files can be written; what \<open>int\<close> and
  \<open>float\<close> make of a text, and \<open>json.loads\<close>; the endpoints of webhooks and the answers of the network.

  \<^bold>\<open>Not modelled.\<close> Fractional numbers in request bodies (the seconds of a budget may be given as a text)
  and characters above 255 in JSON; the order of rows with equal time stamps; the isolation of concurrent
  transactions (each handler is one step); HTTP framing, range requests and file responses; single
  sign-on, SCIM, metrics and the web interface; the C++ core and its bindings; packaging, plugins and
  benchmarks; the terminal output of the client commands and the commands not named above. Parallel
  uploads and downloads run one after the other.
\<close>

end
